(* ===== verification/Go_Base.thy ===== *)
theory Go_Base
  imports Main "HOL-Library.AList" "HOL-Library.Sublist"
begin

text \<open>
  The part of the Go language and of its standard library that the sources under src/ use:
  maps, 64-bit integers, \<open>time.Time\<close> and \<open>time.Duration\<close>, decimal printing and
  parsing, and the functions of package strings. Everything is executable, and the lemmas at
  the end of each section are the ones the component theories rewrite with.
\<close>

named_theorems go_simps "rewrite rules of the Go runtime model"

section \<open>Maps\<close>

text \<open>
  A Go map is an association list with distinct keys. The order of the list is the order in
  which a range loop happens to visit the map, so a theorem that holds for every list holds
  for every iteration order. A nil map reads as an empty one.
\<close>

type_synonym ('k, 'v) gomap = "('k \<times> 'v) list"

definition gomap_ok :: "('k, 'v) gomap \<Rightarrow> bool" where
  "gomap_ok m \<longleftrightarrow> distinct (map fst m)"

text \<open>The index expression \<open>m[k]\<close> of a string map: the zero value for an absent key.\<close>

definition strAt :: "('k, string) gomap \<Rightarrow> 'k \<Rightarrow> string" where
  "strAt m k = (case map_of m k of None \<Rightarrow> '''' | Some v \<Rightarrow> v)"

lemma gomap_ok_Nil [simp, intro]: "gomap_ok []"
  by (simp add: gomap_ok_def)

lemma gomap_ok_update [simp, intro]: "gomap_ok m \<Longrightarrow> gomap_ok (AList.update k v m)"
  by (simp add: gomap_ok_def distinct_update)

lemma gomap_ok_delete [simp, intro]: "gomap_ok m \<Longrightarrow> gomap_ok (AList.delete k m)"
  by (simp add: gomap_ok_def distinct_delete)

lemma map_of_update [simp, go_simps]:
  "map_of (AList.update k v m) k' = (if k' = k then Some v else map_of m k')"
  by (simp add: update_conv)

lemma map_of_delete [simp, go_simps]:
  "map_of (AList.delete k m) k' = (if k' = k then None else map_of m k')"
  by (simp add: delete_conv)

lemma length_update_fresh:
  "map_of m k = None \<Longrightarrow> length (AList.update k v m) = Suc (length m)"
  by (induction m) (auto split: if_splits)

lemma length_update_present:
  "map_of m k = Some w \<Longrightarrow> length (AList.update k v m) = length m"
  by (induction m) (auto split: if_splits)

lemma map_fst_update_present:
  "map_of m k = Some w \<Longrightarrow> map fst (AList.update k v m) = map fst m"
  by (induction m) (auto split: if_splits)

lemma length_delete_present:
  "gomap_ok m \<Longrightarrow> map_of m k = Some v \<Longrightarrow> Suc (length (AList.delete k m)) = length m"
proof (induction m)
  case Nil
  then show ?case by simp
next
  case (Cons p m)
  obtain a b where p: "p = (a, b)" by (cases p)
  show ?case
  proof (cases "a = k")
    case True
    with Cons.prems p have "k \<notin> fst ` set m" by (auto simp: gomap_ok_def)
    then have "AList.delete k m = m" by (induction m) auto
    with True p show ?thesis by simp
  next
    case False
    with Cons p show ?thesis by (simp add: gomap_ok_def)
  qed
qed

lemma map_of_map_values:
  "map_of (map (\<lambda>(k, v). (k, f k v)) m) k' = map_option (f k') (map_of m k')"
  by (induction m) auto

lemma gomap_ok_map_values [simp]:
  "gomap_ok (map (\<lambda>(k, v). (k, f k v)) m) = gomap_ok m"
  by (simp add: gomap_ok_def comp_def case_prod_unfold)

text \<open>
  \<open>for k, v := range src { if keep(k) { dst[k] = v } }\<close>: the loop both annotation
  copies are instances of. Its result does not depend on the order of the loop.
\<close>

fun copyRange :: "('k \<Rightarrow> bool) \<Rightarrow> ('k, 'v) gomap \<Rightarrow> ('k, 'v) gomap \<Rightarrow> ('k, 'v) gomap" where
  "copyRange keep [] dst = dst"
| "copyRange keep ((k, v) # src) dst =
     copyRange keep src (if keep k then AList.update k v dst else dst)"

lemma map_of_copyRange:
  "gomap_ok src \<Longrightarrow> map_of (copyRange keep src dst) k =
     (case map_of src k of
        Some v \<Rightarrow> if keep k then Some v else map_of dst k
      | None \<Rightarrow> map_of dst k)"
proof (induction keep src dst rule: copyRange.induct)
  case (1 keep dst)
  then show ?case by simp
next
  case (2 keep a b src dst)
  then have "map_of src a = None"
    by (auto simp: gomap_ok_def map_of_eq_None_iff)
  with 2 show ?case
    by (auto simp: gomap_ok_def split: option.splits)
qed

lemma gomap_ok_copyRange [simp, intro]: "gomap_ok dst \<Longrightarrow> gomap_ok (copyRange keep src dst)"
  by (induction keep src dst rule: copyRange.induct) auto

section \<open>64-bit integers\<close>

text \<open>An int64 result is the mathematical one wrapped into the two's complement range.\<close>

abbreviation minInt64 :: int where "minInt64 \<equiv> - (2 ^ 63)"
abbreviation maxInt64 :: int where "maxInt64 \<equiv> 2 ^ 63 - 1"

definition wrap64 :: "int \<Rightarrow> int" where
  "wrap64 x = (x + 2 ^ 63) mod 2 ^ 64 - 2 ^ 63"

definition int64 :: "int \<Rightarrow> bool" where
  "int64 x \<longleftrightarrow> minInt64 \<le> x \<and> x \<le> maxInt64"

text \<open>Integer division truncates toward zero.\<close>

definition quot :: "int \<Rightarrow> int \<Rightarrow> int" where
  "quot a b = sgn a * sgn b * (\<bar>a\<bar> div \<bar>b\<bar>)"

lemma wrap64_id [simp]: "int64 x \<Longrightarrow> wrap64 x = x"
  by (simp add: wrap64_def int64_def)

lemma wrap64_range: "int64 (wrap64 x)"
proof -
  have "0 \<le> (x + 2 ^ 63) mod 2 ^ 64" and "(x + 2 ^ 63) mod 2 ^ 64 < (2 ^ 64 :: int)"
    by simp_all
  then show ?thesis by (simp add: wrap64_def int64_def)
qed

lemma wrap64_wrap64_add: "wrap64 (wrap64 x + y) = wrap64 (x + y)"
proof -
  have "wrap64 x + y + 2 ^ 63 = (x + 2 ^ 63) mod 2 ^ 64 + y"
    by (simp add: wrap64_def)
  then have "wrap64 (wrap64 x + y) = ((x + 2 ^ 63) mod 2 ^ 64 + y) mod 2 ^ 64 - 2 ^ 63"
    by (simp add: wrap64_def)
  also have "\<dots> = (x + 2 ^ 63 + y) mod 2 ^ 64 - 2 ^ 63"
    by (simp only: mod_add_left_eq)
  also have "\<dots> = wrap64 (x + y)"
    by (simp add: wrap64_def algebra_simps)
  finally show ?thesis .
qed

lemma wrap64_minus: "wrap64 (x - 2 ^ 64) = wrap64 x"
proof -
  have "x - 2 ^ 64 + 2 ^ 63 = (x + 2 ^ 63) - (2 ^ 64 :: int)" by simp
  then show ?thesis unfolding wrap64_def by (simp only: minus_mod_self2)
qed

lemma quot_nonneg: "0 \<le> a \<Longrightarrow> 0 < b \<Longrightarrow> quot a b = a div b"
  by (cases "a = 0") (simp_all add: quot_def)

section \<open>Time\<close>

text \<open>
  A \<open>time.Time\<close> is its distance from the Unix epoch in nanoseconds, a
  \<open>time.Duration\<close> an int64 number of nanoseconds. The zero Time is 1 January of year 1.
  \<open>Sub\<close> saturates at the int64 range, as documented.
\<close>

type_synonym time = int
type_synonym duration = int

definition second :: duration where "second = 1000000000"
definition minute :: duration where "minute = 60 * second"

definition zeroTime :: time where "zeroTime = - 62135596800 * second"

definition unixTime :: "int \<Rightarrow> time" where "unixTime n = n * second"

definition isZeroTime :: "time \<Rightarrow> bool" where "isZeroTime t \<longleftrightarrow> t = zeroTime"

definition timeSub :: "time \<Rightarrow> time \<Rightarrow> duration" where
  "timeSub t u = max minInt64 (min maxInt64 (t - u))"

text \<open>Whole seconds since the epoch (\<open>Time.Unix()\<close>), rounding toward the past.\<close>

definition toUnix :: "time \<Rightarrow> int" where "toUnix t = t div second"

lemma timeSub_exact: "int64 (t - u) \<Longrightarrow> timeSub t u = t - u"
  by (simp add: timeSub_def int64_def)

lemma timeSub_less_iff: "minInt64 < d \<Longrightarrow> d \<le> maxInt64 \<Longrightarrow> timeSub t u < d \<longleftrightarrow> t - u < d"
  by (auto simp: timeSub_def)

lemma timeSub_pos: "u < t \<Longrightarrow> 0 < timeSub t u"
  by (simp add: timeSub_def)

section \<open>Strings\<close>

text \<open>A Go string is its list of bytes.\<close>

definition hasPrefix :: "string \<Rightarrow> string \<Rightarrow> bool" where
  "hasPrefix s p \<longleftrightarrow> take (length p) s = p"

definition cutPrefix :: "string \<Rightarrow> string \<Rightarrow> string option" where
  "cutPrefix s p = (if hasPrefix s p then Some (drop (length p) s) else None)"

definition trimPrefix :: "string \<Rightarrow> string \<Rightarrow> string" where
  "trimPrefix s p = (if hasPrefix s p then drop (length p) s else s)"

fun contains :: "string \<Rightarrow> string \<Rightarrow> bool" where
  "contains [] p = (p = [])"
| "contains (c # s) p = (hasPrefix (c # s) p \<or> contains s p)"

text \<open>\<open>strings.Cut\<close>: the text after the first occurrence of the separator.\<close>

fun cutAfter :: "string \<Rightarrow> string \<Rightarrow> string option" where
  "cutAfter [] sep = (if sep = [] then Some [] else None)"
| "cutAfter (c # s) sep =
     (if hasPrefix (c # s) sep then Some (drop (length sep) (c # s)) else cutAfter s sep)"

text \<open>\<open>strings.ReplaceAll\<close> of one byte by one byte.\<close>

definition replaceByte :: "char \<Rightarrow> char \<Rightarrow> string \<Rightarrow> string" where
  "replaceByte a b s = map (\<lambda>c. if c = a then b else c) s"

text \<open>The text after the last occurrence of a byte (\<open>strings.LastIndex\<close> and a slice).\<close>

definition afterLast :: "char \<Rightarrow> string \<Rightarrow> string option" where
  "afterLast c s = (if c \<in> set s then Some (rev (takeWhile (\<lambda>x. x \<noteq> c) (rev s))) else None)"

fun joinWith :: "string \<Rightarrow> string list \<Rightarrow> string" where
  "joinWith sep [] = ''''"
| "joinWith sep [x] = x"
| "joinWith sep (x # y # xs) = x @ sep @ joinWith sep (y # xs)"

text \<open>
  \<open>TrimSpace\<close> strips the Unicode white space: the ASCII bytes, and the UTF-8 sequences of
  U+0085, U+00A0, U+1680, U+2000 to U+200A, U+2028, U+2029, U+202F, U+205F and U+3000.
\<close>

definition spaceRunes :: "string list" where
  "spaceRunes =
     [[CHR '' ''], [CHR 0x09], [CHR 0x0A], [CHR 0x0B], [CHR 0x0C], [CHR 0x0D],
      [CHR 0xC2, CHR 0x85], [CHR 0xC2, CHR 0xA0], [CHR 0xE1, CHR 0x9A, CHR 0x80],
      [CHR 0xE2, CHR 0x80, CHR 0x80], [CHR 0xE2, CHR 0x80, CHR 0x81], [CHR 0xE2, CHR 0x80, CHR 0x82],
      [CHR 0xE2, CHR 0x80, CHR 0x83], [CHR 0xE2, CHR 0x80, CHR 0x84], [CHR 0xE2, CHR 0x80, CHR 0x85],
      [CHR 0xE2, CHR 0x80, CHR 0x86], [CHR 0xE2, CHR 0x80, CHR 0x87], [CHR 0xE2, CHR 0x80, CHR 0x88],
      [CHR 0xE2, CHR 0x80, CHR 0x89], [CHR 0xE2, CHR 0x80, CHR 0x8A], [CHR 0xE2, CHR 0x80, CHR 0xA8],
      [CHR 0xE2, CHR 0x80, CHR 0xA9], [CHR 0xE2, CHR 0x80, CHR 0xAF], [CHR 0xE2, CHR 0x81, CHR 0x9F],
      [CHR 0xE3, CHR 0x80, CHR 0x80]]"

definition spaceSize :: "string list \<Rightarrow> string \<Rightarrow> nat" where
  "spaceSize rs s = (case List.find (hasPrefix s) rs of None \<Rightarrow> 0 | Some r \<Rightarrow> length r)"

lemma spaceSize_drop: "spaceSize rs s \<noteq> 0 \<Longrightarrow> length (drop (spaceSize rs s) s) < length s"
proof -
  assume n: "spaceSize rs s \<noteq> 0"
  then have "s \<noteq> []" by (auto simp: spaceSize_def hasPrefix_def find_Some_iff split: option.splits)
  with n show ?thesis by simp
qed

function trimWith :: "string list \<Rightarrow> string \<Rightarrow> string" where
  "trimWith rs s = (if spaceSize rs s = 0 then s else trimWith rs (drop (spaceSize rs s) s))"
  by pat_completeness auto
termination by (relation "measure (\<lambda>(rs, s). length s)") (use spaceSize_drop in auto)

declare trimWith.simps [simp del]

definition trimSpace :: "string \<Rightarrow> string" where
  "trimSpace s = rev (trimWith (map rev spaceRunes) (rev (trimWith spaceRunes s)))"

lemma hasPrefix_prefix: "hasPrefix s p \<longleftrightarrow> prefix p s"
  by (auto simp: hasPrefix_def prefix_def append_eq_conv_conj)
    (metis append_take_drop_id)

lemma hasPrefix_append [simp]: "hasPrefix (p @ s) p"
  by (simp add: hasPrefix_def)

lemma cutPrefix_append [simp, go_simps]: "cutPrefix (p @ s) p = Some s"
  by (simp add: cutPrefix_def)

lemma trimPrefix_append [simp, go_simps]: "trimPrefix (p @ s) p = s"
  by (simp add: trimPrefix_def)

lemma cutPrefix_Some_iff: "cutPrefix s p = Some r \<longleftrightarrow> s = p @ r"
  by (auto simp: cutPrefix_def hasPrefix_def) (metis append_take_drop_id)

lemma contains_sublist: "contains s p \<longleftrightarrow> sublist p s"
proof (induction s)
  case Nil
  then show ?case by simp
next
  case (Cons c s)
  then show ?case by (simp add: hasPrefix_prefix sublist_Cons_right)
qed

lemma cutAfter_split: "cutAfter s sep = Some r \<Longrightarrow> \<exists>b. s = b @ sep @ r"
proof (induction s)
  case Nil
  then show ?case by (simp split: if_splits)
next
  case (Cons c s)
  show ?case
  proof (cases "hasPrefix (c # s) sep")
    case True
    with Cons.prems have "r = drop (length sep) (c # s)" by simp
    with True have "c # s = sep @ r"
      by (metis append_take_drop_id hasPrefix_def)
    then show ?thesis by (metis append_Nil)
  next
    case False
    with Cons obtain b where "s = b @ sep @ r" by auto
    then show ?thesis by (metis append_Cons)
  qed
qed

section \<open>Decimal and hexadecimal numbers\<close>

text \<open>Lower-case hexadecimal digits.\<close>

definition hexDigit :: "nat \<Rightarrow> char" where
  "hexDigit d = (if d < 10 then char_of (48 + d) else char_of (87 + d))"

definition isHex :: "char \<Rightarrow> bool" where
  "isHex c \<longleftrightarrow> (let n = (of_char c :: nat) in (48 \<le> n \<and> n \<le> 57) \<or> (97 \<le> n \<and> n \<le> 102))"

definition hexVal :: "char \<Rightarrow> nat option" where
  "hexVal c =
     (let n = (of_char c :: nat)
      in if 48 \<le> n \<and> n \<le> 57 then Some (n - 48)
         else if 97 \<le> n \<and> n \<le> 102 then Some (n - 87)
         else if 65 \<le> n \<and> n \<le> 70 then Some (n - 55)
         else None)"

lemma isHex_hexDigit: "d < 16 \<Longrightarrow> isHex (hexDigit d)"
  by (auto simp: isHex_def hexDigit_def Let_def)

definition digitChar :: "nat \<Rightarrow> char" where
  "digitChar d = char_of (48 + d)"

fun natDec :: "nat \<Rightarrow> string" where
  "natDec n = (if n < 10 then [digitChar n] else natDec (n div 10) @ [digitChar (n mod 10)])"

declare natDec.simps [simp del]

definition formatInt :: "int \<Rightarrow> string" where
  "formatInt i = (if i < 0 then CHR ''-'' # natDec (nat (- i)) else natDec (nat i))"

definition digitVal :: "char \<Rightarrow> nat option" where
  "digitVal c = (let n = of_char c in if 48 \<le> n \<and> n \<le> (57::nat) then Some (n - 48) else None)"

fun parseDigits :: "nat \<Rightarrow> string \<Rightarrow> nat option" where
  "parseDigits acc [] = Some acc"
| "parseDigits acc (c # s) =
     (case digitVal c of None \<Rightarrow> None | Some d \<Rightarrow> parseDigits (10 * acc + d) s)"

text \<open>
  \<open>strconv.ParseInt(s, 10, 64)\<close>: an optional sign, at least one digit, no other
  byte, and a value in the int64 range; every other input is an error.
\<close>

definition parseInt :: "string \<Rightarrow> int option" where
  "parseInt s =
     (let (neg, ds) =
        (case s of [] \<Rightarrow> (False, [])
         | c # r \<Rightarrow> if c = CHR ''-'' then (True, r) else if c = CHR ''+'' then (False, r) else (False, s))
      in if ds = [] then None
         else (case parseDigits 0 ds of None \<Rightarrow> None
               | Some n \<Rightarrow>
                   (let v = (if neg then - int n else int n)
                    in if int64 v then Some v else None)))"

lemma digitVal_digitChar [simp]: "d < 10 \<Longrightarrow> digitVal (digitChar d) = Some d"
  by (simp add: digitVal_def digitChar_def)

lemma parseDigits_append:
  "parseDigits acc (s @ t) =
     (case parseDigits acc s of None \<Rightarrow> None | Some a \<Rightarrow> parseDigits a t)"
  by (induction s arbitrary: acc) (auto split: option.splits)

lemma natDec_nonempty [simp]: "natDec n \<noteq> []"
  by (subst natDec.simps) simp

lemma parseDigits_natDec [simp]: "parseDigits 0 (natDec n) = Some n"
proof (induction n rule: natDec.induct)
  case (1 n)
  show ?case
  proof (cases "n < 10")
    case True
    then show ?thesis by (simp add: natDec.simps [of n])
  next
    case False
    with 1 show ?thesis
      by (simp add: natDec.simps [of n] parseDigits_append)
  qed
qed

lemma natDec_digits: "c \<in> set (natDec n) \<Longrightarrow> \<exists>d<10. c = digitChar d"
proof (induction n rule: natDec.induct)
  case (1 n)
  show ?case
  proof (cases "n < 10 \<or> c \<in> set (natDec (n div 10))")
    case True
    with 1 show ?thesis by (cases "n < 10") (auto simp: natDec.simps [of n])
  next
    case False
    with "1.prems" have "c = digitChar (n mod 10)" by (simp add: natDec.simps [of n])
    then show ?thesis by (intro exI [of _ "n mod 10"]) simp
  qed
qed

lemma digitChar_less_10: "d < 10 \<Longrightarrow> d \<in> {0, 1, 2, 3, 4, 5, 6, 7, 8, 9 :: nat}"
  by auto

text \<open>The first and the last bytes of the white space sequences.\<close>

definition isSpace :: "char \<Rightarrow> bool" where
  "isSpace c \<longleftrightarrow> c \<in> set (map hd spaceRunes) \<union> set (map last spaceRunes)"

lemma digitChar_plain:
  assumes "d < 10"
  shows "digitChar d \<notin> {CHR ''-'', CHR ''+'', CHR ''.'', CHR ''/'', CHR 0x0A} \<and> \<not> isSpace (digitChar d)"
  using digitChar_less_10 [OF assms] by (auto simp: digitChar_def isSpace_def spaceRunes_def char_of_def)

lemma natDec_plain:
  "c \<in> set (natDec n) \<Longrightarrow> c \<noteq> CHR ''-'' \<and> c \<noteq> CHR ''+'' \<and> c \<noteq> CHR ''.'' \<and> c \<noteq> CHR ''/'' \<and> \<not> isSpace c"
  using natDec_digits [of c n] digitChar_plain by auto

text \<open>Printing an int64 and parsing it back gives the number.\<close>

lemma parseInt_natDec: "int64 (int n) \<Longrightarrow> parseInt (natDec n) = Some (int n)"
proof -
  assume n: "int64 (int n)"
  obtain c r where cr: "natDec n = c # r"
    by (cases "natDec n") auto
  then have "c \<noteq> CHR ''-''" and "c \<noteq> CHR ''+''"
    using natDec_plain [of c n] by auto
  with cr n show ?thesis
    using parseDigits_natDec [of n] by (simp add: parseInt_def)
qed

lemma parseInt_formatInt [simp]: "int64 i \<Longrightarrow> parseInt (formatInt i) = Some i"
proof (cases "i < 0")
  case True
  assume "int64 i"
  with True show ?thesis by (simp add: formatInt_def parseInt_def)
next
  case False
  assume "int64 i"
  with False show ?thesis using parseInt_natDec [of "nat i"] by (simp add: formatInt_def)
qed

lemma int64_zero [simp]: "int64 0"
  by (simp add: int64_def)

lemma parseInt_int64: "parseInt s = Some n \<Longrightarrow> int64 n"
  by (auto simp: parseInt_def Let_def split: list.splits if_splits option.splits)

lemma minus_no_space: "\<not> isSpace (CHR ''-'')"
  by (simp add: isSpace_def spaceRunes_def)

lemma formatInt_no_space: "c \<in> set (formatInt i) \<Longrightarrow> \<not> isSpace c"
  using natDec_plain minus_no_space by (auto simp: formatInt_def split: if_splits)

lemma trimWith_id:
  assumes "\<And>r. r \<in> set rs \<Longrightarrow> r \<noteq> [] \<and> hd r \<notin> set s"
  shows "trimWith rs s = s"
proof -
  have "\<not> hasPrefix s r" if "r \<in> set rs" for r
    using assms [OF that] by (cases r; cases s) (auto simp: hasPrefix_def)
  then have "List.find (hasPrefix s) rs = None" by (simp add: find_None_iff)
  then show ?thesis by (simp add: trimWith.simps [of rs s] spaceSize_def)
qed

lemma spaceRunes_nonempty: "r \<in> set spaceRunes \<Longrightarrow> r \<noteq> []"
  by (auto simp: spaceRunes_def)

lemma trimSpace_no_space:
  assumes "\<And>c. c \<in> set s \<Longrightarrow> \<not> isSpace c"
  shows "trimSpace s = s"
proof -
  have "trimWith spaceRunes s = s"
    using assms spaceRunes_nonempty by (intro trimWith_id) (force simp: isSpace_def)
  moreover have "trimWith (map rev spaceRunes) (rev s) = rev s"
    using assms spaceRunes_nonempty by (intro trimWith_id) (force simp: isSpace_def hd_rev)
  ultimately show ?thesis by (simp add: trimSpace_def)
qed

lemma trimSpace_formatInt [simp]: "trimSpace (formatInt i) = formatInt i"
  by (rule trimSpace_no_space) (rule formatInt_no_space)

text \<open>A byte that is in no space character survives the trimming.\<close>

lemma trimWith_keeps: "\<forall>r\<in>set rs. c \<notin> set r \<Longrightarrow> c \<in> set s \<Longrightarrow> c \<in> set (trimWith rs s)"
proof (induction rs s rule: trimWith.induct)
  case (1 rs s)
  show ?case
  proof (cases "spaceSize rs s = 0")
    case True
    then show ?thesis using "1.prems" by (simp add: trimWith.simps [of rs s])
  next
    case False
    then obtain r where r: "r \<in> set rs" "hasPrefix s r" "spaceSize rs s = length r"
      by (auto simp: spaceSize_def find_Some_iff intro: nth_mem split: option.splits)
    then have "s = r @ drop (spaceSize rs s) s" by (metis hasPrefix_def append_take_drop_id)
    then have "c \<in> set (drop (spaceSize rs s) s)" using "1.prems" r(1) by (metis UnE set_append)
    then show ?thesis using "1.IH" [OF False "1.prems"(1)] False by (simp add: trimWith.simps [of rs s])
  qed
qed

lemma trimSpace_keeps: "\<forall>r\<in>set spaceRunes. c \<notin> set r \<Longrightarrow> c \<in> set s \<Longrightarrow> c \<in> set (trimSpace s)"
  by (simp add: trimSpace_def trimWith_keeps)

lemma fold_update_distinct:
  "distinct (map fst (m @ kvs)) \<Longrightarrow> fold (\<lambda>(k, v). AList.update k v) kvs m = m @ kvs"
proof (induction kvs arbitrary: m)
  case (Cons kv kvs)
  obtain k v where kv: "kv = (k, v)" by (cases kv)
  have "k \<notin> fst ` set m" using Cons.prems kv by auto
  then have "AList.update k v m = m @ [(k, v)]" by (induction m) auto
  then show ?case using Cons kv by simp
qed simp

end
