(* ===== verification/Go_Time.thy ===== *)
theory Go_Time
  imports Go_Base
begin

text \<open>
  The two operations of package time that put an instant on the wire: \<open>time.Parse\<close> with the
  layout RFC3339Nano and \<open>Time.Format\<close> with RFC3339 and RFC3339Nano in UTC, over the proleptic
  Gregorian calendar. The main result is that parsing inverts formatting, which makes the
  printed form of an instant injective.
\<close>

section \<open>The calendar\<close>

definition isLeap :: "int \<Rightarrow> bool" where
  "isLeap y \<longleftrightarrow> y mod 4 = 0 \<and> (y mod 100 \<noteq> 0 \<or> y mod 400 = 0)"

definition daysIn :: "int \<Rightarrow> nat \<Rightarrow> int" where
  "daysIn y m =
     (if m = 2 then (if isLeap y then 29 else 28)
      else if m \<in> {4, 6, 9, 11} then 30 else 31)"

text \<open>Days from 1 January of year 1 to 1 January of year \<open>y + 1\<close>.\<close>

definition daysBeforeYear :: "int \<Rightarrow> int" where
  "daysBeforeYear y = 365 * y + y div 4 - y div 100 + y div 400"

fun daysBeforeMonth :: "int \<Rightarrow> nat \<Rightarrow> int" where
  "daysBeforeMonth y 0 = 0"
| "daysBeforeMonth y (Suc m) = (if m = 0 then 0 else daysBeforeMonth y m + daysIn y m)"

text \<open>Days from 1 January of year 1 to 1 January 1970.\<close>

definition epochDays :: int where "epochDays = 719162"

definition dateDays :: "int \<Rightarrow> nat \<Rightarrow> int \<Rightarrow> int" where
  "dateDays y m d = daysBeforeYear (y - 1) + daysBeforeMonth y m + (d - 1) - epochDays"

text \<open>The inverse: the year and the day of the year, then the month and the day.\<close>

definition yearOf :: "int \<Rightarrow> int \<times> int" where
  "yearOf n =
     (let a = n div 146097; r = n mod 146097;
          b = min 3 (r div 36524); r2 = r - 36524 * b;
          c = r2 div 1461; r3 = r2 - 1461 * c;
          e = min 3 (r3 div 365)
      in (400 * a + 100 * b + 4 * c + e + 1, r3 - 365 * e))"

fun monthOf :: "int \<Rightarrow> int \<Rightarrow> nat list \<Rightarrow> nat \<times> int" where
  "monthOf y yday [] = (12, yday)"
| "monthOf y yday (m # ms) =
     (if yday < daysIn y m then (m, yday) else monthOf y (yday - daysIn y m) ms)"

definition civil :: "int \<Rightarrow> int \<times> nat \<times> int" where
  "civil n =
     (let (y, yday) = yearOf (n + epochDays);
          (m, d) = monthOf y yday [1..<12]
      in (y, m, d + 1))"

section \<open>Format\<close>

definition appendInt :: "int \<Rightarrow> nat \<Rightarrow> string" where
  "appendInt n w =
     (let ds = natDec (nat \<bar>n\<bar>)
      in (if n < 0 then ''-'' else '''') @ replicate (w - length ds) (CHR ''0'') @ ds)"

definition formatFrac9 :: "int \<Rightarrow> string" where
  "formatFrac9 nsec =
     (let ds = rev (dropWhile (\<lambda>c. c = CHR ''0'') (rev (appendInt nsec 9)))
      in if ds = [] then '''' else CHR ''.'' # ds)"

definition formatSeconds :: "time \<Rightarrow> string" where
  "formatSeconds t =
     (let secs = t div second; day = secs div 86400; sod = secs mod 86400;
          (y, m, d) = civil day
      in appendInt y 4 @ ''-'' @ appendInt (int m) 2 @ ''-'' @ appendInt d 2 @ ''T'' @
         appendInt (sod div 3600) 2 @ '':'' @ appendInt (sod mod 3600 div 60) 2 @ '':'' @
         appendInt (sod mod 60) 2)"

definition formatRFC3339 :: "time \<Rightarrow> string" where
  "formatRFC3339 t = formatSeconds t @ ''Z''"

definition formatRFC3339Nano :: "time \<Rightarrow> string" where
  "formatRFC3339Nano t = formatSeconds t @ formatFrac9 (t mod second) @ ''Z''"

section \<open>Parse\<close>

text \<open>\<open>getnum\<close>: two digits, or one where the layout does not fix the width.\<close>

fun getnum :: "bool \<Rightarrow> string \<Rightarrow> (int \<times> string) option" where
  "getnum fixed [] = None"
| "getnum fixed [c] =
     (case digitVal c of None \<Rightarrow> None | Some a \<Rightarrow> if fixed then None else Some (int a, []))"
| "getnum fixed (c # d # s) =
     (case digitVal c of None \<Rightarrow> None
      | Some a \<Rightarrow>
         (case digitVal d of
            None \<Rightarrow> if fixed then None else Some (int a, d # s)
          | Some b \<Rightarrow> Some (int (10 * a + b), s)))"

fun getyear :: "string \<Rightarrow> (int \<times> string) option" where
  "getyear (a # b # c # d # s) =
     (case parseDigits 0 [a, b, c, d] of None \<Rightarrow> None | Some n \<Rightarrow> Some (int n, s))"
| "getyear _ = None"

fun skipByte :: "char \<Rightarrow> string \<Rightarrow> string option" where
  "skipByte c [] = None"
| "skipByte c (d # s) = (if c = d then Some s else None)"

definition isDigit :: "char \<Rightarrow> bool" where "isDigit c \<longleftrightarrow> digitVal c \<noteq> None"

text \<open>
  The fraction is a period or a comma and at least one digit; only the first nine digits
  count. Anything else leaves the fraction out.
\<close>

definition getFrac :: "string \<Rightarrow> int \<times> string" where
  "getFrac s =
     (case s of
        p # c # r \<Rightarrow>
          if (p = CHR ''.'' \<or> p = CHR '','') \<and> isDigit c
          then (let ds = takeWhile isDigit (c # r); k = take 9 ds
                in (case parseDigits 0 k of
                      None \<Rightarrow> (0, s)
                    | Some n \<Rightarrow> (int n * 10 ^ (9 - length k), dropWhile isDigit (c # r))))
          else (0, s)
      | _ \<Rightarrow> (0, s))"

text \<open>The zone: Z, or a sign, hours up to 24, a colon and minutes up to 60.\<close>

definition getZone :: "string \<Rightarrow> (int \<times> string) option" where
  "getZone s =
     (case s of
        [] \<Rightarrow> None
      | z # r \<Rightarrow>
          if z = CHR ''Z'' then Some (0, r)
          else if z = CHR ''+'' \<or> z = CHR ''-'' then
            Option.bind (getnum True r) (\<lambda>(hh, r1).
            Option.bind (skipByte (CHR '':'') r1) (\<lambda>r2.
            Option.bind (getnum True r2) (\<lambda>(mm, r3).
            if hh > 24 \<or> mm > 60 then None
            else Some ((if z = CHR ''-'' then -1 else 1) * (hh * 3600 + mm * 60), r3))))
          else None)"

definition parseRFC3339Nano :: "string \<Rightarrow> time option" where
  "parseRFC3339Nano s =
     Option.bind (getyear s) (\<lambda>(y, s1).
     Option.bind (skipByte (CHR ''-'') s1) (\<lambda>s2.
     Option.bind (getnum True s2) (\<lambda>(mo, s3).
     if mo < 1 \<or> 12 < mo then None else
     Option.bind (skipByte (CHR ''-'') s3) (\<lambda>s4.
     Option.bind (getnum True s4) (\<lambda>(d, s5).
     Option.bind (skipByte (CHR ''T'') s5) (\<lambda>s6.
     Option.bind (getnum False s6) (\<lambda>(hh, s7).
     if 24 \<le> hh then None else
     Option.bind (skipByte (CHR '':'') s7) (\<lambda>s8.
     Option.bind (getnum True s8) (\<lambda>(mi, s9).
     if 60 \<le> mi then None else
     Option.bind (skipByte (CHR '':'') s9) (\<lambda>s10.
     Option.bind (getnum True s10) (\<lambda>(ss, s11).
     if 60 \<le> ss then None else
     (let (nsec, s12) = getFrac s11 in
     Option.bind (getZone s12) (\<lambda>(off, s13).
     if s13 \<noteq> [] \<or> d < 1 \<or> daysIn y (nat mo) < d then None
     else Some ((dateDays y (nat mo) d * 86400 + hh * 3600 + mi * 60 + ss - off) * second + nsec))))))))))))))"

section \<open>What the proofs speak about\<close>

text \<open>The decimal digits of \<open>n\<close>, exactly \<open>w\<close> of them.\<close>

fun fixedDigits :: "nat \<Rightarrow> nat \<Rightarrow> string" where
  "fixedDigits 0 n = []"
| "fixedDigits (Suc w) n = fixedDigits w (n div 10) @ [digitChar (n mod 10)]"

text \<open>The instants whose year has four digits: 0000 to 9999.\<close>

definition wireTime :: "time \<Rightarrow> bool" where
  "wireTime t \<longleftrightarrow> - 62167219200 * second \<le> t \<and> t < 253402300800 * second"

section \<open>The calendar is a bijection\<close>

lemma daysBeforeYear_split:
  assumes "0 \<le> b" "b \<le> 3" "0 \<le> c" "c \<le> 24" "0 \<le> e" "e \<le> 3"
  shows "daysBeforeYear (400 * a + 100 * b + 4 * c + e) = 146097 * a + 36524 * b + 1461 * c + 365 * e"
proof -
  have "(400 * a + 100 * b + 4 * c + e) div 4 = 100 * a + 25 * b + c"
    using assms by (intro int_div_pos_eq [where r = e]) auto
  moreover have "(400 * a + 100 * b + 4 * c + e) div 100 = 4 * a + b"
    using assms by (intro int_div_pos_eq [where r = "4 * c + e"]) auto
  moreover have "(400 * a + 100 * b + 4 * c + e) div 400 = a"
    using assms by (intro int_div_pos_eq [where r = "100 * b + 4 * c + e"]) auto
  ultimately show ?thesis by (simp add: daysBeforeYear_def)
qed

lemma leap_last_day:
  assumes "y = 4 * (100 * a + 25 * b + c + 1)" "c = 24 \<longrightarrow> b = 3" "0 \<le> c" "c \<le> 24"
  shows "isLeap (y :: int)"
proof -
  have "y mod 400 = 0" if "y mod 100 = 0"
  proof -
    from that obtain k where "y = 100 * k" by (metis dvd_def mod_0_imp_dvd)
    define j where "j = k - 4 * a - b"
    have cj: "c + 1 = 25 * j" using \<open>y = 100 * k\<close> assms(1) by (simp add: j_def)
    with assms(3,4) have "0 < j" "j \<le> 1" by linarith+
    then have "c = 24" using cj by simp
    with assms(1,2) show ?thesis by simp
  qed
  with assms(1) show ?thesis by (auto simp: isLeap_def)
qed

lemma div_bounds:
  fixes x k :: int
  assumes "0 < k"
  shows "k * (x div k) \<le> x" "x < k * (x div k) + k"
  using assms pos_mod_bound [of k x] pos_mod_sign [of k x] mult_div_mod_eq [of k x] by linarith+

lemma yearOf_spec:
  assumes "yearOf n = (y, yd)"
  shows "daysBeforeYear (y - 1) + yd = n \<and> 0 \<le> yd \<and> yd < (if isLeap y then 366 else 365)"
proof -
  define a r where "a = n div 146097" and "r = n mod 146097"
  define b where "b = min 3 (r div 36524)"
  define r2 where "r2 = r - 36524 * b"
  define c where "c = r2 div 1461"
  define r3 where "r3 = r2 - 1461 * c"
  define e where "e = min 3 (r3 div 365)"
  have n: "n = 146097 * a + r" and r: "0 \<le> r" "r < 146097"
    by (simp_all add: a_def r_def)
  have y: "y = 400 * a + 100 * b + 4 * c + e + 1" and yd: "yd = r3 - 365 * e"
    using assms unfolding yearOf_def Let_def
    unfolding a_def [symmetric] r_def [symmetric] unfolding b_def [symmetric]
    unfolding r2_def [symmetric] unfolding c_def [symmetric] unfolding r3_def [symmetric]
    unfolding e_def [symmetric] by simp_all
  have q: "36524 * (r div 36524) \<le> r" "r < 36524 * (r div 36524) + 36524"
    by (rule div_bounds, simp)+
  have b: "0 \<le> b" "b \<le> 3" and r2: "0 \<le> r2" "r2 \<le> 36524" "r2 = 36524 \<longrightarrow> b = 3"
    using r q unfolding b_def r2_def min_def by (linarith | simp)+
  have r3: "0 \<le> r3" "r3 < 1461"
    unfolding r3_def c_def using div_bounds [of 1461 r2] by linarith+
  with r2 have c: "0 \<le> c" "c \<le> 24" and cb: "r3 = 1460 \<longrightarrow> c = 24 \<longrightarrow> b = 3"
    unfolding r3_def by linarith+
  have q3: "365 * (r3 div 365) \<le> r3" "r3 < 365 * (r3 div 365) + 365"
    by (rule div_bounds, simp)+
  have e: "0 \<le> e" "e \<le> 3" and yd': "0 \<le> yd" "yd \<le> 365" "yd = 365 \<longrightarrow> r3 = 1460 \<and> e = 3"
    using r3 q3 unfolding e_def yd min_def by (linarith | simp)+
  have "isLeap y" if "yd = 365"
    using that yd' cb y c by (intro leap_last_day [where a = a and b = b and c = c]) auto
  moreover have "daysBeforeYear (y - 1) = 146097 * a + 36524 * b + 1461 * c + 365 * e"
    using daysBeforeYear_split [OF b c e, of a] y by simp
  ultimately show ?thesis
    using n yd yd' by (auto simp: r2_def r3_def)
qed

lemma daysBeforeMonth_12: "daysBeforeMonth y 12 + 31 = (if isLeap y then 366 else 365)"
  by (simp add: eval_nat_numeral) (simp add: daysIn_def)

lemma monthOf_spec:
  assumes "monthOf y yd [k..<12] = (m, d)" "1 \<le> k" "k \<le> 12" "0 \<le> yd"
    and "daysBeforeMonth y k + yd < (if isLeap y then 366 else 365)"
  shows "daysBeforeMonth y m + d = daysBeforeMonth y k + yd \<and> k \<le> m \<and> m \<le> 12 \<and> 0 \<le> d \<and> d < daysIn y m"
  using assms
proof (induction "12 - k" arbitrary: k yd)
  case 0
  then have "k = 12" by simp
  with 0 show ?case using daysBeforeMonth_12 [of y] by (auto simp: daysIn_def)
next
  case (Suc j)
  then have k: "[k..<12] = k # [Suc k..<12]" by (simp add: upt_rec)
  show ?case
  proof (cases "yd < daysIn y k")
    case True
    with Suc.prems k show ?thesis by auto
  next
    case False
    with Suc.prems k have "monthOf y (yd - daysIn y k) [Suc k..<12] = (m, d)" by simp
    moreover have "j = 12 - Suc k" "Suc k \<le> 12" using Suc.hyps(2) by auto
    ultimately have "daysBeforeMonth y m + d = daysBeforeMonth y (Suc k) + (yd - daysIn y k) \<and>
      Suc k \<le> m \<and> m \<le> 12 \<and> 0 \<le> d \<and> d < daysIn y m"
      using Suc.prems False by (intro Suc.hyps(1)) auto
    with Suc.prems(2) show ?thesis by auto
  qed
qed

lemma civil_spec:
  assumes "civil n = (y, m, d)"
  shows "dateDays y m d = n \<and> 1 \<le> m \<and> m \<le> 12 \<and> 1 \<le> d \<and> d \<le> daysIn y m"
proof -
  obtain y' yd where y: "yearOf (n + epochDays) = (y', yd)" by fastforce
  obtain m' d' where m: "monthOf y' yd [1..<12] = (m', d')" by fastforce
  have eq: "y = y'" "m = m'" "d = d' + 1"
    using assms y m by (simp_all add: civil_def)
  show ?thesis
    using yearOf_spec [OF y] monthOf_spec [OF m] eq by (auto simp: dateDays_def)
qed

lemma daysBeforeYear_bounds:
  "10000 \<le> y \<Longrightarrow> 3652059 \<le> daysBeforeYear (y - 1)"
  "y < - 1 \<Longrightarrow> daysBeforeYear (y - 1) < - 732"
proof -
  have mono: "daysBeforeYear y \<le> daysBeforeYear z" if "y \<le> z" for y z
  proof -
    have "y div 4 \<le> z div 4" "y div 400 \<le> z div 400" using that by (auto intro: zdiv_mono1)
    moreover have "z div 100 \<le> (y + (z - y) * 100) div 100" using that by (intro zdiv_mono1) auto
    then have "z div 100 \<le> y div 100 + (z - y)" by simp
    ultimately show ?thesis using that by (simp add: daysBeforeYear_def)
  qed
  show "10000 \<le> y \<Longrightarrow> 3652059 \<le> daysBeforeYear (y - 1)"
    using mono [of 9999 "y - 1"] by (simp add: daysBeforeYear_def)
  show "y < - 1 \<Longrightarrow> daysBeforeYear (y - 1) < - 732"
    using mono [of "y - 1" "- 3"] by (simp add: daysBeforeYear_def)
qed

lemma civil_year_range:
  assumes "civil n = (y, m, d)" "- 719528 \<le> n" "n < 2932897"
  shows "0 \<le> y \<and> y < 10000"
proof -
  obtain yd where y: "yearOf (n + epochDays) = (y, yd)"
    using assms(1) by (auto simp: civil_def split: prod.splits)
  have "daysBeforeYear (y - 1) + yd = n + 719162" "0 \<le> yd" "yd < 366"
    using yearOf_spec [OF y] by (auto simp: epochDays_def split: if_splits)
  with assms(2,3) have "\<not> 3652059 \<le> daysBeforeYear (y - 1)" "\<not> daysBeforeYear (y - 1) < - 732"
    by auto
  then have "- 1 \<le> y" "y < 10000" using daysBeforeYear_bounds [of y] by linarith+
  moreover have "y \<noteq> - 1"
    using yearOf_spec [OF y] assms(2) by (auto simp: epochDays_def daysBeforeYear_def isLeap_def)
  ultimately show ?thesis by simp
qed


section \<open>Parsing inverts formatting\<close>

lemma natDec_less_10: "n < 10 \<Longrightarrow> natDec n = [digitChar n]"
  by (simp add: natDec.simps [of n])

lemma natDec_ge_10: "10 \<le> n \<Longrightarrow> natDec n = natDec (n div 10) @ [digitChar (n mod 10)]"
  by (simp add: natDec.simps [of n])

lemma digitChar_0 [simp]: "digitChar 0 = CHR ''0''"
  by code_simp

lemma fixedDigits_zero: "fixedDigits w 0 = replicate w (CHR ''0'')"
  by (induction w) (simp_all flip: replicate_append_same)

lemma fixedDigits_natDec:
  "n < 10 ^ Suc w \<Longrightarrow>
     replicate (Suc w - length (natDec n)) (CHR ''0'') @ natDec n = fixedDigits (Suc w) n"
proof (induction w arbitrary: n)
  case 0
  then show ?case by (simp add: natDec_less_10)
next
  case (Suc w)
  show ?case
  proof (cases "n < 10")
    case True
    then show ?thesis
      using fixedDigits_zero [of "Suc w"] by (simp add: natDec_less_10)
  next
    case False
    with Suc have "replicate (Suc w - length (natDec (n div 10))) (CHR ''0'') @ natDec (n div 10)
        = fixedDigits (Suc w) (n div 10)"
      by (intro Suc.IH) auto
    with False show ?thesis by (simp add: natDec_ge_10)
  qed
qed

lemma appendInt_fixed:
  "0 \<le> n \<Longrightarrow> n < 10 ^ Suc w \<Longrightarrow> appendInt n (Suc w) = fixedDigits (Suc w) (nat n)"
  using fixedDigits_natDec [of "nat n" w]
  by (simp add: appendInt_def Let_def nat_less_iff)

lemma parseDigits_fixed:
  "n < 10 ^ w \<Longrightarrow> parseDigits acc (fixedDigits w n) = Some (acc * 10 ^ w + n)"
proof (induction w arbitrary: n)
  case 0
  then show ?case by simp
next
  case (Suc w)
  then have "parseDigits acc (fixedDigits w (n div 10)) = Some (acc * 10 ^ w + n div 10)"
    by (intro Suc.IH) auto
  then show ?case by (simp add: parseDigits_append algebra_simps)
qed

lemma getnum_appendInt [simp]:
  assumes "0 \<le> n" "n < 100"
  shows "getnum f (appendInt n 2 @ s) = Some (n, s)"
proof -
  have "appendInt n 2 = [digitChar (nat n div 10), digitChar (nat n mod 10)]"
    using appendInt_fixed [of n 1] assms by (simp add: numeral_2_eq_2)
  with assms show ?thesis by simp
qed

lemma getyear_appendInt [simp]:
  assumes "0 \<le> y" "y < 10000"
  shows "getyear (appendInt y 4 @ s) = Some (y, s)"
proof -
  have four: "4 = Suc (Suc (Suc (Suc 0)))" by simp
  have e: "appendInt y 4 = fixedDigits (Suc (Suc (Suc (Suc 0)))) (nat y)"
    unfolding four by (rule appendInt_fixed) (use assms in simp_all)
  have "parseDigits 0 (appendInt y 4) = Some (nat y)"
    unfolding e using parseDigits_fixed [of "nat y" "Suc (Suc (Suc (Suc 0)))" 0] assms
    by (simp add: nat_less_iff del: parseDigits.simps fixedDigits.simps)
  with e assms show ?thesis by simp
qed


lemma fixedDigits_digits: "c \<in> set (fixedDigits w n) \<Longrightarrow> isDigit c"
  by (induction w arbitrary: n) (auto simp: isDigit_def)

lemma length_fixedDigits [simp]: "length (fixedDigits w n) = w"
  by (induction w arbitrary: n) auto

lemma fixedDigits_last_zeros:
  obtains k z where "fixedDigits w n = k @ replicate z (CHR ''0'')"
    "rev (dropWhile (\<lambda>c. c = CHR ''0'') (rev (fixedDigits w n))) = k"
proof -
  let ?r = "rev (fixedDigits w n)"
  let ?p = "\<lambda>c. c = CHR ''0''"
  have "fixedDigits w n = rev (dropWhile ?p ?r) @ rev (takeWhile ?p ?r)"
    by (metis rev_append rev_rev_ident takeWhile_dropWhile_id)
  moreover have "rev (takeWhile ?p ?r) = replicate (length (takeWhile ?p ?r)) (CHR ''0'')"
    by (rule replicate_eqI) (auto dest: set_takeWhileD)
  ultimately show ?thesis
    by (intro that [where k = "rev (dropWhile ?p ?r)" and z = "length (takeWhile ?p ?r)"]) auto
qed

lemma parseDigits_zeros: "parseDigits acc (replicate z (CHR ''0'')) = Some (acc * 10 ^ z)"
proof -
  have "digitVal (CHR ''0'') = Some 0" by code_simp
  then show ?thesis by (induction z arbitrary: acc) (auto simp: algebra_simps)
qed

lemma getFrac_formatFrac9:
  assumes "0 \<le> nsec" "nsec < second"
  shows "getFrac (formatFrac9 nsec @ ''Z'') = (nsec, ''Z'')"
proof -
  have bound: "nat nsec < 10 ^ 9" using assms by (simp add: second_def nat_less_iff)
  have fix9: "appendInt nsec 9 = fixedDigits 9 (nat nsec)"
    using appendInt_fixed [of nsec 8] assms by (simp add: second_def)
  obtain k z where k: "fixedDigits 9 (nat nsec) = k @ replicate z (CHR ''0'')"
    and kr: "rev (dropWhile (\<lambda>c. c = CHR ''0'') (rev (fixedDigits 9 (nat nsec)))) = k"
    using fixedDigits_last_zeros by blast
  have len: "length k + z = 9" using k length_fixedDigits [of 9 "nat nsec"] by simp
  have dig: "isDigit c" if "c \<in> set k" for c
    using fixedDigits_digits [of c 9 "nat nsec"] k that by simp
  obtain v where v: "parseDigits 0 k = Some v" "v * 10 ^ z = nat nsec"
    using parseDigits_fixed [OF bound, of 0] k
    by (auto simp: parseDigits_append parseDigits_zeros split: option.splits)
  show ?thesis
  proof (cases k)
    case Nil
    with v have "nsec = 0" using assms by simp
    with Nil kr fix9 show ?thesis by (simp add: formatFrac9_def getFrac_def Let_def)
  next
    case (Cons c r)
    have notZ: "\<not> isDigit (CHR ''Z'')" by code_simp
    have "takeWhile isDigit (k @ ''Z'') = k" and "dropWhile isDigit (k @ ''Z'') = ''Z''"
      using dig notZ by (simp_all add: takeWhile_append2 dropWhile_append2)
    then have tw: "takeWhile isDigit (c # r @ ''Z'') = c # r"
      and dw: "dropWhile isDigit (c # r @ ''Z'') = ''Z''"
      using Cons by simp_all
    have tk: "take 8 r = r" and dc: "isDigit c" using len dig Cons by simp_all
    have "int v * 10 ^ (9 - length k) = nsec"
      using v(2) len assms by (metis add_diff_cancel_left' int_nat_eq of_nat_mult of_nat_numeral of_nat_power)
    moreover have "formatFrac9 nsec = CHR ''.'' # c # r"
      using Cons kr fix9 by (simp add: formatFrac9_def)
    ultimately show ?thesis
      using v(1) dc by (simp add: getFrac_def Let_def tw dw tk Cons del: parseDigits.simps takeWhile.simps dropWhile.simps)
  qed
qed

lemma parse_parts:
  assumes "0 \<le> y" "y < 10000" "1 \<le> m" "m \<le> 12" "1 \<le> d" "d \<le> daysIn y m"
    and "0 \<le> hh" "hh < 24" "0 \<le> mi" "mi < 60" "0 \<le> ss" "ss < 60"
    and "getFrac (f @ ''Z'') = (nsec, ''Z'')"
  shows "parseRFC3339Nano (appendInt y 4 @ ''-'' @ appendInt (int m) 2 @ ''-'' @ appendInt d 2 @ ''T'' @
      appendInt hh 2 @ '':'' @ appendInt mi 2 @ '':'' @ appendInt ss 2 @ f @ ''Z'') =
    Some ((dateDays y m d * 86400 + hh * 3600 + mi * 60 + ss) * second + nsec)"
proof -
  have "d < 100" using assms(6) by (auto simp: daysIn_def split: if_splits)
  with assms show ?thesis by (simp add: parseRFC3339Nano_def getZone_def)
qed

lemma parse_format:
  assumes "wireTime t"
  shows "parseRFC3339Nano (formatRFC3339Nano t) = Some t"
proof -
  define secs where "secs = t div second"
  define day sod where "day = secs div 86400" and "sod = secs mod 86400"
  obtain y m d where c: "civil day = (y, m, d)" by (metis prod_cases3)
  have "- 62167219200 \<le> secs" "secs < 253402300800"
    using assms by (auto simp: wireTime_def secs_def second_def)
  then have "- 719528 \<le> day" "day < 2932897" by (auto simp: day_def)
  with c have y: "0 \<le> y" "y < 10000" using civil_year_range by blast+
  have spec: "dateDays y m d = day" "1 \<le> m" "m \<le> 12" "1 \<le> d" "d \<le> daysIn y m"
    using civil_spec [OF c] by auto
  have sod: "0 \<le> sod" "sod < 86400" by (auto simp: sod_def)
  have "sod mod 3600 mod 60 = sod mod 60" by (rule mod_mod_cancel) simp
  then have parts: "sod div 3600 * 3600 + sod mod 3600 div 60 * 60 + sod mod 60 = sod"
    using div_mult_mod_eq [of "sod mod 3600" 60] div_mult_mod_eq [of sod 3600] by linarith
  have dd: "day * 86400 + sod = secs" by (simp add: day_def sod_def)
  have rng: "0 \<le> sod div 3600" "sod div 3600 < 24" "0 \<le> sod mod 3600 div 60"
      "sod mod 3600 div 60 < 60" "0 \<le> sod mod 60" "sod mod 60 < 60"
    using sod by auto
  have frac: "getFrac (formatFrac9 (t mod second) @ ''Z'') = (t mod second, ''Z'')"
    by (rule getFrac_formatFrac9) (auto simp: second_def)
  have "formatRFC3339Nano t = appendInt y 4 @ ''-'' @ appendInt (int m) 2 @ ''-'' @ appendInt d 2 @ ''T'' @
      appendInt (sod div 3600) 2 @ '':'' @ appendInt (sod mod 3600 div 60) 2 @ '':'' @
      appendInt (sod mod 60) 2 @ formatFrac9 (t mod second) @ ''Z''"
    using c by (simp add: formatRFC3339Nano_def formatSeconds_def Let_def flip: secs_def day_def sod_def)
  then have "parseRFC3339Nano (formatRFC3339Nano t) =
      Some ((day * 86400 + sod div 3600 * 3600 + sod mod 3600 div 60 * 60 + sod mod 60) * second + t mod second)"
    using parse_parts [OF y spec(2-5) rng frac] spec(1) by (simp only:)
  also have "day * 86400 + sod div 3600 * 3600 + sod mod 3600 div 60 * 60 + sod mod 60 = secs"
    using parts dd by linarith
  also have "secs * second + t mod second = t"
    by (simp add: secs_def second_def)
  finally show ?thesis .
qed

end
