(* ===== verification/Float64.thy ===== *)
theory Float64
  imports Go_Time "HOL-Library.Log_Nat" Complex_Main
begin

text \<open>
  The float64 arithmetic the sources use: the conversion of integers and decimal numbers, one
  division and one addition (\<open>Duration.Seconds\<close>), each correctly rounded to nearest even, and
  the shortest decimal that reads back as the same number (\<open>strconv.FormatFloat\<close> with precision -1)
  in the notation of encoding/json.
\<close>

section \<open>Rounding\<close>

text \<open>
  The magnitude of a finite float64 is \<open>m * 2 ^ e\<close>, with 53 bits in \<open>m\<close>, or fewer at the least
  exponent. The sign is kept apart.
\<close>

type_synonym magnitude = "nat \<times> int"

definition minExp :: int where "minExp = -1074"
definition maxExp :: int where "maxExp = 971"

definition canonMag :: "magnitude \<Rightarrow> bool" where
  "canonMag f \<longleftrightarrow> (case f of (m, e) \<Rightarrow>
     minExp \<le> e \<and> e \<le> maxExp \<and> m < 2 ^ 53 \<and> (minExp < e \<longrightarrow> 2 ^ 52 \<le> m))"

text \<open>The quotient to the nearest integer, a tie to the even one.\<close>

definition roundDiv :: "nat \<Rightarrow> nat \<Rightarrow> nat" where
  "roundDiv N D =
     (let q = N div D; r = N mod D
      in if 2 * r < D then q else if 2 * r > D then Suc q else if even q then q else Suc q)"

definition bits :: "nat \<Rightarrow> int" where "bits n = int (floorlog 2 n)"

text \<open>\<open>n / d / 2 ^ e\<close> as a fraction of natural numbers.\<close>

definition scaled :: "nat \<Rightarrow> nat \<Rightarrow> int \<Rightarrow> nat \<times> nat" where
  "scaled n d e = (if 0 \<le> e then (n, d * 2 ^ nat e) else (n * 2 ^ nat (- e), d))"

text \<open>The exponent that leaves 53 bits before the point.\<close>

definition expOf :: "nat \<Rightarrow> nat \<Rightarrow> int" where
  "expOf n d =
     (let e = bits n - bits d - 53; (N, D) = scaled n d e
      in max minExp (if 2 ^ 53 * D \<le> N then e + 1 else e))"

text \<open>A positive rational to the nearest float64; \<open>None\<close> when it is out of range.\<close>

definition roundFrac :: "nat \<Rightarrow> nat \<Rightarrow> magnitude option" where
  "roundFrac n d =
     (if n = 0 then Some (0, minExp)
      else (let e = expOf n d; (N, D) = scaled n d e; m = roundDiv N D;
                (m, e) = (if m = 2 ^ 53 then (2 ^ 52, e + 1) else (m, e))
            in if maxExp < e then None else Some (m, e)))"

text \<open>A decimal number \<open>D * 10 ^ p\<close>, and a sum of two floats.\<close>

definition roundDec :: "nat \<Rightarrow> int \<Rightarrow> magnitude option" where
  "roundDec D p = (if 0 \<le> p then roundFrac (D * 10 ^ nat p) 1 else roundFrac D (10 ^ nat (- p)))"

definition roundDyad :: "nat \<Rightarrow> int \<Rightarrow> magnitude option" where
  "roundDyad N e = (if 0 \<le> e then roundFrac (N * 2 ^ nat e) 1 else roundFrac N (2 ^ nat (- e)))"

definition addMag :: "magnitude \<Rightarrow> magnitude \<Rightarrow> magnitude option" where
  "addMag f g =
     (let (m1, e1) = f; (m2, e2) = g; e = min e1 e2
      in roundDyad (m1 * 2 ^ nat (e1 - e) + m2 * 2 ^ nat (e2 - e)) e)"

section \<open>Shortest decimals\<close>

text \<open>A float64 as an exact decimal \<open>I * 10 ^ q\<close>.\<close>

definition exactDec :: "magnitude \<Rightarrow> nat \<times> int" where
  "exactDec f = (case f of (m, e) \<Rightarrow> if 0 \<le> e then (m * 2 ^ nat e, 0) else (m * 5 ^ nat (- e), e))"

definition decLen :: "nat \<Rightarrow> nat" where "decLen n = length (natDec n)"

text \<open>
  The decimal with \<open>k\<close> digits for a float: the exact one cut off or cut off and raised, whichever
  reads back as the float, the nearer one (a tie to the even one) when both do.
\<close>

definition decimalAt :: "magnitude \<Rightarrow> nat \<Rightarrow> (nat \<times> int) option" where
  "decimalAt f k =
     (let (I, q) = exactDec f; L = decLen I
      in if L \<le> k then Some (I, q)
         else (let t = 10 ^ (L - k); p = q + int (L - k); lo = I div t;
                   down = (roundDec lo p = Some f); up = (roundDec (Suc lo) p = Some f)
               in if down \<and> up then Some (roundDiv I t, p)
                  else if down then Some (lo, p) else if up then Some (Suc lo, p) else None))"

function stripZeros :: "nat \<times> int \<Rightarrow> nat \<times> int" where
  "stripZeros (D, p) = (if D \<noteq> 0 \<and> D mod 10 = 0 then stripZeros (D div 10, p + 1) else (D, p))"
  by pat_completeness auto
termination by (relation "measure fst") auto

declare stripZeros.simps [simp del]

definition shortestDec :: "magnitude \<Rightarrow> nat \<times> int" where
  "shortestDec f =
     (case List.find (\<lambda>k. decimalAt f k \<noteq> None) [1..<18] of
        Some k \<Rightarrow> stripZeros (the (decimalAt f k))
      | None \<Rightarrow> stripZeros (exactDec f))"

section \<open>Notation\<close>

definition zeros :: "nat \<Rightarrow> string" where "zeros n = replicate n (CHR ''0'')"

text \<open>\<open>%f\<close> and \<open>%e\<close> with the digits of \<open>D\<close>, as encoding/json writes them.\<close>

definition formatF :: "nat \<times> int \<Rightarrow> string" where
  "formatF d =
     (let (D, p) = d; ds = natDec D; n = int (length ds); dp = n + p
      in if 0 \<le> p then ds @ zeros (nat p)
         else if 0 < dp then take (nat dp) ds @ ''.'' @ drop (nat dp) ds
         else ''0.'' @ zeros (nat (- dp)) @ ds)"

definition formatE :: "nat \<times> int \<Rightarrow> string" where
  "formatE d =
     (let (D, p) = d; ds = natDec D; x = int (length ds) + p - 1
      in take 1 ds @ (if length ds = 1 then '''' else ''.'' @ drop 1 ds) @ ''e'' @
         (if x < 0 then ''-'' else ''+'') @ natDec (nat \<bar>x\<bar>))"

definition lessMag :: "magnitude \<Rightarrow> magnitude \<Rightarrow> bool" where
  "lessMag f g = (let (m1, e1) = f; (m2, e2) = g; e = min e1 e2
                  in m1 * 2 ^ nat (e1 - e) < m2 * 2 ^ nat (e2 - e))"

definition jsonFloat :: "bool \<Rightarrow> magnitude \<Rightarrow> string" where
  "jsonFloat neg f =
     (if neg then ''-'' else '''') @
     (if fst f = 0 then ''0''
      else if lessMag f (the (roundDec 1 (- 6))) \<or> \<not> lessMag f (the (roundDec 1 21)) then formatE (shortestDec f)
      else formatF (shortestDec f))"

section \<open>Reading a literal\<close>

text \<open>
  \<open>strconv.ParseFloat\<close> of a JSON number literal: its sign and the nearest float64, an error when it
  is out of range. The exponent stops growing at five digits, as in the source of strconv.
\<close>

fun capExp :: "nat \<Rightarrow> string \<Rightarrow> nat" where
  "capExp acc [] = acc"
| "capExp acc (c # s) =
     capExp (if acc < 10000 then 10 * acc + (case digitVal c of Some d \<Rightarrow> d | None \<Rightarrow> 0) else acc) s"

definition litExp :: "string \<Rightarrow> int" where
  "litExp s =
     (case s of
        c # d # r \<Rightarrow>
          if d = CHR ''-'' then - int (capExp 0 r) else if d = CHR ''+'' then int (capExp 0 r) else int (capExp 0 (d # r))
      | _ \<Rightarrow> 0)"

definition litFrac :: "string \<Rightarrow> string \<times> string" where
  "litFrac s =
     (case s of
        c # r \<Rightarrow> if c = CHR ''.'' then (takeWhile isDigit r, dropWhile isDigit r) else ([], s)
      | [] \<Rightarrow> ([], []))"

definition litFloat :: "string \<Rightarrow> (bool \<times> magnitude) option" where
  "litFloat lit =
     (let neg = (case lit of c # _ \<Rightarrow> c = CHR ''-'' | [] \<Rightarrow> False); s = (if neg then tl lit else lit);
          i = takeWhile isDigit s; (f, s2) = litFrac (dropWhile isDigit s)
      in case parseDigits 0 (i @ f) of
           None \<Rightarrow> None
         | Some D \<Rightarrow> map_option (Pair neg) (roundDec D (litExp s2 - int (length f))))"

section \<open>Seconds\<close>

text \<open>\<open>Duration.Seconds\<close>: whole seconds plus the rest over 1e9. The parts have the sign of the duration.\<close>

definition secondsMag :: "duration \<Rightarrow> magnitude option" where
  "secondsMag d =
     (let a = nat \<bar>d\<bar>
      in case (roundFrac (a div 1000000000) 1, roundFrac (a mod 1000000000) 1000000000) of
           (Some s, Some r) \<Rightarrow> addMag s r
         | _ \<Rightarrow> None)"

definition marshalSeconds :: "duration \<Rightarrow> string" where
  "marshalSeconds d = (case secondsMag d of Some f \<Rightarrow> jsonFloat (d < 0) f | None \<Rightarrow> '''')"

end
