(* ===== verification/Json.thy ===== *)
theory Json
  imports Float64 "HOL-Library.List_Lexorder" "HOL-Library.Char_ord"
begin

text \<open>
  The part of encoding/json the sources use: the values behind \<open>any\<close>, printing as
  \<open>json.Marshal\<close> does, and the syntax \<open>json.Unmarshal\<close> accepts. The decoder is the package's own
  construction: a scanner cuts the text into tokens, and an automaton with a stack of open
  arrays and objects, at most 10000 deep, turns them into a value.
\<close>

section \<open>Values\<close>

text \<open>
  A JSON value. A number carries a text: the literal that was read, or what \<open>json.Marshal\<close> prints.
\<close>

datatype json = JNull | JBool bool | JNum string | JStr string | JArr "json list"
  | JObj "(string \<times> json) list"

section \<open>json.Marshal\<close>

text \<open>
  Strings are escaped as \<open>json.Marshal\<close> does by default (HTML characters and the line
  separators U+2028 and U+2029 included); the other bytes from 0x80 up, which belong to
  valid UTF-8 because the strings come from a JSON decoder, are copied.
\<close>

definition escapeU :: "char \<Rightarrow> string" where
  "escapeU c = [CHR 0x5C] @ ''u00'' @ [hexDigit (of_char c div 16), hexDigit (of_char c mod 16)]"

definition escapeByte :: "char \<Rightarrow> string" where
  "escapeByte c =
     (if c = CHR 0x22 \<or> c = CHR 0x5C then [CHR 0x5C, c]
      else if c = CHR 0x08 then [CHR 0x5C, CHR ''b'']
      else if c = CHR 0x0C then [CHR 0x5C, CHR ''f'']
      else if c = CHR 0x0A then [CHR 0x5C, CHR ''n'']
      else if c = CHR 0x0D then [CHR 0x5C, CHR ''r'']
      else if c = CHR 0x09 then [CHR 0x5C, CHR ''t'']
      else if (of_char c :: nat) < 32 \<or> c = CHR ''<'' \<or> c = CHR ''>'' \<or> c = CHR ''&'' then escapeU c
      else [c])"

fun escapeBody :: "string \<Rightarrow> string" where
  "escapeBody [] = []"
| "escapeBody (a # b # c # s) =
     (if a = CHR 0xE2 \<and> b = CHR 0x80 \<and> (c = CHR 0xA8 \<or> c = CHR 0xA9)
      then [CHR 0x5C] @ ''u202'' @ [if c = CHR 0xA8 then CHR ''8'' else CHR ''9''] @ escapeBody s
      else escapeByte a @ escapeBody (b # c # s))"
| "escapeBody (a # s) = escapeByte a @ escapeBody s"

definition quoteJSON :: "string \<Rightarrow> string" where
  "quoteJSON s = [CHR 0x22] @ escapeBody s @ [CHR 0x22]"

text \<open>Object keys are printed in sorted order.\<close>

fun marshal :: "json \<Rightarrow> string" where
  "marshal JNull = ''null''"
| "marshal (JBool b) = (if b then ''true'' else ''false'')"
| "marshal (JNum t) = t"
| "marshal (JStr s) = quoteJSON s"
| "marshal (JArr vs) = ''['' @ joinWith '','' (map marshal vs) @ '']''"
| "marshal (JObj kvs) =
     ''{'' @ joinWith '','' (map snd (sort_key fst
        (map (\<lambda>(k, v). (k, quoteJSON k @ '':'' @ marshal v)) kvs))) @ ''}''"

section \<open>Runes\<close>

abbreviation byte :: "char \<Rightarrow> nat" where "byte c \<equiv> of_char c"

text \<open>\<open>utf8.EncodeRune\<close> of a code point.\<close>

definition utf8Encode :: "nat \<Rightarrow> string" where
  "utf8Encode r =
     (if r < 0x80 then [char_of r]
      else if r < 0x800 then [char_of (0xC0 + r div 64), char_of (0x80 + r mod 64)]
      else if r < 0x10000
      then [char_of (0xE0 + r div 4096), char_of (0x80 + r div 64 mod 64), char_of (0x80 + r mod 64)]
      else [char_of (0xF0 + r div 262144), char_of (0x80 + r div 4096 mod 64),
            char_of (0x80 + r div 64 mod 64), char_of (0x80 + r mod 64)])"

definition runeError :: nat where "runeError = 0xFFFD"

definition cont :: "char \<Rightarrow> bool" where "cont c \<longleftrightarrow> 0x80 \<le> byte c \<and> byte c < 0xC0"

text \<open>
  \<open>utf8.DecodeRune\<close>: how many bytes the encoding at the start of a text has, 0 when there is no
  valid one. Surrogates, overlong forms and code points past U+10FFFF are invalid.
\<close>

definition runeLen :: "string \<Rightarrow> nat" where
  "runeLen s =
     (case s of
        [] \<Rightarrow> 0
      | a # r \<Rightarrow>
          if byte a < 0x80 then 1
          else if byte a < 0xC2 then 0
          else if byte a < 0xE0 then (case r of b # _ \<Rightarrow> if cont b then 2 else 0 | _ \<Rightarrow> 0)
          else if byte a < 0xF0
          then (case r of
                  b # c # _ \<Rightarrow>
                    if cont b \<and> cont c \<and> (byte a = 0xE0 \<longrightarrow> 0xA0 \<le> byte b) \<and> (byte a = 0xED \<longrightarrow> byte b < 0xA0) then 3 else 0
                | _ \<Rightarrow> 0)
          else if byte a < 0xF5
          then (case r of
                  b # c # d # _ \<Rightarrow>
                    if cont b \<and> cont c \<and> cont d \<and> (byte a = 0xF0 \<longrightarrow> 0x90 \<le> byte b) \<and> (byte a = 0xF4 \<longrightarrow> byte b < 0x90)
                    then 4 else 0
                | _ \<Rightarrow> 0)
          else 0)"

text \<open>Valid UTF-8 (\<open>utf8.Valid\<close>).\<close>

function validUTF8 :: "string \<Rightarrow> bool" where
  "validUTF8 s = (if s = [] then True else if runeLen s = 0 then False else validUTF8 (drop (runeLen s) s))"
  by pat_completeness auto
termination by (relation "measure length") auto

declare validUTF8.simps [simp del]

section \<open>The scanner\<close>

definition isWs :: "char \<Rightarrow> bool" where
  "isWs c \<longleftrightarrow> c = CHR '' '' \<or> c = CHR 0x09 \<or> c = CHR 0x0A \<or> c = CHR 0x0D"

abbreviation quoteChar :: char where "quoteChar \<equiv> CHR 0x22"
abbreviation backslash :: char where "backslash \<equiv> CHR 0x5C"

fun hex4 :: "string \<Rightarrow> nat option" where
  "hex4 (a # b # c # d # s) =
     (case (hexVal a, hexVal b, hexVal c, hexVal d) of
        (Some i, Some j, Some k, Some l) \<Rightarrow> Some (((i * 16 + j) * 16 + k) * 16 + l)
      | _ \<Rightarrow> None)"
| "hex4 _ = None"

text \<open>The escape of a second half of a surrogate pair at the start of a text.\<close>

definition lowSurrogate :: "string \<Rightarrow> nat option" where
  "lowSurrogate s =
     (if take 2 s = [backslash, CHR ''u'']
      then (case hex4 (drop 2 s) of None \<Rightarrow> None | Some v \<Rightarrow> if 0xDC00 \<le> v \<and> v < 0xE000 then Some v else None)
      else None)"

definition simpleEscape :: "char \<Rightarrow> char option" where
  "simpleEscape e =
     (if e = quoteChar \<or> e = backslash \<or> e = CHR ''/'' then Some e
      else if e = CHR ''b'' then Some (CHR 0x08)
      else if e = CHR ''f'' then Some (CHR 0x0C)
      else if e = CHR ''n'' then Some (CHR 0x0A)
      else if e = CHR ''r'' then Some (CHR 0x0D)
      else if e = CHR ''t'' then Some (CHR 0x09)
      else None)"

text \<open>
  One step through a string literal: what the text \<open>c # r\<close> contributes, and how many bytes of \<open>r\<close>
  are used up with it. An unpaired surrogate and a byte that is no valid UTF-8 become U+FFFD.
\<close>

definition strStep :: "char \<Rightarrow> string \<Rightarrow> (string \<times> nat) option" where
  "strStep c r =
     (if byte c < 0x20 then None
      else if c = backslash
      then (case r of
              [] \<Rightarrow> None
            | e # r2 \<Rightarrow>
                if e = CHR ''u''
                then (case hex4 r2 of
                        None \<Rightarrow> None
                      | Some u \<Rightarrow>
                          if 0xD800 \<le> u \<and> u < 0xE000
                          then (case lowSurrogate (drop 4 r2) of
                                  Some v \<Rightarrow>
                                    if u < 0xDC00 then Some (utf8Encode (0x10000 + (u - 0xD800) * 1024 + (v - 0xDC00)), 11)
                                    else Some (utf8Encode runeError, 5)
                                | None \<Rightarrow> Some (utf8Encode runeError, 5))
                          else Some (utf8Encode u, 5))
                else map_option (\<lambda>b. ([b], 1)) (simpleEscape e))
      else if byte c < 0x80 then Some ([c], 0)
      else if runeLen (c # r) = 0 then Some (utf8Encode runeError, 0)
      else Some (take (runeLen (c # r)) (c # r), runeLen (c # r) - 1))"

text \<open>The literal after its opening quote: its value and the text after the closing quote.\<close>

function decodeBody :: "string \<Rightarrow> (string \<times> string) option" where
  "decodeBody [] = None"
| "decodeBody (c # r) =
     (if c = quoteChar then Some ([], r)
      else (case strStep c r of
              None \<Rightarrow> None
            | Some (out, n) \<Rightarrow> map_option (\<lambda>(t, rest). (out @ t, rest)) (decodeBody (drop n r))))"
  by pat_completeness auto
termination by (relation "measure length") auto

declare decodeBody.simps(2) [simp del]

text \<open>A number literal: an optional minus, an integer without leading zeros, a fraction, an exponent.\<close>

abbreviation digitsOf :: "string \<Rightarrow> string" where "digitsOf s \<equiv> takeWhile isDigit s"
abbreviation afterDigits :: "string \<Rightarrow> string" where "afterDigits s \<equiv> dropWhile isDigit s"

definition scanInt :: "string \<Rightarrow> (string \<times> string) option" where
  "scanInt s =
     (case s of
        [] \<Rightarrow> None
      | c # r \<Rightarrow> if c = CHR ''0'' then Some ([c], r)
                 else if isDigit c then Some (digitsOf s, afterDigits s) else None)"

definition scanFrac :: "string \<Rightarrow> (string \<times> string) option" where
  "scanFrac s =
     (case s of
        [] \<Rightarrow> Some ([], s)
      | c # r \<Rightarrow> if c \<noteq> CHR ''.'' then Some ([], s)
                 else if digitsOf r = [] then None else Some (c # digitsOf r, afterDigits r))"

definition scanExp :: "string \<Rightarrow> (string \<times> string) option" where
  "scanExp s =
     (case s of
        [] \<Rightarrow> Some ([], s)
      | c # r \<Rightarrow>
          if c \<noteq> CHR ''e'' \<and> c \<noteq> CHR ''E'' then Some ([], s)
          else (let sg = (case r of d # _ \<Rightarrow> if d = CHR ''+'' \<or> d = CHR ''-'' then [d] else [] | [] \<Rightarrow> []);
                    r = drop (length sg) r
                in if digitsOf r = [] then None else Some (c # sg @ digitsOf r, afterDigits r)))"

definition scanNumber :: "string \<Rightarrow> (string \<times> string) option" where
  "scanNumber s =
     (let sg = (case s of c # _ \<Rightarrow> if c = CHR ''-'' then [c] else [] | [] \<Rightarrow> [])
      in case scanInt (drop (length sg) s) of
           None \<Rightarrow> None
         | Some (i, s1) \<Rightarrow>
             (case scanFrac s1 of
                None \<Rightarrow> None
              | Some (f, s2) \<Rightarrow>
                  (case scanExp s2 of None \<Rightarrow> None | Some (e, s3) \<Rightarrow> Some (sg @ i @ f @ e, s3))))"

datatype token = TStr string | TNum string | TLit json | TOpenObj | TCloseObj | TOpenArr | TCloseArr | TColon | TComma

definition scanWord :: "string \<Rightarrow> json \<Rightarrow> string \<Rightarrow> (token \<times> string) option" where
  "scanWord w v r = map_option (\<lambda>rest. (TLit v, rest)) (cutPrefix r w)"

definition lexOne :: "char \<Rightarrow> string \<Rightarrow> (token \<times> string) option" where
  "lexOne c r =
     (if c = CHR ''{'' then Some (TOpenObj, r)
      else if c = CHR ''}'' then Some (TCloseObj, r)
      else if c = CHR ''['' then Some (TOpenArr, r)
      else if c = CHR '']'' then Some (TCloseArr, r)
      else if c = CHR '':'' then Some (TColon, r)
      else if c = CHR '','' then Some (TComma, r)
      else if c = quoteChar then map_option (\<lambda>(s, rest). (TStr s, rest)) (decodeBody r)
      else if c = CHR ''t'' then scanWord ''rue'' (JBool True) r
      else if c = CHR ''f'' then scanWord ''alse'' (JBool False) r
      else if c = CHR ''n'' then scanWord ''ull'' JNull r
      else map_option (\<lambda>(n, rest). (TNum n, rest)) (scanNumber (c # r)))"

lemma decodeBody_length: "decodeBody s = Some (t, rest) \<Longrightarrow> length rest < length s"
proof (induction s arbitrary: t rule: decodeBody.induct)
  case 1
  then show ?case by simp
next
  case (2 c r)
  show ?case
  proof (cases "c = quoteChar")
    case True
    with "2.prems" show ?thesis by (simp add: decodeBody.simps(2))
  next
    case False
    with "2.prems" obtain out n t' where "strStep c r = Some (out, n)" "decodeBody (drop n r) = Some (t', rest)"
      by (auto simp: decodeBody.simps(2) split: option.splits)
    with "2.IH" [OF False _ refl] False have "length rest < length (drop n r)" by fastforce
    then show ?thesis by simp
  qed
qed

lemma scanInt_length: "scanInt s = Some (i, rest) \<Longrightarrow> length rest < length s"
  by (auto simp: scanInt_def intro: le_imp_less_Suc length_dropWhile_le split: list.splits if_splits)

lemma scanFrac_length: "scanFrac s = Some (i, rest) \<Longrightarrow> length rest \<le> length s"
  by (auto simp: scanFrac_def intro: le_SucI length_dropWhile_le split: list.splits if_splits)

lemma scanExp_length: "scanExp s = Some (i, rest) \<Longrightarrow> length rest \<le> length s"
proof -
  have "length (afterDigits r) \<le> Suc (Suc (length r))" for r
    using length_dropWhile_le [of isDigit r] by simp
  then show "scanExp s = Some (i, rest) \<Longrightarrow> length rest \<le> length s"
    by (auto simp: scanExp_def Let_def split: list.splits if_splits)
qed

lemma scanNumber_length: "scanNumber s = Some (n, rest) \<Longrightarrow> length rest < length s"
proof -
  have d: "length (drop k s) \<le> length s" for k by simp
  assume "scanNumber s = Some (n, rest)"
  then obtain k i s1 f s2 e where "scanInt (drop k s) = Some (i, s1)" "scanFrac s1 = Some (f, s2)" "scanExp s2 = Some (e, rest)"
    by (auto simp: scanNumber_def Let_def split: option.splits)
  with scanInt_length scanFrac_length scanExp_length d [of k] show ?thesis by (meson le_trans less_le_trans not_le)
qed

lemma lexOne_length: "lexOne c r = Some (t, rest) \<Longrightarrow> length rest \<le> length r"
  by (auto simp: lexOne_def scanWord_def cutPrefix_def less_Suc_eq_le dest!: decodeBody_length scanNumber_length split: if_splits)

function lexJSON :: "string \<Rightarrow> token list option" where
  "lexJSON [] = Some []"
| "lexJSON (c # r) =
     (if isWs c then lexJSON r
      else (case lexOne c r of None \<Rightarrow> None | Some (t, rest) \<Rightarrow> map_option (Cons t) (lexJSON rest)))"
  by pat_completeness auto
termination by (relation "measure length") (auto dest: lexOne_length)

declare lexJSON.simps(2) [simp del]

section \<open>The automaton\<close>

text \<open>
  The open arrays and objects (\<open>FMem\<close>: an object whose key \<open>k\<close> waits for its value), and what
  may come next.
\<close>

datatype frame = FArr "json list" | FObj "(string \<times> json) list" | FMem "(string \<times> json) list" string

datatype phase = AtValue | AtFirstElem | AtFirstKey | AtKey | AtColon | AfterValue json

definition maxNestingDepth :: nat where "maxNestingDepth = 10000"

definition startValue :: "frame list \<Rightarrow> token \<Rightarrow> (phase \<times> frame list) option" where
  "startValue st t =
     (case t of
        TStr s \<Rightarrow> Some (AfterValue (JStr s), st)
      | TNum n \<Rightarrow> Some (AfterValue (JNum n), st)
      | TLit v \<Rightarrow> Some (AfterValue v, st)
      | TOpenArr \<Rightarrow> if length st < maxNestingDepth then Some (AtFirstElem, FArr [] # st) else None
      | TOpenObj \<Rightarrow> if length st < maxNestingDepth then Some (AtFirstKey, FObj [] # st) else None
      | _ \<Rightarrow> None)"

definition startKey :: "frame list \<Rightarrow> token \<Rightarrow> (phase \<times> frame list) option" where
  "startKey st t = (case (st, t) of (FObj kvs # st', TStr k) \<Rightarrow> Some (AtColon, FMem kvs k # st') | _ \<Rightarrow> None)"

definition endValue :: "json \<Rightarrow> frame list \<Rightarrow> token \<Rightarrow> (phase \<times> frame list) option" where
  "endValue v st t =
     (case st of
        FArr vs # st' \<Rightarrow>
          if t = TComma then Some (AtValue, FArr (vs @ [v]) # st')
          else if t = TCloseArr then Some (AfterValue (JArr (vs @ [v])), st')
          else None
      | FMem kvs k # st' \<Rightarrow>
          if t = TComma then Some (AtKey, FObj (kvs @ [(k, v)]) # st')
          else if t = TCloseObj then Some (AfterValue (JObj (kvs @ [(k, v)])), st')
          else None
      | _ \<Rightarrow> None)"

definition stepToken :: "phase \<Rightarrow> frame list \<Rightarrow> token \<Rightarrow> (phase \<times> frame list) option" where
  "stepToken p st t =
     (case p of
        AtValue \<Rightarrow> startValue st t
      | AtFirstElem \<Rightarrow> if t = TCloseArr then Some (AfterValue (JArr []), tl st) else startValue st t
      | AtFirstKey \<Rightarrow> if t = TCloseObj then Some (AfterValue (JObj []), tl st) else startKey st t
      | AtKey \<Rightarrow> startKey st t
      | AtColon \<Rightarrow> if t = TColon then Some (AtValue, st) else None
      | AfterValue v \<Rightarrow> endValue v st t)"

fun runTokens :: "phase \<Rightarrow> frame list \<Rightarrow> token list \<Rightarrow> json option" where
  "runTokens p st [] = (case (p, st) of (AfterValue v, []) \<Rightarrow> Some v | _ \<Rightarrow> None)"
| "runTokens p st (t # ts) =
     (case stepToken p st t of None \<Rightarrow> None | Some (p', st') \<Rightarrow> runTokens p' st' ts)"

definition parseJSON :: "string \<Rightarrow> json option" where
  "parseJSON s = (case lexJSON s of None \<Rightarrow> None | Some ts \<Rightarrow> runTokens AtValue [] ts)"

section \<open>Decoding into Go values\<close>

text \<open>Loops that stop at the first error.\<close>

fun foldOpt :: "('a \<Rightarrow> 'b \<Rightarrow> 'b option) \<Rightarrow> 'a list \<Rightarrow> 'b \<Rightarrow> 'b option" where
  "foldOpt f [] acc = Some acc"
| "foldOpt f (x # xs) acc = (case f x acc of None \<Rightarrow> None | Some acc' \<Rightarrow> foldOpt f xs acc')"

text \<open>
  A value into an \<open>any\<close>: a number becomes a float64, an error when it is out of range; of a key that
  is given twice the later value counts.
\<close>

fun anyValue :: "json \<Rightarrow> json option" where
  "anyValue (JNum lit) = map_option (\<lambda>(neg, f). JNum (jsonFloat neg f)) (litFloat lit)"
| "anyValue (JArr vs) = map_option JArr (those (map anyValue vs))"
| "anyValue (JObj kvs) =
     map_option (\<lambda>ms. JObj (fold (\<lambda>(k, v). AList.update k v) ms []))
       (those (map (\<lambda>(k, v). map_option (Pair k) (anyValue v)) kvs))"
| "anyValue v = Some v"

text \<open>Into a string field and into a \<open>map[string]any\<close> that may hold entries already; null is no error.\<close>

definition intoString :: "json \<Rightarrow> string \<Rightarrow> string option" where
  "intoString v old = (case v of JStr s \<Rightarrow> Some s | JNull \<Rightarrow> Some old | _ \<Rightarrow> None)"

definition intoAnyMap :: "json \<Rightarrow> (string, json) gomap \<Rightarrow> (string, json) gomap option" where
  "intoAnyMap v old =
     (case v of
        JNull \<Rightarrow> Some []
      | JObj kvs \<Rightarrow>
          map_option (\<lambda>ms. fold (\<lambda>(k, v). AList.update k v) ms old)
            (those (map (\<lambda>(k, v). map_option (Pair k) (anyValue v)) kvs))
      | _ \<Rightarrow> None)"

text \<open>
  The field of a struct a key names: the one with exactly that name, or else one that is equal under
  case folding, where U+017F and U+212A fold to S and K. A key without a field is skipped.
\<close>

definition upperByte :: "char \<Rightarrow> char" where
  "upperByte c = (if 97 \<le> byte c \<and> byte c \<le> 122 then char_of (byte c - 32) else c)"

fun foldName :: "string \<Rightarrow> string" where
  "foldName [] = []"
| "foldName (a # s) =
     (if take 2 (a # s) = [CHR 0xC5, CHR 0xBF] then CHR ''S'' # foldName (drop 1 s)
      else if take 3 (a # s) = [CHR 0xE2, CHR 0x84, CHR 0xAA] then CHR ''K'' # foldName (drop 2 s)
      else upperByte a # foldName s)"

definition matchField :: "string list \<Rightarrow> string \<Rightarrow> string option" where
  "matchField names key =
     (if key \<in> set names then Some key else List.find (\<lambda>n. foldName n = foldName key) names)"

end
