(* ===== verification/Float64_Laws.thy ===== *)
theory Float64_Laws
  imports Float64
begin

text \<open>
  What the float64 model guarantees: rounding is to nearest and depends on the number only; the
  printed decimal of every float64 is read back as that float64 (17 digits are always enough);
  whole numbers below 2 ^ 53 are printed in full; and the error of the seconds of a duration.
\<close>

section \<open>Rounding to nearest\<close>

abbreviation pow2 :: "int \<Rightarrow> real" where "pow2 e \<equiv> 2 powi e"

definition valMag :: "magnitude \<Rightarrow> real" where
  "valMag f = real (fst f) * pow2 (snd f)"

lemma pow2_pos [simp]: "0 < pow2 e"
  by (simp add: zero_less_power_int)

lemma pow2_add: "pow2 (a + b) = pow2 a * pow2 b"
  by (simp add: power_int_add)

lemma pow2_nat: "0 \<le> e \<Longrightarrow> pow2 e = 2 ^ nat e"
  by (simp add: power_int_def)

lemma pow2_neg: "e < 0 \<Longrightarrow> pow2 e = 1 / 2 ^ nat (- e)"
  using power_int_minus [of "2::real" "- e"] pow2_nat [of "- e"] by (simp add: inverse_eq_divide)

lemma pow2_mono: "a \<le> b \<Longrightarrow> pow2 a \<le> pow2 b"
  by (rule power_int_increasing) simp_all

lemma scaled_val:
  assumes "scaled n d e = (N, D)" "0 < d"
  shows "0 < D" "real N / real D = real n / real d / pow2 e"
proof -
  show "0 < D" using assms by (auto simp: scaled_def split: if_splits)
  show "real N / real D = real n / real d / pow2 e"
  proof (cases "0 \<le> e")
    case True
    then show ?thesis using assms by (auto simp: scaled_def pow2_nat)
  next
    case False
    then show ?thesis using assms by (auto simp: scaled_def pow2_neg)
  qed
qed

lemma div_real: "0 < D \<Longrightarrow> real N / real D = real (N div D) + real (N mod D) / real D"
proof -
  assume "0 < D"
  have "real N = real (N div D) * real D + real (N mod D)"
    by (metis div_mult_mod_eq of_nat_add of_nat_mult)
  then show ?thesis using \<open>0 < D\<close> by (simp add: field_simps)
qed

lemma roundDiv_near: "0 < D \<Longrightarrow> \<bar>real N / real D - real (roundDiv N D)\<bar> \<le> 1 / 2"
proof -
  assume D: "0 < D"
  define y where "y = real (N mod D) / real D"
  have "N mod D < D" using D by simp
  then have y: "0 \<le> y" "y < 1" "2 * (N mod D) < D \<Longrightarrow> y < 1 / 2" "D < 2 * (N mod D) \<Longrightarrow> 1 / 2 < y"
    "2 * (N mod D) = D \<Longrightarrow> y = 1 / 2"
    using D unfolding y_def by (auto simp: divide_less_eq less_divide_eq divide_eq_eq)
  have "real N / real D = real (N div D) + y" unfolding y_def by (rule div_real [OF D])
  moreover have "roundDiv N D = N div D \<and> y \<le> 1 / 2 \<or> roundDiv N D = Suc (N div D) \<and> 1 / 2 \<le> y"
    using y(3-5) by (cases "2 * (N mod D)" D rule: linorder_cases) (auto simp: roundDiv_def Let_def)
  ultimately show ?thesis using y(1,2) by auto
qed

lemma roundDiv_unique:
  assumes "0 < D" "\<bar>real N / real D - real k\<bar> < 1 / 2"
  shows "roundDiv N D = k"
proof -
  have "\<bar>real (roundDiv N D) - real k\<bar> < 1" using roundDiv_near [OF assms(1), of N] assms(2) by linarith
  then have "\<bar>int (roundDiv N D) - int k\<bar> < 1" by linarith
  then show ?thesis by simp
qed

lemma roundDiv_ratio:
  assumes "0 < D" "0 < D'" "N * D' = N' * D"
  shows "roundDiv N D = roundDiv N' D'"
proof -
  have q: "N div D = N' div D'"
    by (metis assms div_mult_mult2 less_numeral_extra(3) mult.commute)
  have r: "N mod D * D' = N' mod D' * D"
    using assms by (metis mod_mult_mult2 mult.commute)
  then have r2: "2 * (N mod D) * D' = 2 * (N' mod D') * D" by simp
  have "(2 * (N mod D) < D) = (2 * (N mod D) * D' < D * D')" using assms(2) by simp
  also have "\<dots> = (2 * (N' mod D') < D')" unfolding r2 using assms(1) by (simp add: mult.commute [of D D'])
  finally have "(2 * (N mod D) < D) = (2 * (N' mod D') < D')" .
  moreover have "(D < 2 * (N mod D)) = (D * D' < 2 * (N mod D) * D')" using assms(2) by simp
  moreover have "(D * D' < 2 * (N mod D) * D') = (D' < 2 * (N' mod D'))"
    unfolding r2 using assms(1) by (simp add: mult.commute [of D D'])
  ultimately have "(2 * (N mod D) < D) = (2 * (N' mod D') < D')" "(D < 2 * (N mod D)) = (D' < 2 * (N' mod D'))" by simp_all
  then show ?thesis unfolding roundDiv_def Let_def q by presburger
qed

lemma bits_bounds:
  assumes "0 < n"
  shows "pow2 (bits n - 1) \<le> real n" "real n < pow2 (bits n)"
proof -
  have b: "2 ^ (floorlog 2 n - 1) \<le> n" "n < 2 ^ floorlog 2 n" "0 < floorlog 2 n"
    using floorlog_bounds [OF assms, of 2] assms by (auto simp: floorlog_def)
  have "int (floorlog 2 n - 1) = bits n - 1" using b(3) by (simp add: bits_def)
  then have "pow2 (bits n - 1) = real (2 ^ (floorlog 2 n - 1))" by (metis power_int_of_nat of_nat_numeral of_nat_power)
  then show "pow2 (bits n - 1) \<le> real n" using b(1) by (metis of_nat_le_iff)
  have "pow2 (bits n) = real (2 ^ floorlog 2 n)" by (simp add: bits_def)
  then show "real n < pow2 (bits n)" using b(2) by (metis of_nat_less_iff)
qed

text \<open>The exponent of a positive rational: where its 53 leading bits end.\<close>

definition isExp :: "real \<Rightarrow> int \<Rightarrow> bool" where
  "isExp x e \<longleftrightarrow> minExp \<le> e \<and> x < 2 ^ 53 * pow2 e \<and> (minExp < e \<longrightarrow> 2 ^ 52 * pow2 e \<le> x)"

lemma isExp_unique: "isExp x e \<Longrightarrow> isExp x e' \<Longrightarrow> e = e'"
proof -
  have "\<not> e < e'" if "isExp x e" "isExp x e'" for e e'
  proof
    assume "e < e'"
    then have "pow2 (e + 1) \<le> pow2 e'" by (intro pow2_mono) simp
    then have "2 ^ 53 * pow2 e \<le> 2 ^ 52 * pow2 e'" by (simp add: pow2_add)
    then show False using that \<open>e < e'\<close> by (auto simp: isExp_def)
  qed
  then show "isExp x e \<Longrightarrow> isExp x e' \<Longrightarrow> e = e'" by (metis linorder_less_linear)
qed

lemma expOf_isExp:
  assumes "0 < n" "0 < d"
  shows "isExp (real n / real d) (expOf n d)"
proof -
  let ?x = "real n / real d" and ?e = "bits n - bits d - 53"
  obtain N D where s: "scaled n d ?e = (N, D)" by fastforce
  note sv = scaled_val [OF s assms(2)]
  have "pow2 (bits n - 1) / pow2 (bits d) \<le> ?x"
    using bits_bounds assms by (intro frac_le) (auto intro: less_imp_le)
  moreover have "pow2 (bits n - 1) / pow2 (bits d) = 2 ^ 52 * pow2 ?e"
    by (simp add: power_int_diff)
  ultimately have lo: "2 ^ 52 * pow2 ?e \<le> ?x" by simp
  have "?x < pow2 (bits n) / pow2 (bits d - 1)"
    using bits_bounds assms by (intro frac_less) auto
  moreover have "pow2 (bits n) / pow2 (bits d - 1) = 2 ^ 53 * pow2 (?e + 1)"
    by (simp add: power_int_diff power_int_add)
  ultimately have hi: "?x < 2 ^ 53 * pow2 (?e + 1)" by simp
  have cmp: "2 ^ 53 * D \<le> N \<longleftrightarrow> 2 ^ 53 * pow2 ?e \<le> ?x"
  proof -
    have "2 ^ 53 * D \<le> N \<longleftrightarrow> 2 ^ 53 * real D \<le> real N" by (metis of_nat_le_iff of_nat_mult of_nat_numeral of_nat_power)
    also have "\<dots> \<longleftrightarrow> 2 ^ 53 \<le> real N / real D" using sv(1) by (simp add: le_divide_eq)
    also have "\<dots> \<longleftrightarrow> 2 ^ 53 * pow2 ?e \<le> ?x" unfolding sv(2) using assms(2) by (simp add: le_divide_eq mult_ac)
    finally show ?thesis .
  qed
  define e where "e = (if 2 ^ 53 * D \<le> N then ?e + 1 else ?e)"
  have "2 ^ 52 * pow2 (?e + 1) = 2 ^ 53 * pow2 ?e" by (subst pow2_add) simp
  then have e: "2 ^ 52 * pow2 e \<le> ?x" "?x < 2 ^ 53 * pow2 e"
    using lo hi cmp unfolding e_def by (cases "2 ^ 53 * D \<le> N"; simp)+
  have "expOf n d = max minExp e" unfolding expOf_def Let_def s e_def by simp
  moreover have "isExp ?x (max minExp e)"
  proof (cases "e \<le> minExp")
    case True
    then have "2 ^ 53 * pow2 e \<le> 2 ^ 53 * pow2 minExp" by (simp add: pow2_mono)
    then show ?thesis using True e(2) by (simp add: isExp_def)
  next
    case False
    then show ?thesis using e by (simp add: isExp_def)
  qed
  ultimately show ?thesis by simp
qed

lemma expOf_eq: "0 < n \<Longrightarrow> 0 < d \<Longrightarrow> isExp (real n / real d) e \<Longrightarrow> expOf n d = e"
  using expOf_isExp isExp_unique by blast

lemma ratio_nat: "0 < d \<Longrightarrow> 0 < d' \<Longrightarrow> real n / real d = real n' / real d' \<longleftrightarrow> n * d' = n' * d"
  by (simp add: frac_eq_eq) (metis of_nat_eq_iff of_nat_mult)

text \<open>Rounding depends on the number only.\<close>

lemma roundFrac_cong:
  assumes "0 < d" "0 < d'" "real n / real d = real n' / real d'"
  shows "roundFrac n d = roundFrac n' d'"
proof (cases "n = 0")
  case True
  then show ?thesis using assms by (simp add: roundFrac_def)
next
  case False
  then have n': "n' \<noteq> 0" using assms by (intro notI) simp
  have e: "expOf n d = expOf n' d'"
    using False n' assms expOf_isExp [of n' d'] by (intro expOf_eq) simp_all
  obtain N D where s: "scaled n d (expOf n d) = (N, D)" by fastforce
  obtain N' D' where s': "scaled n' d' (expOf n d) = (N', D')" by fastforce
  note v = scaled_val [OF s assms(1)] scaled_val [OF s' assms(2)]
  then have "roundDiv N D = roundDiv N' D'"
    using assms(3) ratio_nat [of D D' N N'] by (intro roundDiv_ratio) simp_all
  then show ?thesis using False n' e s s' by (simp add: roundFrac_def)
qed

lemma roundFrac_steps:
  assumes "roundFrac n d = Some (m, e)" "0 < n" "0 < d"
  obtains m0 e0 where "isExp (real n / real d) e0" "\<bar>real n / real d / pow2 e0 - real m0\<bar> \<le> 1 / 2"
    "(m, e) = (if m0 = 2 ^ 53 then (2 ^ 52, e0 + 1) else (m0, e0))" "e \<le> maxExp"
proof -
  obtain N D where s: "scaled n d (expOf n d) = (N, D)" by fastforce
  note v = scaled_val [OF s assms(3)]
  have "(m, e) = (if roundDiv N D = 2 ^ 53 then (2 ^ 52, expOf n d + 1) else (roundDiv N D, expOf n d))" "e \<le> maxExp"
    using assms s by (auto simp: roundFrac_def Let_def split: if_splits)
  with that [of "expOf n d" "roundDiv N D"] expOf_isExp [OF assms(2,3)] roundDiv_near [OF v(1), of N] v(2)
  show thesis by simp
qed

lemma abs_scale: "\<bar>x / p - m\<bar> \<le> 1 / 2 \<Longrightarrow> 0 < p \<Longrightarrow> \<bar>x - m * p\<bar> \<le> p / (2::real)"
proof -
  assume a: "\<bar>x / p - m\<bar> \<le> 1 / 2" and p: "0 < p"
  have "x - m * p = (x / p - m) * p" using p by (simp add: field_simps)
  then have "\<bar>x - m * p\<bar> = \<bar>x / p - m\<bar> * p" using p by (simp add: abs_mult)
  also have "\<dots> \<le> 1 / 2 * p" using a p by (intro mult_right_mono) auto
  finally show ?thesis by simp
qed

lemma roundFrac_near:
  assumes "roundFrac n d = Some f" "0 < d"
  shows "\<bar>real n / real d - valMag f\<bar> \<le> pow2 (snd f) / 2"
proof (cases "n = 0")
  case True
  then show ?thesis using assms by (auto simp: roundFrac_def valMag_def)
next
  case False
  obtain m e where f: "f = (m, e)" by fastforce
  with assms False obtain m0 e0 where r: "\<bar>real n / real d / pow2 e0 - real m0\<bar> \<le> 1 / 2"
    "(m, e) = (if m0 = 2 ^ 53 then (2 ^ 52, e0 + 1) else (m0, e0))"
    using roundFrac_steps [of n d m e] by (metis neq0_conv)
  have "\<bar>real n / real d - real m0 * pow2 e0\<bar> \<le> pow2 e0 / 2" by (rule abs_scale [OF r(1)]) simp
  moreover have "real m * pow2 e = real m0 * pow2 e0" using r(2) by (auto simp: pow2_add split: if_splits)
  moreover have "pow2 e0 \<le> pow2 e" using r(2) by (intro pow2_mono) (auto split: if_splits)
  ultimately show ?thesis by (simp add: f valMag_def)
qed

lemma roundFrac_canon:
  assumes "roundFrac n d = Some f" "0 < d"
  shows "canonMag f"
proof (cases "n = 0")
  case True
  then show ?thesis using assms by (auto simp: roundFrac_def canonMag_def minExp_def maxExp_def)
next
  case False
  obtain m e where f: "f = (m, e)" by fastforce
  with assms False obtain m0 e0 where x: "isExp (real n / real d) e0"
    and r: "\<bar>real n / real d / pow2 e0 - real m0\<bar> \<le> 1 / 2"
    and m: "(m, e) = (if m0 = 2 ^ 53 then (2 ^ 52, e0 + 1) else (m0, e0))" "e \<le> maxExp"
    using roundFrac_steps [of n d m e] by (metis neq0_conv)
  let ?y = "real n / real d / pow2 e0"
  have hi: "?y < 2 ^ 53" and lo: "minExp < e0 \<Longrightarrow> 2 ^ 52 \<le> ?y"
    using x by (simp_all add: isExp_def pos_divide_less_eq [OF pow2_pos] pos_le_divide_eq [OF pow2_pos] del: divide_divide_eq_left)
  have "real m0 < 2 ^ 53 + 1" using hi r by linarith
  then have m0: "m0 \<le> 2 ^ 53" by simp
  have "2 ^ 52 \<le> m0" if "minExp < e0"
  proof -
    have "2 ^ 52 - 1 < real m0" using lo [OF that] r by linarith
    then show ?thesis by simp
  qed
  then show ?thesis using f m m0 x by (auto simp: canonMag_def isExp_def split: if_splits)
qed

text \<open>A number closer to a float than half the gap to its neighbours is rounded to it.\<close>

lemma roundFrac_eq:
  assumes "canonMag (m, e)" "0 < m" "0 < d"
    and near: "\<bar>real n / real d - real m * pow2 e\<bar> < pow2 e / 2"
    and below: "m = 2 ^ 52 \<Longrightarrow> minExp < e \<Longrightarrow> real m * pow2 e - pow2 e / 4 < real n / real d"
  shows "roundFrac n d = Some (m, e)"
proof -
  let ?x = "real n / real d"
  have c: "minExp \<le> e" "e \<le> maxExp" "m < 2 ^ 53" "minExp < e \<Longrightarrow> 2 ^ 52 \<le> m"
    using assms(1) by (auto simp: canonMag_def)
  have "1 * pow2 e \<le> real m * pow2 e" using assms(2) by (intro mult_right_mono) auto
  then have "0 < ?x" using near pow2_pos [of e] by linarith
  then have n: "0 < n" by (simp add: zero_less_divide_iff)
  have top: "?x < 2 ^ 53 * pow2 e"
  proof -
    have "real m \<le> 2 ^ 53 - 1" using c(3) by simp
    then have "real m * pow2 e \<le> (2 ^ 53 - 1) * pow2 e" by (intro mult_right_mono) auto
    then have "real m * pow2 e \<le> 2 ^ 53 * pow2 e - pow2 e" by (simp add: left_diff_distrib)
    then show ?thesis using near pow2_pos [of e] by linarith
  qed
  show ?thesis
  proof (cases "minExp < e \<and> ?x < 2 ^ 52 * pow2 e")
    case False
    then have "expOf n d = e" using n assms(3) c(1) top by (intro expOf_eq) (auto simp: isExp_def)
    moreover obtain N D where s: "scaled n d e = (N, D)" by fastforce
    moreover have "\<bar>real N / real D - real m\<bar> < 1 / 2"
    proof -
      have "real N / real D - real m = (?x - real m * pow2 e) / pow2 e"
        unfolding scaled_val(2) [OF s assms(3)] by (simp add: diff_divide_distrib)
      then have "\<bar>real N / real D - real m\<bar> = \<bar>?x - real m * pow2 e\<bar> / pow2 e" by (simp add: abs_divide)
      then show ?thesis using near by (simp add: divide_less_eq)
    qed
    then have "roundDiv N D = m" using scaled_val(1) [OF s assms(3)] by (intro roundDiv_unique)
    ultimately show ?thesis using n c by (simp add: roundFrac_def)
  next
    case True
    then have m: "m = 2 ^ 52"
    proof -
      have "real m * pow2 e < (2 ^ 52 + 1) * pow2 e"
        using near True pow2_pos [of e] unfolding distrib_right by linarith
      then have "real m < 2 ^ 52 + 1" by simp
      then have "m \<le> 2 ^ 52" by simp
      then show ?thesis using c(4) True by simp
    qed
    let ?e = "e - 1"
    have half: "pow2 e = 2 * pow2 ?e" using pow2_add [of 1 ?e] by simp
    have b: "2 ^ 53 * pow2 ?e - pow2 ?e / 2 < ?x" using below [OF m] True m half by simp
    moreover have "2 ^ 52 * pow2 ?e \<le> 2 ^ 53 * pow2 ?e - pow2 ?e / 2" by simp
    ultimately have "isExp ?x ?e" using True half by (simp add: isExp_def)
    then have "expOf n d = ?e" using n assms(3) by (intro expOf_eq)
    moreover obtain N D where s: "scaled n d ?e = (N, D)" by fastforce
    moreover have "\<bar>real N / real D - real (2 ^ 53)\<bar> < 1 / 2"
    proof -
      have "?x / pow2 ?e < 2 ^ 53" unfolding pos_divide_less_eq [OF pow2_pos] using True half by simp
      moreover have "2 ^ 53 - 1 / 2 < ?x / pow2 ?e"
        unfolding pos_less_divide_eq [OF pow2_pos] left_diff_distrib using b by simp
      ultimately show ?thesis unfolding scaled_val(2) [OF s assms(3)] abs_less_iff of_nat_power of_nat_numeral by linarith
    qed
    then have "roundDiv N D = 2 ^ 53" using scaled_val(1) [OF s assms(3)] by (intro roundDiv_unique)
    ultimately show ?thesis using n c m by (simp add: roundFrac_def)
  qed
qed

lemma roundFrac_exact:
  assumes "canonMag f" "0 < d" "real n / real d = valMag f" "fst f = 0 \<longrightarrow> f = (0, minExp)"
  shows "roundFrac n d = Some f"
proof (cases "fst f = 0")
  case True
  then show ?thesis using assms by (auto simp: roundFrac_def valMag_def)
next
  case False
  then show ?thesis using assms roundFrac_eq [of "fst f" "snd f" d n] by (simp add: valMag_def)
qed

section \<open>Decimals\<close>

abbreviation pow10 :: "int \<Rightarrow> real" where "pow10 p \<equiv> 10 powi p"

definition valDec :: "nat \<times> int \<Rightarrow> real" where
  "valDec d = real (fst d) * pow10 (snd d)"

lemma pow10_pos [simp]: "0 < pow10 p"
  by (simp add: zero_less_power_int)

lemma pow10_nat: "0 \<le> p \<Longrightarrow> pow10 p = 10 ^ nat p"
  by (simp add: power_int_def)

lemma pow10_neg: "p < 0 \<Longrightarrow> pow10 p = 1 / 10 ^ nat (- p)"
  using power_int_minus [of "10::real" "- p"] pow10_nat [of "- p"] by (simp add: inverse_eq_divide)

lemma pow10_add: "pow10 (a + b) = pow10 a * pow10 b"
  by (simp add: power_int_add)

text \<open>Rounding a decimal is rounding a fraction with its value.\<close>

lemma roundDec_frac:
  obtains n d where "0 < d" "roundDec D p = roundFrac n d" "real n / real d = valDec (D, p)"
proof (cases "0 \<le> p")
  case True
  then show thesis using that [of 1 "D * 10 ^ nat p"] by (simp add: roundDec_def valDec_def pow10_nat)
next
  case False
  then show thesis using that [of "10 ^ nat (- p)" D] by (simp add: roundDec_def valDec_def pow10_neg)
qed

lemma roundDyad_frac:
  obtains n d where "0 < d" "roundDyad N e = roundFrac n d" "real n / real d = real N * pow2 e"
proof (cases "0 \<le> e")
  case True
  then show thesis using that [of 1 "N * 2 ^ nat e"] by (simp add: roundDyad_def pow2_nat)
next
  case False
  then show thesis using that [of "2 ^ nat (- e)" N] by (simp add: roundDyad_def pow2_neg)
qed

lemma roundDec_cong: "valDec (D, p) = valDec (D', p') \<Longrightarrow> roundDec D p = roundDec D' p'"
  by (metis roundDec_frac roundFrac_cong)

lemma roundDec_canon: "roundDec D p = Some f \<Longrightarrow> canonMag f"
  by (metis roundDec_frac roundFrac_canon)

lemma roundDec_near: "roundDec D p = Some f \<Longrightarrow> \<bar>valDec (D, p) - valMag f\<bar> \<le> pow2 (snd f) / 2"
  by (metis roundDec_frac roundFrac_near)

definition posMag :: "magnitude \<Rightarrow> bool" where "posMag f \<longleftrightarrow> canonMag f \<and> 0 < fst f"

lemma roundDec_exact: "posMag f \<Longrightarrow> valDec (D, p) = valMag f \<Longrightarrow> roundDec D p = Some f"
  unfolding posMag_def by (metis roundDec_frac roundFrac_exact not_gr_zero)

lemma roundDec_eq:
  assumes "posMag f" "\<bar>valDec (D, p) - valMag f\<bar> < pow2 (snd f) / 2"
    and "fst f = 2 ^ 52 \<Longrightarrow> \<bar>valDec (D, p) - valMag f\<bar> < pow2 (snd f) / 4"
  shows "roundDec D p = Some f"
proof -
  obtain n d where r: "0 < d" "roundDec D p = roundFrac n d" "real n / real d = valDec (D, p)" by (rule roundDec_frac)
  have "roundFrac n d = Some (fst f, snd f)"
  proof (rule roundFrac_eq)
    show "real (fst f) * pow2 (snd f) - pow2 (snd f) / 4 < real n / real d" if "fst f = 2 ^ 52"
      using assms(3) [OF that] unfolding r(3) valMag_def by (simp only: abs_less_iff) linarith
  qed (use assms(1,2) r in \<open>simp_all add: posMag_def valMag_def\<close>)
  then show ?thesis using r(2) by simp
qed

lemma exactDec_val: "valDec (exactDec f) = valMag f"
proof -
  obtain m e where f: "f = (m, e)" by fastforce
  show ?thesis
  proof (cases "0 \<le> e")
    case True
    then show ?thesis by (simp add: f exactDec_def valDec_def valMag_def pow2_nat)
  next
    case False
    have "(10::real) ^ k = 5 ^ k * 2 ^ k" for k by (simp flip: power_mult_distrib)
    with False show ?thesis by (simp add: f exactDec_def valDec_def valMag_def pow2_neg pow10_neg)
  qed
qed

lemma stripZeros_val: "valDec (stripZeros d) = valDec d"
proof (induction d rule: stripZeros.induct)
  case (1 D p)
  show ?case
  proof (cases "D \<noteq> 0 \<and> D mod 10 = 0")
    case True
    then have "real D = 10 * real (D div 10)" by (metis mod_0_imp_dvd dvd_mult_div_cancel of_nat_mult of_nat_numeral)
    then have "valDec (D div 10, p + 1) = valDec (D, p)" by (simp add: valDec_def pow10_add)
    with 1 True show ?thesis by (simp add: stripZeros.simps [of D p])
  next
    case False
    then show ?thesis by (subst stripZeros.simps) auto
  qed
qed

lemma decLen_bounds: "0 < n \<Longrightarrow> 10 ^ (decLen n - 1) \<le> n \<and> n < 10 ^ decLen n \<and> 0 < decLen n"
proof (induction n rule: natDec.induct)
  case (1 n)
  show ?case
  proof (cases "n < 10")
    case True
    then show ?thesis using "1.prems" by (simp add: decLen_def natDec.simps [of n])
  next
    case False
    then have IH: "10 ^ (decLen (n div 10) - 1) \<le> n div 10" "n div 10 < 10 ^ decLen (n div 10)" "0 < decLen (n div 10)"
      using "1.IH" by auto
    have l: "decLen n = Suc (decLen (n div 10))" using False by (simp add: decLen_def natDec.simps [of n])
    have "10 * 10 ^ (decLen (n div 10) - 1) \<le> 10 * (n div 10)" using IH(1) by simp
    moreover have "10 * 10 ^ (decLen (n div 10) - 1) = (10::nat) ^ decLen (n div 10)" using IH(3) by (cases "decLen (n div 10)") auto
    ultimately have "10 ^ decLen (n div 10) \<le> n" by simp
    moreover have "n < 10 * 10 ^ decLen (n div 10)" using IH(2) by simp
    ultimately show ?thesis using l by simp
  qed
qed

text \<open>
  A float is read back from its 17-digit decimal: that is less than half the gap to the
  neighbouring floats away from it.
\<close>

lemma posMag_gap:
  assumes "posMag f" "\<bar>x - valMag f\<bar> \<le> valMag f / (2 * 10 ^ 16)"
  shows "\<bar>x - valMag f\<bar> < pow2 (snd f) / 2" "fst f = 2 ^ 52 \<Longrightarrow> \<bar>x - valMag f\<bar> < pow2 (snd f) / 4"
proof -
  let ?p = "pow2 (snd f)"
  have "real (fst f) \<le> 2 ^ 53" using assms(1) by (auto simp: posMag_def canonMag_def split: prod.splits)
  then have "valMag f \<le> 2 ^ 53 * ?p" unfolding valMag_def by (intro mult_right_mono) auto
  moreover have "2 ^ 53 * ?p < 10 ^ 16 * ?p" by simp
  ultimately have "valMag f < 10 ^ 16 * ?p" by linarith
  then have "valMag f / (2 * 10 ^ 16) < ?p / 2" by (simp add: divide_less_eq)
  then show "\<bar>x - valMag f\<bar> < ?p / 2" using assms(2) by simp
  assume "fst f = 2 ^ 52"
  then have "valMag f = 2 ^ 52 * ?p" by (simp add: valMag_def)
  then have "valMag f / (2 * 10 ^ 16) < ?p / 4" using pow2_pos [of "snd f"] by simp
  then show "\<bar>x - valMag f\<bar> < ?p / 4" using assms(2) by simp
qed

lemma decimalAt_17:
  assumes "posMag f"
  shows "decimalAt f 17 \<noteq> None"
proof -
  obtain I q where d: "exactDec f = (I, q)" by fastforce
  let ?L = "decLen I"
  have v: "valMag f = real I * pow10 q" using exactDec_val [of f] d by (simp add: valDec_def)
  have "0 < valMag f" using assms by (simp add: posMag_def valMag_def)
  then have I: "0 < I" using v by (simp add: zero_less_mult_iff)
  note L = decLen_bounds [OF I]
  show ?thesis
  proof (cases "?L \<le> 17")
    case True
    then show ?thesis by (simp add: decimalAt_def d)
  next
    case False
    define t where "t = (10::nat) ^ (?L - 17)"
    define lo where "lo = I div t"
    define p where "p = q + int (?L - 17)"
    have t: "0 < t" by (simp add: t_def)
    have cut: "lo * t \<le> I" "I < Suc lo * t" unfolding lo_def using t
      by (simp_all add: div_times_less_eq_dividend dividend_less_div_times)
    have "t * 10 ^ 16 = 10 ^ (?L - 1)" unfolding t_def power_add [symmetric] using False by simp
    then have "t * 10 ^ 16 \<le> I" using L by simp
    then have t16: "real t * 10 ^ 16 \<le> real I" by (metis of_nat_le_iff of_nat_mult of_nat_numeral of_nat_power)
    have val: "valDec (D, p) = real D * real t * pow10 q" for D
      by (simp add: valDec_def p_def t_def pow10_add)
    have near: "roundDec D p = Some f" if D: "\<bar>real D * real t - real I\<bar> \<le> real t / 2" for D
    proof -
      have "\<bar>valDec (D, p) - valMag f\<bar> = \<bar>real D * real t - real I\<bar> * pow10 q"
        unfolding val v by (simp add: left_diff_distrib [symmetric] abs_mult)
      also have "\<dots> \<le> real I / (2 * 10 ^ 16) * pow10 q"
        using D t16 by (intro mult_right_mono) simp_all
      finally have "\<bar>valDec (D, p) - valMag f\<bar> \<le> valMag f / (2 * 10 ^ 16)" by (simp add: v)
      from roundDec_eq [OF assms posMag_gap [OF assms this]] show ?thesis .
    qed
    have "real lo * real t \<le> real I" "real I < real (Suc lo) * real t"
      using cut by (metis of_nat_le_iff of_nat_mult, metis of_nat_less_iff of_nat_mult)
    then have "\<bar>real lo * real t - real I\<bar> \<le> real t / 2 \<or> \<bar>real (Suc lo) * real t - real I\<bar> \<le> real t / 2"
      unfolding of_nat_Suc distrib_right by linarith
    with near have "roundDec lo p = Some f \<or> roundDec (Suc lo) p = Some f" by blast
    then show ?thesis
      using False unfolding decimalAt_def d Let_def t_def lo_def p_def by auto
  qed
qed

lemma decimalAt_reads:
  assumes "posMag f" "decimalAt f k = Some (D, p)"
  shows "roundDec D p = Some f"
proof -
  obtain I q where d: "exactDec f = (I, q)" by fastforce
  have exact: "roundDec I q = Some f" using roundDec_exact [OF assms(1)] exactDec_val [of f] d by simp
  have "roundDiv I t = I div t \<or> roundDiv I t = Suc (I div t)" for t by (simp add: roundDiv_def Let_def)
  then show ?thesis using assms(2) exact
    unfolding decimalAt_def d Let_def by (auto split: if_splits) (metis | argo)+
qed

lemma shortestDec_reads:
  assumes "posMag f"
  shows "roundDec (fst (shortestDec f)) (snd (shortestDec f)) = Some f"
proof -
  have "\<exists>k \<in> set [1..<18]. decimalAt f k \<noteq> None"
    using decimalAt_17 [OF assms] by (intro bexI [of _ 17]) simp_all
  then have "List.find (\<lambda>k. decimalAt f k \<noteq> None) [1..<18] \<noteq> None" unfolding find_None_iff by blast
  then obtain k where k: "List.find (\<lambda>k. decimalAt f k \<noteq> None) [1..<18] = Some k" by blast
  then have "decimalAt f k \<noteq> None" unfolding find_Some_iff by blast
  then obtain D p where d: "decimalAt f k = Some (D, p)" by fastforce
  have s: "shortestDec f = stripZeros (D, p)" using k d by (simp add: shortestDec_def)
  have "valDec (fst (shortestDec f), snd (shortestDec f)) = valDec (D, p)"
    unfolding s by (simp add: stripZeros_val)
  then show ?thesis using roundDec_cong decimalAt_reads [OF assms d] by metis
qed

text \<open>The decimal that is printed has no trailing zeros and is not zero.\<close>

lemma shortestDec_pos:
  assumes "posMag f"
  shows "0 < fst (shortestDec f)"
proof (rule ccontr)
  assume "\<not> 0 < fst (shortestDec f)"
  then have "fst (shortestDec f) = 0" by simp
  then have "roundDec 0 (snd (shortestDec f)) = Some f" using shortestDec_reads [OF assms] by simp
  then have "Some f = Some (0, minExp)" by (simp add: roundDec_def roundFrac_def split: if_splits)
  then show False using assms by (simp add: posMag_def)
qed

section \<open>Printing and reading\<close>

lemma natDec_isDigit: "c \<in> set (natDec n) \<Longrightarrow> isDigit c"
  using natDec_digits by (fastforce simp: isDigit_def)

lemma zeros_isDigit: "c \<in> set (zeros n) \<Longrightarrow> isDigit c"
  by (auto simp: zeros_def isDigit_def digitVal_def)

lemma take_all_digits: "\<forall>c \<in> set s. isDigit c \<Longrightarrow> (t = [] \<or> \<not> isDigit (hd t)) \<Longrightarrow>
    takeWhile isDigit (s @ t) = s \<and> dropWhile isDigit (s @ t) = t"
  by (induction s) (cases t; auto)+

lemma punct_noDigit [simp]: "\<not> isDigit (CHR ''.'')" "\<not> isDigit (CHR ''e'')" "\<not> isDigit (CHR ''-'')" "\<not> isDigit (CHR ''+'')"
  by (simp_all add: isDigit_def digitVal_def)

lemma litFloat_parts:
  assumes "takeWhile isDigit s = i" "i \<noteq> []" "litFrac (dropWhile isDigit s) = (f, x)" "parseDigits 0 (i @ f) = Some D"
  shows "litFloat s = map_option (Pair False) (roundDec D (litExp x - int (length f)))"
proof -
  obtain c r where "s = c # r" "isDigit c" using assms(1,2) by (cases s) (auto split: if_splits)
  then have "(case s of c # _ \<Rightarrow> c = CHR ''-'' | [] \<Rightarrow> False) = False" by auto
  then show ?thesis unfolding litFloat_def Let_def using assms by (simp only: if_False assms prod.case option.case)
qed

text \<open>The digits \<open>ds\<close> before the point and \<open>fs\<close> after it.\<close>

definition withFrac :: "string \<Rightarrow> string \<Rightarrow> string" where
  "withFrac fs t = (if fs = [] then t else CHR ''.'' # fs @ t)"

lemma litFrac_with:
  assumes "\<forall>c \<in> set fs. isDigit c" "t = [] \<or> \<not> isDigit (hd t) \<and> hd t \<noteq> CHR ''.''"
  shows "litFrac (withFrac fs t) = (fs, t)"
  using take_all_digits [OF assms(1), of t] assms(2) by (cases t) (auto simp: litFrac_def withFrac_def)

lemma litFloat_digits:
  assumes "\<forall>c \<in> set ds. isDigit c" "\<forall>c \<in> set fs. isDigit c" "ds \<noteq> []" "parseDigits 0 (ds @ fs) = Some D"
    and "t = [] \<or> \<not> isDigit (hd t) \<and> hd t \<noteq> CHR ''.''"
  shows "litFloat (ds @ withFrac fs t) = map_option (Pair False) (roundDec D (litExp t - int (length fs)))"
proof (rule litFloat_parts)
  have "withFrac fs t = [] \<or> \<not> isDigit (hd (withFrac fs t))" using assms(5) by (auto simp: withFrac_def)
  note d = take_all_digits [OF assms(1) this]
  show "takeWhile isDigit (ds @ withFrac fs t) = ds" using d by blast
  show "litFrac (dropWhile isDigit (ds @ withFrac fs t)) = (fs, t)" using d litFrac_with [OF assms(2,5)] by simp
qed (use assms in simp_all)

lemma litFloat_fixed:
  assumes "\<forall>c \<in> set ds. isDigit c" "\<forall>c \<in> set fs. isDigit c" "ds \<noteq> []" "parseDigits 0 (ds @ fs) = Some D"
  shows "litFloat (ds @ withFrac fs []) = map_option (Pair False) (roundDec D (- int (length fs)))"
  using litFloat_digits [OF assms, of "[]"] by (simp add: litExp_def)

lemma capExp_digits: "parseDigits acc s = Some n \<Longrightarrow> n < 100000 \<Longrightarrow> capExp acc s = n"
proof (induction acc s rule: capExp.induct)
  case (1 acc)
  then show ?case by simp
next
  case (2 acc c s)
  then obtain d where d: "digitVal c = Some d" "parseDigits (10 * acc + d) s = Some n" by (auto split: option.splits)
  have mono: "a \<le> m" if "parseDigits a s = Some m" for a m and s :: string
    using that by (induction a s rule: parseDigits.induct) (auto split: option.splits intro: le_trans)
  have "10 * acc + d \<le> n" using mono d(2) by blast
  then have "acc < 10000" using "2.prems"(2) by simp
  with 2 d show ?case by simp
qed

lemma litExp_printed: "n < 100000 \<Longrightarrow> sg = CHR ''-'' \<or> sg = CHR ''+'' \<Longrightarrow>
    litExp (CHR ''e'' # sg # natDec n) = (if sg = CHR ''-'' then - int n else int n)"
  using capExp_digits [OF parseDigits_natDec, of n] by (auto simp: litExp_def)

lemma formatF_reads:
  assumes "0 < D"
  shows "litFloat (formatF (D, p)) = map_option (Pair False) (roundDec D p)"
proof -
  let ?ds = "natDec D" and ?n = "int (length (natDec D))"
  have dig: "\<forall>c \<in> set ?ds. isDigit c" using natDec_isDigit by blast
  have zd: "\<forall>c \<in> set (zeros k). isDigit c" for k using zeros_isDigit by blast
  consider (int) "0 \<le> p" | (mid) "p < 0" "0 < ?n + p" | (small) "p < 0" "?n + p \<le> 0" by linarith
  then show ?thesis
  proof cases
    case int
    have "parseDigits 0 (?ds @ zeros (nat p)) = Some (D * 10 ^ nat p)"
      by (simp add: parseDigits_append zeros_def parseDigits_zeros)
    then have "litFloat (?ds @ zeros (nat p)) = map_option (Pair False) (roundDec (D * 10 ^ nat p) 0)"
      using litFloat_fixed [of "?ds @ zeros (nat p)" "[]"] dig zd by (auto simp: withFrac_def)
    moreover have "roundDec (D * 10 ^ nat p) 0 = roundDec D p"
      using int by (intro roundDec_cong) (simp add: valDec_def pow10_nat)
    ultimately show ?thesis using int by (simp add: formatF_def Let_def)
  next
    case mid
    let ?k = "nat (?n + p)"
    have k: "?k < length ?ds" "0 < ?k" using mid by simp_all
    then have ne: "take ?k ?ds \<noteq> []" "drop ?k ?ds \<noteq> []" by auto
    have "- int (length (drop ?k ?ds)) = p" using mid by simp
    then show ?thesis
      using litFloat_fixed [of "take ?k ?ds" "drop ?k ?ds" D] dig ne mid
      by (auto simp: formatF_def Let_def withFrac_def dest: in_set_takeD in_set_dropD)
  next
    case small
    let ?z = "zeros (nat (- (?n + p)))"
    have "parseDigits 0 (''0'' @ ?z @ ?ds) = Some D"
      by (simp add: parseDigits_append zeros_def parseDigits_zeros digitVal_def)
    moreover have "- int (length (?z @ ?ds)) = p" using small by (simp add: zeros_def)
    ultimately show ?thesis
      using litFloat_fixed [of "''0''" "?z @ ?ds" D] dig zd small
      by (auto simp: formatF_def Let_def withFrac_def isDigit_def digitVal_def)
  qed
qed

lemma formatE_reads:
  assumes "0 < D" "\<bar>int (length (natDec D)) + p - 1\<bar> < 100000"
  shows "litFloat (formatE (D, p)) = map_option (Pair False) (roundDec D p)"
proof -
  let ?x = "int (length (natDec D)) + p - 1"
  obtain c fs where ds: "natDec D = c # fs" by (cases "natDec D") auto
  then have dig: "isDigit c" "\<forall>x \<in> set fs. isDigit x" using natDec_isDigit [of _ D] by auto
  have d: "parseDigits 0 (c # fs) = Some D" using parseDigits_natDec [of D] ds by metis
  let ?sg = "if ?x < 0 then CHR ''-'' else CHR ''+''"
  have n: "nat \<bar>?x\<bar> < 100000" using assms(2) by linarith
  have sg: "?sg = CHR ''-'' \<or> ?sg = CHR ''+''" by simp
  have "formatE (D, p) = [c] @ withFrac fs (CHR ''e'' # ?sg # natDec (nat \<bar>?x\<bar>))"
    by (simp add: formatE_def Let_def ds withFrac_def)
  moreover have "litFloat ([c] @ withFrac fs (CHR ''e'' # ?sg # natDec (nat \<bar>?x\<bar>))) =
      map_option (Pair False) (roundDec D (litExp (CHR ''e'' # ?sg # natDec (nat \<bar>?x\<bar>)) - int (length fs)))"
    using dig d by (intro litFloat_digits) auto
  moreover have "litExp (CHR ''e'' # ?sg # natDec (nat \<bar>?x\<bar>)) - int (length fs) = p"
    unfolding litExp_printed [OF n sg] using ds by auto
  ultimately show ?thesis by simp
qed

text \<open>The exponent of a printed float has at most three digits.\<close>

lemma shortestDec_exponent:
  assumes "posMag f" "shortestDec f = (D, p)"
  shows "\<bar>int (length (natDec D)) + p - 1\<bar> < 100000"
proof -
  let ?x = "int (decLen D) + p - 1"
  have D: "0 < D" using shortestDec_pos [OF assms(1)] assms(2) by simp
  have near: "\<bar>valDec (D, p) - valMag f\<bar> \<le> pow2 (snd f) / 2"
    using roundDec_near shortestDec_reads [OF assms(1)] assms(2) by fastforce
  have m: "1 \<le> real (fst f)" "real (fst f) \<le> 2 ^ 53" and e: "minExp \<le> snd f" "snd f \<le> maxExp"
    using assms(1) by (auto simp: posMag_def canonMag_def split: prod.splits)
  have "1 * pow2 (snd f) \<le> valMag f" "valMag f \<le> 2 ^ 53 * pow2 (snd f)"
    unfolding valMag_def using m by (intro mult_right_mono; simp)+
  moreover have "2 ^ 53 * pow2 (snd f) + pow2 (snd f) / 2 \<le> 2 ^ 54 * pow2 (snd f)" by simp
  ultimately have v: "pow2 (snd f) / 2 \<le> valDec (D, p)" "valDec (D, p) \<le> 2 ^ 54 * pow2 (snd f)"
    using near by linarith+
  have p: "pow2 minExp \<le> pow2 (snd f)" "pow2 (snd f) \<le> pow2 maxExp" using e pow2_mono by blast+
  have lo: "1 / 10 ^ 400 \<le> valDec (D, p)"
  proof -
    have "(1::real) / 10 ^ 400 \<le> 1 / 2 ^ 1074 / 2" by simp
    also have "(1::real) / 2 ^ 1074 = pow2 minExp" by (simp add: minExp_def pow2_neg)
    finally show ?thesis using p v by linarith
  qed
  have hi: "valDec (D, p) \<le> 10 ^ 400"
  proof -
    have "2 ^ 54 * pow2 (snd f) \<le> 2 ^ 54 * pow2 maxExp" using p by simp
    also have "\<dots> = 2 ^ 54 * 2 ^ 971" by (simp add: maxExp_def pow2_nat)
    also have "\<dots> \<le> (10::real) ^ 400" by simp
    finally show ?thesis using v(2) by (rule order_trans [rotated])
  qed
  have b: "10 ^ (decLen D - 1) \<le> real D" "real D < 10 ^ decLen D" and L: "0 < decLen D"
    using decLen_bounds [OF D] by (metis of_nat_le_iff of_nat_numeral of_nat_power, metis of_nat_less_iff of_nat_numeral of_nat_power, blast)
  have "pow10 ?x = 10 ^ (decLen D - 1) * pow10 p" and "pow10 (?x + 1) = 10 ^ decLen D * pow10 p"
    using L pow10_add [of "int (decLen D) - 1" p] pow10_add [of "int (decLen D)" p]
    by (simp_all add: pow10_nat nat_diff_distrib algebra_simps)
  with b have s: "pow10 ?x \<le> valDec (D, p)" "valDec (D, p) < pow10 (?x + 1)"
    by (simp_all add: valDec_def)
  have "?x \<le> 400"
  proof (rule ccontr)
    assume "\<not> ?x \<le> 400"
    then have "pow10 401 \<le> pow10 ?x" by (intro power_int_increasing) auto
    moreover have "(10::real) ^ 400 < pow10 401" by simp
    ultimately show False using s hi by linarith
  qed
  moreover have "- 401 \<le> ?x"
  proof (rule ccontr)
    assume "\<not> - 401 \<le> ?x"
    then have "pow10 (?x + 1) \<le> pow10 (- 401)" by (intro power_int_increasing) auto
    moreover have "pow10 (- 401) < 1 / 10 ^ 400" by (simp add: pow10_neg)
    ultimately show False using s lo by linarith
  qed
  ultimately show ?thesis by (simp add: decLen_def)
qed

definition floatMag :: "magnitude \<Rightarrow> bool" where
  "floatMag f \<longleftrightarrow> posMag f \<or> f = (0, minExp)"

text \<open>What encoding/json prints for a float64 is read back as the same float64.\<close>

lemma litFloat_neg: "litFloat (CHR ''-'' # s) = map_option (\<lambda>(n, f). (True, f)) (litFloat s)" if "s = [] \<or> hd s \<noteq> CHR ''-''"
  using that by (cases s) (auto simp: litFloat_def Let_def option.map_comp comp_def split: option.splits prod.splits)

lemma jsonFloat_reads:
  assumes "floatMag f"
  shows "litFloat (jsonFloat neg f) = Some (neg, f)"
proof -
  have pos: "litFloat (jsonFloat False f) = Some (False, f)"
  proof (cases "fst f = 0")
    case True
    then have "f = (0, minExp)" using assms by (auto simp: floatMag_def posMag_def)
    then show ?thesis
      by (simp add: jsonFloat_def litFloat_def litFrac_def litExp_def roundDec_def roundFrac_def isDigit_def digitVal_def)
  next
    case False
    then have f: "posMag f" using assms by (auto simp: floatMag_def)
    obtain D p where d: "shortestDec f = (D, p)" by fastforce
    have "0 < D" "roundDec D p = Some f" using shortestDec_pos [OF f] shortestDec_reads [OF f] d by simp_all
    then show ?thesis
      using False formatF_reads [of D p] formatE_reads [of D p] shortestDec_exponent [OF f d] by (simp add: jsonFloat_def d)
  qed
  moreover have "jsonFloat False f = [] \<or> hd (jsonFloat False f) \<noteq> CHR ''-''"
    using pos by (cases "jsonFloat False f") (auto simp: litFloat_def Let_def split: option.splits prod.splits)
  moreover have "jsonFloat True f = CHR ''-'' # jsonFloat False f" by (simp add: jsonFloat_def)
  ultimately show ?thesis using litFloat_neg [of "jsonFloat False f"] by (cases neg) simp_all
qed

section \<open>Whole numbers\<close>

lemma lessMag_val: "lessMag f g \<longleftrightarrow> valMag f < valMag g"
proof -
  obtain m1 e1 m2 e2 where fg: "f = (m1, e1)" "g = (m2, e2)" by fastforce
  let ?e = "min e1 e2"
  have s: "real (m * 2 ^ nat (e - ?e)) * pow2 ?e = real m * pow2 e" if "?e \<le> e" for m e
    using that pow2_add [of "e - ?e" ?e] by (simp add: pow2_nat)
  have "lessMag f g \<longleftrightarrow> real (m1 * 2 ^ nat (e1 - ?e)) < real (m2 * 2 ^ nat (e2 - ?e))"
    unfolding lessMag_def Let_def fg prod.case by (rule of_nat_less_iff [symmetric])
  also have "\<dots> \<longleftrightarrow> real (m1 * 2 ^ nat (e1 - ?e)) * pow2 ?e < real (m2 * 2 ^ nat (e2 - ?e)) * pow2 ?e" by simp
  also have "\<dots> \<longleftrightarrow> valMag f < valMag g"
    unfolding s [of e1 m1, OF min.cobounded1] s [of e2 m2, OF min.cobounded2] by (simp add: fg valMag_def)
  finally show ?thesis .
qed

lemma format_limits:
  "roundDec 1 (- 6) = Some (4722366482869645, - 72)" "roundDec 1 21 = Some (7629394531250000, 17)"
proof -
  show "roundDec 1 (- 6) = Some (4722366482869645, - 72)"
    by (rule roundDec_eq) (simp_all add: posMag_def canonMag_def minExp_def maxExp_def valDec_def valMag_def pow10_neg pow2_neg)
  show "roundDec 1 21 = Some (7629394531250000, 17)"
    by (rule roundDec_exact) (simp_all add: posMag_def canonMag_def minExp_def maxExp_def valDec_def valMag_def pow10_nat pow2_nat)
qed

lemma natDec_zeros: "0 < D \<Longrightarrow> natDec (D * 10 ^ p) = natDec D @ zeros p"
proof (induction p)
  case 0
  then show ?case by (simp add: zeros_def)
next
  case (Suc p)
  have "natDec (D * 10 ^ Suc p) = natDec (D * 10 ^ p) @ [digitChar 0]"
    using Suc.prems by (subst natDec.simps) simp
  then show ?case using Suc by (simp add: zeros_def replicate_append_same)
qed

text \<open>The float of a whole number below 2 ^ 53 is exact.\<close>

lemma roundFrac_int:
  assumes "0 < k" "k < 2 ^ 53"
  obtains f where "roundFrac k 1 = Some f" "posMag f" "valMag f = real k" "snd f \<le> 0"
proof -
  obtain j where j: "isExp (real k / real 1) j" using expOf_isExp [of k 1] assms(1) by auto
  then have "j \<le> 0"
  proof -
    have "real k < 2 ^ 53" using assms(2) by (metis of_nat_less_iff of_nat_numeral of_nat_power)
    moreover have "2 ^ 52 * 2 \<le> real k" if "1 \<le> j"
      using pow2_mono [OF that] j that by (simp add: isExp_def minExp_def)
    ultimately show ?thesis by (cases "1 \<le> j") auto
  qed
  let ?m = "k * 2 ^ nat (- j)"
  have v: "real ?m * pow2 j = real k"
  proof -
    have "real (2 ^ nat (- j)) * pow2 j = 1" using \<open>j \<le> 0\<close> by (cases "j = 0") (simp_all add: pow2_neg)
    then show ?thesis by (simp add: mult.assoc)
  qed
  have "canonMag (?m, j)"
  proof -
    have "real ?m * pow2 j < 2 ^ 53 * pow2 j" "minExp < j \<Longrightarrow> 2 ^ 52 * pow2 j \<le> real ?m * pow2 j"
      using j unfolding v isExp_def by simp_all
    then have "real ?m < 2 ^ 53" "minExp < j \<Longrightarrow> 2 ^ 52 \<le> real ?m" by simp_all
    then have "?m < 2 ^ 53" "minExp < j \<Longrightarrow> 2 ^ 52 \<le> ?m"
      by (metis of_nat_less_iff of_nat_numeral of_nat_power, metis of_nat_le_iff of_nat_numeral of_nat_power)
    then show ?thesis using j \<open>j \<le> 0\<close> by (simp add: canonMag_def isExp_def maxExp_def)
  qed
  then have "posMag (?m, j)" "valMag (?m, j) = real k" using assms(1) v by (simp_all add: posMag_def valMag_def)
  moreover have "roundFrac k 1 = Some (?m, j)"
    using calculation by (intro roundFrac_exact) (simp_all add: posMag_def)
  ultimately show thesis using that \<open>j \<le> 0\<close> by simp
qed

lemma stripZeros_mono: "snd d \<le> snd (stripZeros d)"
proof (induction d rule: stripZeros.induct)
  case (1 D p)
  then show ?case by (subst stripZeros.simps) force
qed

lemma find_least:
  assumes "a \<le> i" "i < b" "P i"
  shows "\<exists>j. List.find P [a..<b] = Some j \<and> P j \<and> j \<le> i"
proof -
  have "List.find P [a..<b] \<noteq> None" unfolding find_None_iff using assms by auto
  then obtain j where j: "List.find P [a..<b] = Some j" by blast
  then obtain n where n: "n < b - a" "P j" "j = a + n" "\<forall>m < n. \<not> P (a + m)"
    unfolding find_Some_iff by auto
  have "j \<le> i"
  proof (rule ccontr)
    assume "\<not> j \<le> i"
    then have "i - a < n" using n(3) assms(1) by linarith
    then have "\<not> P (a + (i - a))" using n(4) by blast
    then show False using assms by simp
  qed
  then show ?thesis using j n(2) by blast
qed

lemma shortestDec_int:
  assumes "posMag f" "valMag f = real k" "snd f \<le> 0"
  shows "formatF (shortestDec f) = natDec k"
proof -
  obtain I q where d: "exactDec f = (I, q)" by fastforce
  have q: "q \<le> 0" using d assms(3) by (cases f) (auto simp: exactDec_def split: if_splits)
  have k: "0 < k" using assms(1,2) by (cases "k = 0") (auto simp: posMag_def valMag_def)
  have "real I * pow10 q = real k" using exactDec_val [of f] d assms(2) by (simp add: valDec_def)
  then have "real I = real k * 10 ^ nat (- q)" using q by (cases "q = 0") (auto simp: pow10_neg field_simps)
  then have I: "I = k * 10 ^ nat (- q)" by (metis of_nat_eq_iff of_nat_mult of_nat_numeral of_nat_power)
  then have L: "decLen I = decLen k + nat (- q)" using natDec_zeros [OF k] by (simp add: decLen_def zeros_def)
  have "decLen k < 18"
  proof -
    have "real (fst f) < 2 ^ 53" using assms(1) by (auto simp: posMag_def canonMag_def split: prod.splits)
    then have "real (fst f) * pow2 (snd f) < 2 ^ 53 * pow2 (snd f)" by simp
    moreover have "2 ^ 53 * pow2 (snd f) \<le> 2 ^ 53 * (1::real)" using pow2_mono [OF assms(3)] by simp
    ultimately have "real k < 2 ^ 53" unfolding assms(2) [symmetric] valMag_def by linarith
    then have "k < 10 ^ 16" by simp
    then have "10 ^ (decLen k - 1) < (10::nat) ^ 16" using decLen_bounds [OF k] by linarith
    then have "decLen k - 1 < 16" by (metis one_less_numeral_iff power_less_imp_less_exp semiring_norm(76))
    then show ?thesis by simp
  qed
  moreover have "decimalAt f (decLen k) \<noteq> None"
  proof -
    have "roundDec k 0 = Some f" using roundDec_exact [OF assms(1), of k 0] assms(2) by (simp add: valDec_def)
    then show ?thesis using L q I by (auto simp: decimalAt_def d Let_def)
  qed
  moreover have "1 \<le> decLen k" using decLen_bounds [OF k] by simp
  ultimately obtain j where j: "List.find (\<lambda>j. decimalAt f j \<noteq> None) [1..<18] = Some j" "decimalAt f j \<noteq> None" "j \<le> decLen k"
    using find_least [of 1 "decLen k" 18 "\<lambda>j. decimalAt f j \<noteq> None"] by blast
  then obtain D p where dp: "decimalAt f j = Some (D, p)" by auto
  then have p: "0 \<le> p" using dp L q j(3) by (auto simp: decimalAt_def d Let_def split: if_splits)
  obtain D' p' where s: "shortestDec f = (D', p')" "stripZeros (D, p) = (D', p')"
    using j dp by (cases "stripZeros (D, p)") (simp add: shortestDec_def)
  have p': "0 \<le> p'" using stripZeros_mono [of "(D, p)"] s(2) p by simp
  have "real (D' * 10 ^ nat p') = valDec (D', p')" using p' by (simp add: valDec_def pow10_nat)
  moreover have "\<bar>valDec (D', p') - real k\<bar> \<le> pow2 (snd f) / 2"
    using roundDec_near shortestDec_reads [OF assms(1)] s(1) assms(2) by fastforce
  moreover have "pow2 (snd f) \<le> 1" using pow2_mono [OF assms(3)] by simp
  ultimately have "\<bar>real (D' * 10 ^ nat p') - real k\<bar> < 1" by linarith
  then have "D' * 10 ^ nat p' = k" by linarith
  moreover have "0 < D'" using calculation k by (cases D') auto
  ultimately show ?thesis using natDec_zeros [of D' "nat p'"] p' by (simp add: s(1) formatF_def)
qed

lemma jsonFloat_int:
  assumes "posMag f" "valMag f = real k" "snd f \<le> 0" "k < 2 ^ 53"
  shows "jsonFloat False f = natDec k"
proof -
  have k: "1 \<le> real k" using assms(1,2) by (cases "k = 0") (auto simp: posMag_def valMag_def)
  have "real k < 2 ^ 53" using assms(4) by (metis of_nat_less_iff of_nat_numeral of_nat_power)
  then have "\<not> lessMag f (the (roundDec 1 (- 6)))" "lessMag f (the (roundDec 1 21))"
    using k unfolding lessMag_val assms(2) format_limits by (simp_all add: valMag_def pow2_neg pow2_nat)
  then show ?thesis using assms(1) shortestDec_int [OF assms(1-3)] by (simp add: jsonFloat_def posMag_def)
qed

section \<open>Seconds\<close>

lemma roundFrac_error:
  assumes "0 < d" "real n / real d < pow2 k" "minExp \<le> k - 53" "k \<le> 1000"
  obtains f where "roundFrac n d = Some f" "\<bar>real n / real d - valMag f\<bar> \<le> pow2 (k - 54)"
proof (cases "n = 0")
  case True
  then show thesis using that [of "(0, minExp)"] by (simp add: roundFrac_def valMag_def)
next
  case False
  let ?x = "real n / real d" and ?e = "expOf n d"
  have x: "isExp ?x ?e" using expOf_isExp False assms(1) by simp
  have e: "?e \<le> k - 53"
  proof (rule ccontr)
    assume e: "\<not> ?e \<le> k - 53"
    then have "pow2 (k - 52) \<le> pow2 ?e" by (intro pow2_mono) simp
    then have "2 ^ 52 * pow2 (k - 52) \<le> ?x" using x e assms(3) by (simp add: isExp_def)
    moreover have "2 ^ 52 * pow2 (k - 52) = pow2 k" using pow2_add [of 52 "k - 52"] by (simp add: pow2_nat)
    ultimately show False using assms(2) by simp
  qed
  obtain N D where s: "scaled n d ?e = (N, D)" by fastforce
  note v = scaled_val [OF s assms(1)]
  define m where "m = roundDiv N D"
  define f where "f = (if m = 2 ^ 53 then (2 ^ 52, ?e + 1) else (m, ?e))"
  have "roundFrac n d = Some f"
    using False s e assms(4) by (auto simp: roundFrac_def Let_def m_def f_def maxExp_def)
  moreover have "valMag f = real m * pow2 ?e" by (auto simp: f_def valMag_def pow2_add)
  moreover have "\<bar>?x - real m * pow2 ?e\<bar> \<le> pow2 ?e / 2"
    using roundDiv_near [OF v(1), of N] unfolding v(2) m_def by (intro abs_scale) simp_all
  moreover have "pow2 ?e / 2 \<le> pow2 (k - 54)"
    using pow2_mono [OF e] pow2_add [of 1 "k - 54"] by simp
  ultimately show thesis using that [of f] by simp
qed

lemma addMag_val:
  obtains n d where "0 < d" "addMag f g = roundFrac n d" "real n / real d = valMag f + valMag g"
proof -
  obtain m1 e1 m2 e2 where fg: "f = (m1, e1)" "g = (m2, e2)" by fastforce
  let ?e = "min e1 e2"
  let ?N = "m1 * 2 ^ nat (e1 - ?e) + m2 * 2 ^ nat (e2 - ?e)"
  obtain n d where r: "0 < d" "roundDyad ?N ?e = roundFrac n d" "real n / real d = real ?N * pow2 ?e"
    by (rule roundDyad_frac)
  have s: "real (m * 2 ^ nat (e - ?e)) * pow2 ?e = real m * pow2 e" if "?e \<le> e" for m e
    using that pow2_add [of "e - ?e" ?e] by (simp add: pow2_nat)
  have "real ?N * pow2 ?e = valMag f + valMag g"
    unfolding of_nat_add distrib_right s [OF min.cobounded1] s [OF min.cobounded2] by (simp add: fg valMag_def)
  then show thesis using that [OF r(1), of n] r by (simp add: addMag_def fg Let_def)
qed

text \<open>
  The seconds of a duration shorter than 2 ^ k seconds, with an error of at most half the last of
  the 53 bits, and a remainder from the division.
\<close>

lemma secondsMag_error:
  assumes "real (nat \<bar>d\<bar>) / 10 ^ 9 < pow2 k" "1 \<le> k" "k \<le> 34"
  obtains f where "secondsMag d = Some f" "\<bar>real (nat \<bar>d\<bar>) / 10 ^ 9 - valMag f\<bar> \<le> pow2 (k - 53) + pow2 (- 54)"
proof -
  let ?a = "nat \<bar>d\<bar>"
  let ?s = "?a div 1000000000" and ?r = "?a mod 1000000000"
  have split: "real ?a / 10 ^ 9 = real ?s + real ?r / 10 ^ 9" using div_real [of 1000000000 ?a] by simp
  have k34: "pow2 k \<le> 2 ^ 34" using pow2_mono [OF assms(3)] by (simp add: pow2_nat)
  have "0 \<le> real ?r / 10 ^ 9" by simp
  then have s_lt: "real ?s < 2 ^ 34" using split assms(1) k34 by linarith
  then have s53: "?s < 2 ^ 53" by simp
  obtain fs where fs: "roundFrac ?s 1 = Some fs" "valMag fs = real ?s"
  proof (cases "?s = 0")
    case True
    then show thesis using that [of "(0, minExp)"] by (simp add: roundFrac_def valMag_def)
  next
    case False
    then show thesis using roundFrac_int [of ?s] s53 that by blast
  qed
  have "real ?r / real (1000000000::nat) < pow2 0" by simp
  then obtain fr where fr: "roundFrac ?r 1000000000 = Some fr" "\<bar>real ?r / real (1000000000::nat) - valMag fr\<bar> \<le> pow2 (0 - 54)"
    using roundFrac_error [of 1000000000 ?r 0] by (auto simp: minExp_def)
  obtain n d' where a: "0 < d'" "addMag fs fr = roundFrac n d'" "real n / real d' = valMag fs + valMag fr" by (rule addMag_val)
  have near: "\<bar>real ?a / 10 ^ 9 - (valMag fs + valMag fr)\<bar> \<le> pow2 (- 54)"
  proof -
    have "real ?a / 10 ^ 9 - (valMag fs + valMag fr) = real ?r / real (1000000000::nat) - valMag fr"
      unfolding split fs(2) by simp
    then show ?thesis using fr(2) by (simp only: diff_0)
  qed
  have "pow2 (- 54) \<le> 1" "1 \<le> pow2 k" using pow2_mono [of "- 54" 0] pow2_mono [of 0 k] assms(2) by simp_all
  then have "valMag fs + valMag fr < pow2 k + pow2 k" using near assms(1) by linarith
  then have "real n / real d' < pow2 (k + 1)" unfolding a(3) by (simp add: pow2_add)
  then obtain f where f: "roundFrac n d' = Some f" "\<bar>real n / real d' - valMag f\<bar> \<le> pow2 (k + 1 - 54)"
    using roundFrac_error [OF a(1), of n "k + 1"] assms(2,3) by (auto simp: minExp_def)
  have "secondsMag d = Some f" using fs(1) fr(1) a(2) f(1) by (simp add: secondsMag_def Let_def)
  moreover have "\<bar>real ?a / 10 ^ 9 - valMag f\<bar> \<le> pow2 (k - 53) + pow2 (- 54)"
  proof -
    have "pow2 (k + 1 - 54) = pow2 (k - 53)" by simp
    then show ?thesis using near f(2) unfolding a(3) by linarith
  qed
  ultimately show thesis using that by blast
qed

text \<open>Whole seconds are printed as such.\<close>

lemma marshalSeconds_whole:
  assumes "0 < k" "k < 2 ^ 34"
  shows "marshalSeconds (int k * second) = natDec k"
proof -
  have a: "nat \<bar>int k * second\<bar> = k * 1000000000" by (simp add: second_def nat_mult_distrib)
  have k53: "k < 2 ^ 53" using assms(2) by simp
  obtain f where f: "roundFrac k 1 = Some f" "posMag f" "valMag f = real k" "snd f \<le> 0"
    using roundFrac_int [OF assms(1) k53] .
  have z: "roundFrac 0 1000000000 = Some (0, minExp)" by (simp add: roundFrac_def)
  obtain n d where r: "0 < d" "addMag f (0, minExp) = roundFrac n d" "real n / real d = valMag f + valMag (0, minExp)"
    by (rule addMag_val)
  then have "addMag f (0, minExp) = Some f"
    using f(2) roundFrac_exact [of f d n] by (simp add: valMag_def posMag_def)
  then have "secondsMag (int k * second) = Some f" using f(1) z by (simp add: secondsMag_def Let_def a)
  then show ?thesis using jsonFloat_int [OF f(2-4) k53] by (simp add: marshalSeconds_def second_def mult_less_0_iff)
qed

end
