(* ===== verification/Json_Laws.thy ===== *)
theory Json_Laws
  imports Json Float64_Laws
begin

text \<open>
  The decoder reads what \<open>json.Marshal\<close> prints: strings of valid UTF-8 through their escapes,
  number literals, and values of any shape up to the nesting limit.
\<close>

section \<open>Printing and reading strings\<close>

text \<open>The shapes of a valid encoding.\<close>

lemma runeLen_cases:
  assumes "runeLen s \<noteq> 0"
  obtains (one) a r where "s = a # r" "runeLen s = 1" "byte a < 0x80"
    | (two) a b r where "s = a # b # r" "runeLen s = 2" "0xC2 \<le> byte a" "byte a < 0xE0" "cont b"
    | (three) a b c r where "s = a # b # c # r" "runeLen s = 3" "0xE0 \<le> byte a" "byte a < 0xF0" "cont b" "cont c"
    | (four) a b c d r where "s = a # b # c # d # r" "runeLen s = 4" "0xF0 \<le> byte a" "byte a < 0xF5" "cont b" "cont c" "cont d"
  using assms unfolding runeLen_def by (simp split: list.splits if_splits)

lemma runeLen_append: "runeLen s \<noteq> 0 \<Longrightarrow> runeLen (take (runeLen s) s @ t) = runeLen s"
proof -
  assume "runeLen s \<noteq> 0"
  then show ?thesis
proof (cases rule: runeLen_cases)
  case (one a r)
  then show ?thesis by (simp add: runeLen_def)
next
  case (two a b r)
  then show ?thesis by (simp add: runeLen_def)
next
  case (three a b c r)
  then have "(byte a = 0xE0 \<longrightarrow> 0xA0 \<le> byte b) \<and> (byte a = 0xED \<longrightarrow> byte b < 0xA0)" by (simp add: runeLen_def split: if_splits)
  with three show ?thesis by (simp add: runeLen_def)
next
  case (four a b c d r)
  then have "(byte a = 0xF0 \<longrightarrow> 0x90 \<le> byte b) \<and> (byte a = 0xF4 \<longrightarrow> byte b < 0x90)" by (simp add: runeLen_def split: if_splits)
  with four show ?thesis by (simp add: runeLen_def)
qed
qed

lemma runeLen_le: "runeLen s \<le> length s"
  by (auto simp: runeLen_def split: list.splits)

lemma byte_inj: "byte c = byte d \<longleftrightarrow> c = d"
  by (metis char_of_char)

text \<open>A byte from 0x80 up is copied, unless it starts one of the two line separators.\<close>

lemma escapeByte_high:
  assumes "0x80 \<le> byte a"
  shows "escapeByte a = [a]"
proof -
  have "a \<notin> {quoteChar, backslash, CHR 0x08, CHR 0x0C, CHR 0x0A, CHR 0x0D, CHR 0x09, CHR ''<'', CHR ''>'', CHR ''&''}"
    using assms by auto
  then show ?thesis using assms by (simp add: escapeByte_def)
qed

lemma escapeBody_Cons: "a \<noteq> CHR 0xE2 \<Longrightarrow> escapeBody (a # s) = escapeByte a @ escapeBody s"
  by (cases s; cases "tl s") simp_all

lemma escapeBody_high: "0x80 \<le> byte a \<Longrightarrow> a \<noteq> CHR 0xE2 \<Longrightarrow> escapeBody (a # s) = a # escapeBody s"
  by (simp add: escapeBody_Cons escapeByte_high)

lemma escapeBody_low: "byte a < 0x80 \<Longrightarrow> escapeBody (a # s) = escapeByte a @ escapeBody s"
  by (rule escapeBody_Cons) auto

declare escapeBody.simps(2) [simp del]

lemma cont_high: "cont b \<Longrightarrow> 0x80 \<le> byte b \<and> b \<noteq> CHR 0xE2"
  by (auto simp: cont_def)

lemma escapeBody_E2:
  "cont b \<Longrightarrow> cont c \<Longrightarrow> escapeBody (CHR 0xE2 # b # c # s) =
     (if b = CHR 0x80 \<and> (c = CHR 0xA8 \<or> c = CHR 0xA9)
      then [backslash] @ ''u202'' @ [if c = CHR 0xA8 then CHR ''8'' else CHR ''9''] @ escapeBody s
      else CHR 0xE2 # b # c # escapeBody s)"
  using escapeBody_high cont_high by (simp add: escapeBody.simps(2) escapeByte_high)

lemma hexVal_hexDigit [simp]: "d < 16 \<Longrightarrow> hexVal (hexDigit d) = Some d"
  by (simp add: hexVal_def hexDigit_def)

lemma utf8Encode_ascii: "byte c < 0x80 \<Longrightarrow> utf8Encode (byte c) = [c]"
  by (simp add: utf8Encode_def)

lemma decodeBody_step:
  "c \<noteq> quoteChar \<Longrightarrow> strStep c (r @ t) = Some (out, length r) \<Longrightarrow>
   decodeBody ((c # r) @ t) = map_option (\<lambda>(x, rest). (out @ x, rest)) (decodeBody t)"
  by (simp add: decodeBody.simps(2))

lemma decodeBody_escapeU:
  "byte c < 0x80 \<Longrightarrow> decodeBody (escapeU c @ t) = map_option (\<lambda>(x, rest). ([c] @ x, rest)) (decodeBody t)"
proof -
  assume c: "byte c < 0x80"
  have "hexVal (hexDigit (byte c div 16)) = Some (byte c div 16)" "hexVal (hexDigit (byte c mod 16)) = Some (byte c mod 16)"
    using c by simp_all
  moreover have "hexVal (CHR ''0'') = Some 0" by (simp add: hexVal_def)
  moreover have "byte c div 16 * 16 + byte c mod 16 = byte c" by simp
  ultimately have "strStep backslash (tl (escapeU c) @ t) = Some ([c], length (tl (escapeU c)))"
    using c by (simp add: strStep_def escapeU_def utf8Encode_ascii)
  then show ?thesis using decodeBody_step [of backslash "tl (escapeU c)" t "[c]"] by (simp add: escapeU_def)
qed

lemma decodeBody_escapeByte:
  assumes "byte c < 0x80"
  shows "decodeBody (escapeByte c @ t) = map_option (\<lambda>(x, rest). ([c] @ x, rest)) (decodeBody t)"
proof (cases "(byte c < 32 \<and> c \<notin> {CHR 0x08, CHR 0x0C, CHR 0x0A, CHR 0x0D, CHR 0x09}) \<or> c = CHR ''<'' \<or> c = CHR ''>'' \<or> c = CHR ''&''")
  case True
  have "c \<notin> {quoteChar, backslash, CHR 0x08, CHR 0x0C, CHR 0x0A, CHR 0x0D, CHR 0x09}"
  proof
    assume "c \<in> {quoteChar, backslash, CHR 0x08, CHR 0x0C, CHR 0x0A, CHR 0x0D, CHR 0x09}"
    then show False using True by (elim insertE emptyE) simp_all
  qed
  with True have "escapeByte c = escapeU c" by (simp add: escapeByte_def)
  then show ?thesis using decodeBody_escapeU [OF assms] by simp
next
  case False
  show ?thesis
  proof (cases "c \<in> {quoteChar, backslash, CHR 0x08, CHR 0x0C, CHR 0x0A, CHR 0x0D, CHR 0x09}")
    case True
    let ?e = "escapeByte c ! 1"
    from True have "escapeByte c = [backslash, ?e] \<and> simpleEscape ?e = Some c \<and> ?e \<noteq> CHR ''u''"
      by (elim insertE emptyE) (simp_all add: escapeByte_def simpleEscape_def)
    then obtain e where e: "escapeByte c = [backslash, e]" "simpleEscape e = Some c" "e \<noteq> CHR ''u''" by blast
    then have "strStep backslash ([e] @ t) = Some ([c], length [e])" by (simp add: strStep_def)
    then show ?thesis using decodeBody_step [of backslash "[e]" t "[c]"] e(1) by simp
  next
    case F: False
    with False have "escapeByte c = [c]" "\<not> byte c < 0x20" by (auto simp: escapeByte_def)
    moreover from this F have "strStep c ([] @ t) = Some ([c], length [])" using assms by (simp add: strStep_def)
    ultimately show ?thesis using decodeBody_step [of c "[]" t "[c]"] F by simp
  qed
qed

lemma decodeBody_rune:
  assumes "2 \<le> runeLen s"
  shows "decodeBody (take (runeLen s) s @ t) = map_option (\<lambda>(x, rest). (take (runeLen s) s @ x, rest)) (decodeBody t)"
proof -
  have n: "runeLen s \<noteq> 0" using assms by simp
  then obtain a r where s: "s = a # r" "0x80 \<le> byte a"
    by (cases rule: runeLen_cases) (use assms in auto)
  let ?r = "take (runeLen s - 1) r"
  have t: "take (runeLen s) s = a # ?r" using s n by (cases "runeLen s") auto
  have l: "length ?r = runeLen s - 1" using runeLen_le [of s] s by simp
  have "runeLen (a # ?r @ t) = runeLen s" using runeLen_append [OF n, of t] t by simp
  moreover have "take (runeLen s) (a # ?r @ t) = a # ?r" using l n by (cases "runeLen s") auto
  ultimately have "strStep a (?r @ t) = Some (a # ?r, length ?r)"
    using s(2) n l by (auto simp: strStep_def)
  moreover have "a \<noteq> quoteChar" using s(2) by auto
  ultimately show ?thesis using decodeBody_step [of a ?r t] t by simp
qed

lemma decodeBody_separator:
  "decodeBody ([backslash] @ ''u202'' @ [if c = CHR 0xA8 then CHR ''8'' else CHR ''9''] @ t) =
     map_option (\<lambda>(x, rest). ([CHR 0xE2, CHR 0x80, if c = CHR 0xA8 then CHR 0xA8 else CHR 0xA9] @ x, rest)) (decodeBody t)"
proof -
  let ?r = "''u202'' @ [if c = CHR 0xA8 then CHR ''8'' else CHR ''9'']"
  have ch: "char_of (226::nat) = CHR 0xE2" "char_of (128::nat) = CHR 0x80" "char_of (168::nat) = CHR 0xA8"
    "char_of (169::nat) = CHR 0xA9" by code_simp+
  have "strStep backslash (?r @ t) = Some ([CHR 0xE2, CHR 0x80, if c = CHR 0xA8 then CHR 0xA8 else CHR 0xA9], length ?r)"
    by (simp add: strStep_def hexVal_def utf8Encode_def ch)
  from decodeBody_step [OF _ this] show ?thesis by simp
qed

lemma decodeBody_escapeBody:
  "validUTF8 s \<Longrightarrow> decodeBody (escapeBody s @ quoteChar # rest) = Some (s, rest)"
proof (induction s rule: validUTF8.induct)
  case (1 s)
  show ?case
  proof (cases "s = []")
    case True
    then show ?thesis by (simp add: decodeBody.simps(2))
  next
    case False
    with "1.prems" have n: "runeLen s \<noteq> 0" and v: "validUTF8 (drop (runeLen s) s)"
      by (simp_all add: validUTF8.simps [of s] split: if_splits)
    note IH = "1.IH" [OF False n v]
    have whole: "decodeBody (take (runeLen s) s @ escapeBody (drop (runeLen s) s) @ quoteChar # rest) = Some (s, rest)" if "2 \<le> runeLen s"
      using decodeBody_rune [OF that] IH by simp
    from n show ?thesis
    proof (cases rule: runeLen_cases)
      case (one a r)
      then show ?thesis using IH decodeBody_escapeByte [of a] by (simp add: escapeBody_low)
    next
      case (two a b r)
      then have "a \<noteq> CHR 0xE2" by auto
      with two show ?thesis using whole by (simp add: escapeBody_high cont_high)
    next
      case (three a b c r)
      then show ?thesis using whole IH decodeBody_separator [of c "escapeBody r @ quoteChar # rest"]
        by (cases "a = CHR 0xE2") (auto simp: escapeBody_high cont_high escapeBody_E2 )
    next
      case (four a b c d r)
      then have "a \<noteq> CHR 0xE2" by auto
      with four show ?thesis using whole by (simp add: escapeBody_high cont_high)
    qed
  qed
qed

section \<open>Printing and reading numbers\<close>

definition validNum :: "string \<Rightarrow> bool" where
  "validNum n \<longleftrightarrow> scanNumber n = Some (n, [])"

text \<open>A text that cannot continue a number literal.\<close>

definition stops :: "string \<Rightarrow> bool" where
  "stops s \<longleftrightarrow> (case s of [] \<Rightarrow> True | c # _ \<Rightarrow> \<not> isDigit c \<and> c \<noteq> CHR ''.'' \<and> c \<noteq> CHR ''e'' \<and> c \<noteq> CHR ''E'')"

lemma digits_append:
  "stops t \<Longrightarrow> digitsOf (s @ t) = digitsOf s \<and> afterDigits (s @ t) = afterDigits s @ t"
  by (induction s) (auto simp: stops_def split: list.splits)

lemma scanInt_append: "stops t \<Longrightarrow> scanInt s = Some (i, s1) \<Longrightarrow> scanInt (s @ t) = Some (i, s1 @ t)"
  using digits_append [of t s] by (cases s) (auto simp: scanInt_def split: if_splits)

lemma scanFrac_append: "stops t \<Longrightarrow> scanFrac s = Some (f, s1) \<Longrightarrow> scanFrac (s @ t) = Some (f, s1 @ t)"
  using digits_append [of t "tl s"] by (cases s; cases t) (auto simp: scanFrac_def stops_def split: if_splits)

lemma scanExp_append:
  assumes "stops t" "scanExp s = Some (e, s1)"
  shows "scanExp (s @ t) = Some (e, s1 @ t)"
proof (cases s)
  case Nil
  then show ?thesis using assms by (cases t) (auto simp: scanExp_def stops_def)
next
  case (Cons c r)
  show ?thesis
  proof (cases "c \<noteq> CHR ''e'' \<and> c \<noteq> CHR ''E''")
    case True
    then show ?thesis using assms Cons by (auto simp: scanExp_def)
  next
    case False
    obtain d r' where r: "r = d # r'" using assms(2) False Cons by (cases r) (auto simp: scanExp_def)
    show ?thesis
      using assms(2) False Cons r digits_append [OF assms(1), of r'] digits_append [OF assms(1), of r]
      by (auto simp: scanExp_def Let_def split: if_splits)
  qed
qed

lemma scanNumber_append:
  assumes "stops t" "scanNumber s = Some (n, s1)"
  shows "scanNumber (s @ t) = Some (n, s1 @ t)"
proof -
  have ne: "s \<noteq> []" using assms(2) by (auto simp: scanNumber_def scanInt_def)
  let ?sg = "case s of c # _ \<Rightarrow> if c = CHR ''-'' then [c] else [] | [] \<Rightarrow> []"
  have sg: "(case s @ t of c # _ \<Rightarrow> if c = CHR ''-'' then [c] else [] | [] \<Rightarrow> []) = ?sg"
    and d: "drop (length ?sg) (s @ t) = drop (length ?sg) s @ t" using ne by (cases s; simp)+
  from assms(2) obtain i s2 f s3 e where "scanInt (drop (length ?sg) s) = Some (i, s2)" "scanFrac s2 = Some (f, s3)"
      "scanExp s3 = Some (e, s1)" "n = ?sg @ i @ f @ e"
    by (auto simp: scanNumber_def Let_def split: option.splits)
  with scanInt_append [OF assms(1)] scanFrac_append [OF assms(1)] scanExp_append [OF assms(1)]
  show ?thesis unfolding scanNumber_def Let_def sg d by simp
qed

lemma scanNumber_start:
  assumes "scanNumber (c # r) = Some (n, s)"
  shows "c = CHR ''-'' \<or> isDigit c"
  using assms by (auto simp: scanNumber_def scanInt_def isDigit_def digitVal_def split: if_splits option.splits)

lemma digit_start:
  assumes "c = CHR ''-'' \<or> isDigit c"
  shows "\<not> isWs c" "c \<notin> {CHR ''{'', CHR ''}'', CHR ''['', CHR '']'', CHR '':'', CHR '','', quoteChar, CHR ''t'', CHR ''f'', CHR ''n''}"
  using assms by (auto simp: isWs_def isDigit_def digitVal_def)

section \<open>Printing and reading values\<close>

text \<open>Values as \<open>json.Marshal\<close> prints them: valid texts, and objects with their keys in order.\<close>

fun canonJSON :: "json \<Rightarrow> bool" where
  "canonJSON JNull = True"
| "canonJSON (JBool b) = True"
| "canonJSON (JNum n) = validNum n"
| "canonJSON (JStr s) = validUTF8 s"
| "canonJSON (JArr vs) = list_all canonJSON vs"
| "canonJSON (JObj kvs) =
     (list_all (\<lambda>(k, v). validUTF8 k \<and> canonJSON v) kvs \<and> sorted (map fst kvs) \<and> distinct (map fst kvs))"

fun depthJSON :: "json \<Rightarrow> nat" where
  "depthJSON (JArr vs) = Suc (foldr max (map depthJSON vs) 0)"
| "depthJSON (JObj kvs) = Suc (foldr max (map (\<lambda>(k, v). depthJSON v) kvs) 0)"
| "depthJSON _ = 0"

definition commaToks :: "token list list \<Rightarrow> token list" where
  "commaToks tss = (case tss of [] \<Rightarrow> [] | t # ts \<Rightarrow> t @ concat (map (Cons TComma) ts))"

fun toksJSON :: "json \<Rightarrow> token list" where
  "toksJSON JNull = [TLit JNull]"
| "toksJSON (JBool b) = [TLit (JBool b)]"
| "toksJSON (JNum n) = [TNum n]"
| "toksJSON (JStr s) = [TStr s]"
| "toksJSON (JArr vs) = TOpenArr # commaToks (map toksJSON vs) @ [TCloseArr]"
| "toksJSON (JObj kvs) = TOpenObj # commaToks (map (\<lambda>(k, v). TStr k # TColon # toksJSON v) kvs) @ [TCloseObj]"

lemma joinWith_comma: "joinWith '','' (x # xs) = x @ concat (map (Cons (CHR '','')) xs)"
  by (induction xs arbitrary: x) simp_all

text \<open>Tokens in front of what the scanner makes of the rest.\<close>

definition before :: "token list \<Rightarrow> token list option \<Rightarrow> token list option" where
  "before ts r = map_option (\<lambda>us. ts @ us) r"

lemma before_simps [simp]:
  "before [] r = r" "before ts (before us r) = before (ts @ us) r" "map_option (Cons t) r = before [t] r"
  "before ts (Some us) = Some (ts @ us)"
  by (cases r; simp add: before_def)+

lemma lex_punct:
  "lexJSON (CHR ''{'' # r) = before [TOpenObj] (lexJSON r)"
  "lexJSON (CHR ''}'' # r) = before [TCloseObj] (lexJSON r)"
  "lexJSON (CHR ''['' # r) = before [TOpenArr] (lexJSON r)"
  "lexJSON (CHR '']'' # r) = before [TCloseArr] (lexJSON r)"
  "lexJSON (CHR '':'' # r) = before [TColon] (lexJSON r)"
  "lexJSON (CHR '','' # r) = before [TComma] (lexJSON r)"
  by (simp_all add: lexJSON.simps(2) isWs_def lexOne_def)

lemma stops_punct:
  "stops []" "stops (CHR ''}'' # r)" "stops (CHR '']'' # r)" "stops (CHR '':'' # r)" "stops (CHR '','' # r)"
  by (simp_all add: stops_def isDigit_def digitVal_def)

lemma lex_quote: "validUTF8 s \<Longrightarrow> lexJSON (quoteJSON s @ r) = before [(TStr s)] (lexJSON r)"
  by (simp add: quoteJSON_def lexJSON.simps(2) isWs_def lexOne_def decodeBody_escapeBody)

lemma lex_number:
  assumes "validNum n" "stops r"
  shows "lexJSON (n @ r) = before [(TNum n)] (lexJSON r)"
proof -
  have s: "scanNumber (n @ r) = Some (n, r)"
    using scanNumber_append [OF assms(2)] assms(1) by (fastforce simp: validNum_def)
  moreover obtain c m where n: "n = c # m" using assms(1) by (cases n) (auto simp: validNum_def scanNumber_def scanInt_def)
  ultimately have "c = CHR ''-'' \<or> isDigit c" using scanNumber_start by simp
  from digit_start [OF this] s n show ?thesis by (simp add: lexJSON.simps(2) lexOne_def)
qed

lemma lex_word:
  "lexJSON (''null'' @ r) = before [(TLit JNull)] (lexJSON r)"
  "lexJSON (''true'' @ r) = before [(TLit (JBool True))] (lexJSON r)"
  "lexJSON (''false'' @ r) = before [(TLit (JBool False))] (lexJSON r)"
  by (simp_all add: lexJSON.simps(2) isWs_def lexOne_def scanWord_def cutPrefix_def hasPrefix_def)

text \<open>A list of printed items, each read back as its tokens, with commas between them.\<close>

definition lexes :: "string \<Rightarrow> token list \<Rightarrow> bool" where
  "lexes s ts \<longleftrightarrow> (\<forall>r. stops r \<longrightarrow> lexJSON (s @ r) = before ts (lexJSON r))"

lemma lexes_comma:
  assumes "list_all2 lexes ss tss" "stops r"
  shows "lexJSON (concat (map (Cons (CHR '','')) ss) @ r) = before (concat (map (Cons TComma) tss)) (lexJSON r)"
  using assms(1)
proof (induction rule: list_all2_induct)
  case Nil
  then show ?case by (simp add:)
next
  case (Cons s ss ts tss)
  have "stops (concat (map (Cons (CHR '','')) ss) @ r)" using assms(2) by (cases ss) (simp_all add: stops_punct)
  with Cons show ?case by (simp add: lexes_def lex_punct)
qed

lemma lexes_join:
  assumes "list_all2 lexes ss tss"
  shows "lexes (joinWith '','' ss) (commaToks tss)"
proof (cases ss)
  case Nil
  with assms show ?thesis by (simp add: lexes_def commaToks_def)
next
  case (Cons s ss')
  with assms obtain t tss' where t: "tss = t # tss'" "lexes s t" "list_all2 lexes ss' tss'" by (auto simp: list_all2_Cons1)
  show ?thesis
    unfolding lexes_def
  proof (intro allI impI)
    fix r assume r: "stops r"
    then have "stops (concat (map (Cons (CHR '','')) ss') @ r)" by (cases ss') (simp_all add: stops_punct)
    with t r show "lexJSON (joinWith '','' ss @ r) = before (commaToks tss) (lexJSON r)"
      unfolding Cons joinWith_comma by (simp add: lexes_def lexes_comma commaToks_def)
  qed
qed

lemma lexes_bracket:
  assumes "lexes s ts"
  shows "lexes (''['' @ s @ '']'') (TOpenArr # ts @ [TCloseArr])" "lexes (''{'' @ s @ ''}'') (TOpenObj # ts @ [TCloseObj])"
  using assms stops_punct by (simp_all add: lexes_def lex_punct)

lemma lexes_member:
  assumes "validUTF8 k" "lexes s ts"
  shows "lexes (quoteJSON k @ CHR '':'' # s) (TStr k # TColon # ts)"
  using assms by (simp add: lexes_def lex_quote lex_punct)

lemma lexes_marshal: "canonJSON v \<Longrightarrow> lexes (marshal v) (toksJSON v)"
proof (induction v rule: toksJSON.induct)
  case 1
  show ?case using lex_word(1) by (simp add: lexes_def)
next
  case (2 b)
  show ?case using lex_word(2,3) by (cases b) (simp_all add: lexes_def)
next
  case (3 n)
  then show ?case using lex_number by (simp add: lexes_def)
next
  case (4 s)
  then show ?case using lex_quote by (simp add: lexes_def)
next
  case (5 vs)
  then have "list_all2 lexes (map marshal vs) (map toksJSON vs)"
    by (auto simp: list.rel_map list_all_iff intro!: list.rel_refl_strong)
  from lexes_bracket(1) [OF lexes_join [OF this]] show ?case by simp
next
  case (6 kvs)
  let ?f = "\<lambda>(k, v). (k, quoteJSON k @ '':'' @ marshal v)"
  have "sort_key fst (map ?f kvs) = map ?f kvs"
    using 6 by (intro sort_key_id_if_sorted) (simp add: comp_def case_prod_unfold)
  moreover have "list_all2 lexes (map snd (map ?f kvs)) (map (\<lambda>(k, v). TStr k # TColon # toksJSON v) kvs)"
    using 6 by (fastforce simp: list.rel_map list_all_iff intro!: list.rel_refl_strong lexes_member)
  ultimately show ?case using lexes_bracket(2) [OF lexes_join] by simp
qed

section \<open>The automaton reads what was printed\<close>

lemma toksJSON_start: "\<exists>t ts. toksJSON v = t # ts \<and> t \<noteq> TCloseArr"
  by (cases v rule: toksJSON.cases) auto

lemma run_start:
  assumes "p = AtValue \<or> p = AtFirstElem"
  shows "runTokens p st (toksJSON v @ ts) = runTokens AtValue st (toksJSON v @ ts)"
proof -
  obtain t ts' where "toksJSON v = t # ts'" "t \<noteq> TCloseArr" using toksJSON_start by blast
  then show ?thesis using assms by (auto simp: stepToken_def)
qed

text \<open>A value is read as itself in every context with room for its depth.\<close>

definition readsBack :: "json \<Rightarrow> bool" where
  "readsBack v \<longleftrightarrow> (\<forall>st ts. length st + depthJSON v \<le> maxNestingDepth \<longrightarrow>
     runTokens AtValue st (toksJSON v @ ts) = runTokens (AfterValue v) st ts)"

lemma foldr_max_le: "x \<in> set xs \<Longrightarrow> f x \<le> foldr max (map f xs) (0::nat)"
  by (induction xs) auto

lemma run_elems:
  assumes "\<And>v. v \<in> set vs \<Longrightarrow> readsBack v \<and> Suc (length st) + depthJSON v \<le> maxNestingDepth"
  shows "runTokens (AfterValue u) (FArr us # st) (concat (map (Cons TComma) (map toksJSON vs)) @ TCloseArr # ts) =
    runTokens (AfterValue (JArr (us @ u # vs))) st ts"
  using assms
proof (induction vs arbitrary: u us)
  case Nil
  then show ?case by (simp add: stepToken_def endValue_def)
next
  case (Cons v vs)
  have "readsBack v" "Suc (length st) + depthJSON v \<le> maxNestingDepth" using Cons.prems [of v] by simp_all
  with Cons.IH [of v "us @ [u]"] Cons.prems show ?case
    by (simp add: stepToken_def endValue_def readsBack_def)
qed

lemma run_members:
  assumes "\<And>k v. (k, v) \<in> set kvs \<Longrightarrow> readsBack v \<and> Suc (length st) + depthJSON v \<le> maxNestingDepth"
  shows "runTokens (AfterValue u) (FMem us k # st)
      (concat (map (Cons TComma) (map (\<lambda>(k, v). TStr k # TColon # toksJSON v) kvs)) @ TCloseObj # ts) =
    runTokens (AfterValue (JObj (us @ (k, u) # kvs))) st ts"
  using assms
proof (induction kvs arbitrary: u us k)
  case Nil
  then show ?case by (simp add: stepToken_def endValue_def)
next
  case (Cons kv kvs)
  obtain k' v where kv: "kv = (k', v)" by (cases kv)
  have "readsBack v" "Suc (length st) + depthJSON v \<le> maxNestingDepth" using Cons.prems [of k' v] kv by simp_all
  moreover have "runTokens (AfterValue v) (FMem (us @ [(k, u)]) k' # st)
      (concat (map (Cons TComma) (map (\<lambda>(k, v). TStr k # TColon # toksJSON v) kvs)) @ TCloseObj # ts) =
    runTokens (AfterValue (JObj ((us @ [(k, u)]) @ (k', v) # kvs))) st ts"
    using Cons.prems by (intro Cons.IH) auto
  ultimately show ?case
    using kv by (simp add: stepToken_def endValue_def startKey_def readsBack_def)
qed

lemma readsBack_all: "readsBack v"
proof (induction v rule: toksJSON.induct)
  case (5 vs)
  show ?case
  proof (cases vs)
    case Nil
    then show ?thesis by (auto simp: readsBack_def commaToks_def stepToken_def startValue_def)
  next
    case (Cons u us)
    show ?thesis
      unfolding readsBack_def
    proof (intro allI impI)
      fix st :: "frame list" and ts assume d: "length st + depthJSON (JArr vs) \<le> maxNestingDepth"
      have e: "readsBack v \<and> Suc (length st) + depthJSON v \<le> maxNestingDepth" if "v \<in> set vs" for v
        using 5 that d foldr_max_le [of v vs depthJSON] by simp
      have "runTokens AtValue st (toksJSON (JArr vs) @ ts) =
          runTokens AtFirstElem (FArr [] # st) (toksJSON u @ concat (map (Cons TComma) (map toksJSON us)) @ TCloseArr # ts)"
        using d Cons by (simp add: stepToken_def startValue_def commaToks_def)
      also have "\<dots> = runTokens (AfterValue u) (FArr [] # st) (concat (map (Cons TComma) (map toksJSON us)) @ TCloseArr # ts)"
        using run_start [of AtFirstElem] e [of u] Cons by (simp add: readsBack_def)
      also have "\<dots> = runTokens (AfterValue (JArr vs)) st ts"
        using run_elems [of us st u "[]" ts] e Cons by simp
      finally show "runTokens AtValue st (toksJSON (JArr vs) @ ts) = runTokens (AfterValue (JArr vs)) st ts" .
    qed
  qed
next
  case (6 kvs)
  show ?case
  proof (cases kvs)
    case Nil
    then show ?thesis by (auto simp: readsBack_def commaToks_def stepToken_def startValue_def)
  next
    case (Cons ku us)
    obtain k u where ku: "ku = (k, u)" by (cases ku)
    show ?thesis
      unfolding readsBack_def
    proof (intro allI impI)
      fix st :: "frame list" and ts assume d: "length st + depthJSON (JObj kvs) \<le> maxNestingDepth"
      have e: "readsBack v \<and> Suc (length st) + depthJSON v \<le> maxNestingDepth" if "(k, v) \<in> set kvs" for k v
        using 6 that d foldr_max_le [of "(k, v)" kvs "\<lambda>(k, v). depthJSON v"] by simp
      let ?rest = "concat (map (Cons TComma) (map (\<lambda>(k, v). TStr k # TColon # toksJSON v) us)) @ TCloseObj # ts"
      have "runTokens AtValue st (toksJSON (JObj kvs) @ ts) = runTokens AtValue (FMem [] k # st) (toksJSON u @ ?rest)"
        using d Cons ku by (simp add: stepToken_def startValue_def startKey_def commaToks_def)
      also have "\<dots> = runTokens (AfterValue u) (FMem [] k # st) ?rest"
        using e [of k u] Cons ku by (simp add: readsBack_def)
      also have "\<dots> = runTokens (AfterValue (JObj kvs)) st ts"
        using run_members [of us st u "[]" k ts] e Cons ku by fastforce
      finally show "runTokens AtValue st (toksJSON (JObj kvs) @ ts) = runTokens (AfterValue (JObj kvs)) st ts" .
    qed
  qed
qed (simp_all add: readsBack_def stepToken_def startValue_def)

text \<open>What \<open>json.Marshal\<close> prints is read back as the value that was printed.\<close>

lemma parse_tokens:
  assumes "lexes s (toksJSON v)" "depthJSON v \<le> maxNestingDepth"
  shows "parseJSON s = Some v"
proof -
  have "lexJSON s = Some (toksJSON v)" using assms(1) stops_punct(1) by (fastforce simp: lexes_def)
  then show ?thesis
    using readsBack_all [of v, unfolded readsBack_def, rule_format, of "[]" "[]"] assms(2) by (simp add: parseJSON_def)
qed

lemma parse_marshal: "canonJSON v \<Longrightarrow> depthJSON v \<le> maxNestingDepth \<Longrightarrow> parseJSON (marshal v) = Some v"
  by (rule parse_tokens [OF lexes_marshal])

section \<open>Floats as JSON numbers\<close>

lemma digitsOf_all: "\<forall>c \<in> set s. isDigit c \<Longrightarrow> digitsOf s = s"
  by (simp add: takeWhile_eq_all_conv)

lemma zero_isDigit: "isDigit (CHR ''0'')"
  by (simp add: isDigit_def digitVal_def)

lemma scanInt_digits:
  assumes "\<forall>c \<in> set ds. isDigit c" "ds \<noteq> []" "ds = ''0'' \<or> hd ds \<noteq> CHR ''0''" "t = [] \<or> \<not> isDigit (hd t)"
  shows "scanInt (ds @ t) = Some (ds, t)"
proof -
  obtain c r where ds: "ds = c # r" using assms(2) by (cases ds) auto
  show ?thesis
  proof (cases "c = CHR ''0''")
    case True
    then have "r = []" using assms(3) ds by simp
    then show ?thesis using True ds by (simp add: scanInt_def)
  next
    case False
    then show ?thesis using take_all_digits [OF assms(1,4)] ds assms(1) by (simp add: scanInt_def)
  qed
qed

lemma scanFrac_with:
  assumes "\<forall>c \<in> set fs. isDigit c" "t = [] \<or> \<not> isDigit (hd t) \<and> hd t \<noteq> CHR ''.''"
  shows "scanFrac (withFrac fs t) = Some (withFrac fs [], t)"
  using take_all_digits [OF assms(1), of t] assms(2) by (cases t) (auto simp: scanFrac_def withFrac_def digitsOf_all [OF assms(1)])

lemma validNum_parts:
  assumes "\<forall>c \<in> set ds. isDigit c" "ds \<noteq> []" "ds = ''0'' \<or> hd ds \<noteq> CHR ''0''" "\<forall>c \<in> set fs. isDigit c"
    and "t = [] \<or> \<not> isDigit (hd t) \<and> hd t \<noteq> CHR ''.''" "scanExp t = Some (t, [])"
  shows "validNum ((if neg then ''-'' else '''') @ ds @ withFrac fs t)"
proof -
  have w: "withFrac fs t = [] \<or> \<not> isDigit (hd (withFrac fs t))" using assms(5) by (auto simp: withFrac_def)
  have h: "hd ds \<noteq> CHR ''-''" using assms(1,2) by (cases ds) auto
  have "withFrac fs [] @ t = withFrac fs t" by (simp add: withFrac_def)
  moreover obtain c r where "ds = c # r" using assms(2) by (cases ds) auto
  ultimately show ?thesis
    using scanInt_digits [OF assms(1-3) w] scanFrac_with [OF assms(4,5)] assms(6) h
    by (simp add: validNum_def scanNumber_def Let_def)
qed

lemma natDec_head: "0 < n \<Longrightarrow> hd (natDec n) \<noteq> CHR ''0''"
proof (induction n rule: natDec.induct)
  case (1 n)
  show ?case
  proof (cases "n < 10")
    case True
    then have "n \<in> {1, 2, 3, 4, 5, 6, 7, 8, 9}" using "1.prems" by auto
    with True show ?thesis by (auto simp: natDec.simps [of n] digitChar_def char_of_def)
  next
    case False
    then show ?thesis using 1 by (simp add: natDec.simps [of n])
  qed
qed

lemma scanExp_printed: "sg = CHR ''-'' \<or> sg = CHR ''+'' \<Longrightarrow> scanExp (CHR ''e'' # sg # natDec n) = Some (CHR ''e'' # sg # natDec n, [])"
proof -
  have dig: "\<forall>c \<in> set (natDec n). isDigit c" using natDec_isDigit by blast
  then show "sg = CHR ''-'' \<or> sg = CHR ''+'' \<Longrightarrow> ?thesis"
    by (auto simp: scanExp_def Let_def digitsOf_all [OF dig])
qed

lemma validNum_formatF: "0 < D \<Longrightarrow> validNum ((if neg then ''-'' else '''') @ formatF (D, p))"
proof -
  assume D: "0 < D"
  let ?ds = "natDec D" and ?n = "int (length (natDec D))"
  have dig: "\<forall>c \<in> set ?ds. isDigit c" using natDec_isDigit by blast
  have zd: "\<forall>c \<in> set (zeros k). isDigit c" for k using zeros_isDigit by blast
  have e: "scanExp [] = Some ([], [])" by (simp add: scanExp_def)
  consider (int) "0 \<le> p" | (mid) "p < 0" "0 < ?n + p" | (small) "p < 0" "?n + p \<le> 0" by linarith
  then show ?thesis
  proof cases
    case int
    then have "formatF (D, p) = (?ds @ zeros (nat p)) @ withFrac [] []" by (simp add: formatF_def withFrac_def)
    then show ?thesis
      using validNum_parts [of "?ds @ zeros (nat p)" "[]" "[]" neg] dig zd [of "nat p"] e natDec_head [OF D]
      by (simp add: ball_Un)
  next
    case mid
    let ?k = "nat (?n + p)"
    have k: "?k < length ?ds" "0 < ?k" using mid by simp_all
    then have "formatF (D, p) = take ?k ?ds @ withFrac (drop ?k ?ds) []" using mid by (simp add: formatF_def withFrac_def Let_def)
    moreover have "\<forall>c \<in> set (take ?k ?ds). isDigit c" "\<forall>c \<in> set (drop ?k ?ds). isDigit c"
      using dig by (meson in_set_takeD, meson in_set_dropD)
    moreover have "take ?k ?ds \<noteq> []" "hd (take ?k ?ds) \<noteq> CHR ''0''" using k natDec_head [OF D] by (auto simp: hd_take)
    ultimately show ?thesis using validNum_parts [of "take ?k ?ds" "drop ?k ?ds" "[]" neg] e by simp
  next
    case small
    let ?z = "zeros (nat (- (?n + p)))"
    have "formatF (D, p) = ''0'' @ withFrac (?z @ ?ds) []" using small by (simp add: formatF_def withFrac_def Let_def)
    then show ?thesis
      using validNum_parts [of "''0''" "?z @ ?ds" "[]" neg] dig zd [of "nat (- (?n + p))"] e zero_isDigit by (simp add: ball_Un)
  qed
qed

lemma validNum_formatE: "0 < D \<Longrightarrow> validNum ((if neg then ''-'' else '''') @ formatE (D, p))"
proof -
  assume D: "0 < D"
  let ?x = "int (length (natDec D)) + p - 1"
  let ?sg = "if ?x < 0 then CHR ''-'' else CHR ''+''"
  obtain c fs where ds: "natDec D = c # fs" by (cases "natDec D") auto
  then have dig: "isDigit c" "\<forall>x \<in> set fs. isDigit x" and c: "c \<noteq> CHR ''0''"
    using natDec_isDigit [of _ D] natDec_head [OF D] by auto
  have "formatE (D, p) = [c] @ withFrac fs (CHR ''e'' # ?sg # natDec (nat \<bar>?x\<bar>))"
    by (simp add: formatE_def Let_def ds withFrac_def)
  moreover have "scanExp (CHR ''e'' # ?sg # natDec (nat \<bar>?x\<bar>)) = Some (CHR ''e'' # ?sg # natDec (nat \<bar>?x\<bar>), [])"
    by (rule scanExp_printed) simp
  ultimately show ?thesis
    using validNum_parts [of "[c]" fs "CHR ''e'' # ?sg # natDec (nat \<bar>?x\<bar>)" neg] dig c by simp
qed

lemma validNum_jsonFloat: "floatMag f \<Longrightarrow> validNum (jsonFloat neg f)"
proof (cases "fst f = 0")
  case True
  then show ?thesis
    by (simp add: jsonFloat_def validNum_def scanNumber_def scanInt_def scanFrac_def scanExp_def)
next
  case False
  assume "floatMag f"
  then have "posMag f" using False by (auto simp: floatMag_def)
  then have "0 < fst (shortestDec f)" by (rule shortestDec_pos)
  then show ?thesis
    using False validNum_formatF [of "fst (shortestDec f)" neg "snd (shortestDec f)"]
      validNum_formatE [of "fst (shortestDec f)" neg "snd (shortestDec f)"] by (auto simp: jsonFloat_def)
qed

section \<open>Values behind any\<close>

text \<open>The values an \<open>any\<close> can hold, with the keys of objects in order.\<close>

fun anyJSON :: "json \<Rightarrow> bool" where
  "anyJSON JNull = True"
| "anyJSON (JBool b) = True"
| "anyJSON (JNum t) = (\<exists>neg f. floatMag f \<and> t = jsonFloat neg f)"
| "anyJSON (JStr s) = validUTF8 s"
| "anyJSON (JArr vs) = list_all anyJSON vs"
| "anyJSON (JObj kvs) =
     (list_all (\<lambda>(k, v). validUTF8 k \<and> anyJSON v) kvs \<and> sorted (map fst kvs) \<and> distinct (map fst kvs))"

lemma anyJSON_canon: "anyJSON v \<Longrightarrow> canonJSON v"
  by (induction v rule: anyJSON.induct) (auto simp: list_all_iff validNum_jsonFloat)

lemma those_map_Some: "(\<And>x. x \<in> set xs \<Longrightarrow> f x = Some (g x)) \<Longrightarrow> those (map f xs) = Some (map g xs)"
  by (induction xs) auto

lemma anyMembers:
  assumes "\<And>k v. (k, v) \<in> set kvs \<Longrightarrow> anyValue v = Some v"
  shows "those (map (\<lambda>(k, v). map_option (Pair k) (anyValue v)) kvs) = Some kvs"
  using those_map_Some [of kvs _ "\<lambda>x. x"] assms by fastforce

lemma anyValue_any: "anyJSON v \<Longrightarrow> anyValue v = Some v"
proof (induction v rule: anyJSON.induct)
  case (3 t)
  then show ?case using jsonFloat_reads by auto
next
  case (5 vs)
  then show ?case using those_map_Some [of vs anyValue "\<lambda>x. x"] by (simp add: list_all_iff)
next
  case (6 kvs)
  then have "those (map (\<lambda>(k, v). map_option (Pair k) (anyValue v)) kvs) = Some kvs"
    by (intro anyMembers) (fastforce simp: list_all_iff)
  then show ?case using 6 fold_update_distinct [of "[]" kvs] by simp
qed simp_all

lemma intoAnyMap_any:
  assumes "anyJSON (JObj kvs)"
  shows "intoAnyMap (JObj kvs) [] = Some kvs"
proof -
  have "those (map (\<lambda>(k, v). map_option (Pair k) (anyValue v)) kvs) = Some kvs"
    using assms anyValue_any by (intro anyMembers) (fastforce simp: list_all_iff)
  then show ?thesis using assms fold_update_distinct [of "[]" kvs] by (simp add: intoAnyMap_def)
qed

end
