(* ===== verification/Json_Torn.thy ===== *)
theory Json_Torn
  imports Json_Laws
begin

text \<open>
  Torn texts. A JSON text of which the end is missing, or the beginning, is never decoded into a
  struct: the first is what a writer leaves that dies inside a line, the second what a reader
  sees that starts inside one. And what is printed has no line break, so that a reader who cuts
  at line breaks gets whole texts.
\<close>

section \<open>More text after a token\<close>

lemma hexVal_quote [simp]: "hexVal quoteChar = None"
  by (simp add: hexVal_def)

lemma cont_quote [simp]: "\<not> cont quoteChar"
  by (simp add: cont_def)

lemma lowSurrogate_append: "quoteChar \<in> set x \<Longrightarrow> lowSurrogate (x @ u) = lowSurrogate x"
proof -
  assume q: "quoteChar \<in> set x"
  consider a b c d e f r where "x = a # b # c # d # e # f # r" | "length x < 6"
    by (cases x; cases "tl x"; cases "tl (tl x)"; cases "tl (tl (tl x))"; cases "tl (tl (tl (tl x)))"; cases "tl (tl (tl (tl (tl x))))") auto
  then show ?thesis
  proof cases
    case 1
    then show ?thesis by (simp add: lowSurrogate_def)
  next
    case 2
    show ?thesis
    proof (cases "take 2 x = [backslash, CHR ''u'']")
      case True
      then obtain y where x: "x = backslash # CHR ''u'' # y" by (cases x; cases "tl x") auto
      then have y: "quoteChar \<in> set y" "length y < 4" using q 2 by auto
      have "hex4 (y @ u) = None"
        using y by (cases "y @ u" rule: hex4.cases; cases y; cases "tl y"; cases "tl (tl y)") (auto split: option.splits)
      moreover have "hex4 y = None" using y(2) by (cases y rule: hex4.cases) auto
      ultimately show ?thesis using x by (simp add: lowSurrogate_def)
    next
      case False
      moreover have "take 2 (x @ u) \<noteq> [backslash, CHR ''u'']"
        using False q by (cases x; cases "tl x") auto
      ultimately show ?thesis by (simp add: lowSurrogate_def)
    qed
  qed
qed

lemma runeLen_quote: "quoteChar \<in> set r \<Longrightarrow> runeLen (c # r @ u) = runeLen (c # r)"
  by (cases r; cases "tl r"; cases "tl (tl r)") (auto simp: runeLen_def split: list.split)

lemma hex4_append: "hex4 r = Some v \<Longrightarrow> hex4 (r @ u) = Some v \<and> 4 \<le> length r"
  by (cases r rule: hex4.cases) auto

lemma strStep_append:
  assumes "strStep c r = Some (out, n)" "quoteChar \<in> set (drop n r)"
  shows "strStep c (r @ u) = Some (out, n)" "n \<le> length r"
proof -
  have q: "quoteChar \<in> set r" using assms(2) by (meson in_set_dropD)
  show l: "n \<le> length r" using assms(2) by (cases "n \<le> length r") auto
  show "strStep c (r @ u) = Some (out, n)"
  proof (cases "c = backslash")
    case True
    then obtain e r2 where r: "r = e # r2" using assms(1) by (cases r) (auto simp: strStep_def)
    show ?thesis
    proof (cases "e = CHR ''u''")
      case e: True
      then obtain h where h: "hex4 r2 = Some h" using assms(1) True r by (auto simp: strStep_def split: option.splits)
      have x: "drop 4 (r2 @ u) = drop 4 r2 @ u" using hex4_append [OF h] by simp
      have "lowSurrogate (drop 4 r2 @ u) = lowSurrogate (drop 4 r2)" if "lowSurrogate (drop 4 r2) = None \<or> n = 5"
      proof (rule lowSurrogate_append)
        have "0xD800 \<le> h \<and> h < 0xE000 \<or> n = 5" using assms(1) True r e h by (auto simp: strStep_def split: if_splits)
        then have "n = 5" using that assms(1) True r e h by (auto simp: strStep_def split: if_splits)
        then show "quoteChar \<in> set (drop 4 r2)" using assms(2) r by simp
      qed
      moreover have "lowSurrogate (drop 4 r2 @ u) = Some v" if "lowSurrogate (drop 4 r2) = Some v" for v
      proof -
        from that have t: "take 2 (drop 4 r2) = [backslash, CHR ''u'']" by (auto simp: lowSurrogate_def split: if_splits)
        then have "length (take 2 (drop 4 r2)) = 2" by simp
        then have "2 \<le> length (drop 4 r2)" by simp
        then show ?thesis
          using that hex4_append [of "drop 2 (drop 4 r2)"] t
          by (auto simp: lowSurrogate_def split: if_splits option.splits)
      qed
      ultimately show ?thesis
        using assms(1) True r e h hex4_append [OF h, of u] x by (cases "lowSurrogate (drop 4 r2)") (auto simp: strStep_def split: if_splits)
    next
      case False
      then show ?thesis using assms(1) True r by (auto simp: strStep_def)
    qed
  next
    case False
    show ?thesis
    proof (cases "byte c < 0x80")
      case True
      then show ?thesis using assms(1) False by (auto simp: strStep_def split: if_splits)
    next
      case F: False
      have "take (runeLen (c # r)) (c # r @ u) = take (runeLen (c # r)) (c # r)"
        using runeLen_le [of "c # r"] by (metis append_Cons take_append diff_is_0_eq take0 append_Nil2)
      then show ?thesis
        using assms(1) False F runeLen_quote [OF q] by (auto simp: strStep_def split: if_splits)
    qed
  qed
qed

lemma decodeBody_quote: "decodeBody s = Some (t, rest) \<Longrightarrow> quoteChar \<in> set s"
proof (induction s arbitrary: t rule: decodeBody.induct)
  case (2 c r)
  show ?case
  proof (cases "c = quoteChar")
    case False
    with "2.prems" obtain out n t' where s: "strStep c r = Some (out, n)" "decodeBody (drop n r) = Some (t', rest)"
      by (auto simp: decodeBody.simps(2) split: option.splits)
    from "2.IH" [OF False s(1) refl s(2)] show ?thesis by (auto dest: in_set_dropD)
  qed simp
qed simp

lemma decodeBody_append: "decodeBody s = Some (t, rest) \<Longrightarrow> decodeBody (s @ u) = Some (t, rest @ u)"
proof (induction s arbitrary: t rule: decodeBody.induct)
  case (2 c r)
  show ?case
  proof (cases "c = quoteChar")
    case True
    with "2.prems" show ?thesis by (simp add: decodeBody.simps(2))
  next
    case False
    with "2.prems" obtain out n t' where s: "strStep c r = Some (out, n)" "decodeBody (drop n r) = Some (t', rest)" "t = out @ t'"
      by (auto simp: decodeBody.simps(2) split: option.splits)
    note a = strStep_append [OF s(1) decodeBody_quote [OF s(2)]]
    have "drop n (r @ u) = drop n r @ u" using a(2) by simp
    then show ?thesis using "2.IH" [OF False s(1) refl s(2)] a(1) [of u] False s(3) by (simp add: decodeBody.simps(2))
  qed
qed simp

lemma digits_longer:
  "afterDigits s \<noteq> [] \<Longrightarrow> digitsOf (s @ u) = digitsOf s"
  "afterDigits s \<noteq> [] \<Longrightarrow> afterDigits (s @ u) = afterDigits s @ u"
  by (auto simp: takeWhile_append dropWhile_append)

lemma scanInt_longer: "scanInt s = Some (i, r) \<Longrightarrow> r \<noteq> [] \<Longrightarrow> scanInt (s @ u) = Some (i, r @ u)"
  using digits_longer [of s u] by (auto simp: scanInt_def split: list.splits if_splits)

lemma scanFrac_longer: "scanFrac s = Some (i, r) \<Longrightarrow> r \<noteq> [] \<Longrightarrow> scanFrac (s @ u) = Some (i, r @ u)"
  using digits_longer [of "tl s" u] by (auto simp: scanFrac_def split: list.splits if_splits)

lemma scanExp_longer:
  assumes "scanExp s = Some (i, r)" "r \<noteq> []"
  shows "scanExp (s @ u) = Some (i, r @ u)"
proof (cases s)
  case (Cons c q)
  show ?thesis
  proof (cases "c = CHR ''e'' \<or> c = CHR ''E''")
    case True
    then show ?thesis
      using assms Cons digits_longer [of q u] digits_longer [of "tl q" u]
      by (cases q) (auto simp: scanExp_def Let_def split: if_splits)
  next
    case False
    then show ?thesis using assms Cons by (auto simp: scanExp_def)
  qed
qed (use assms in \<open>auto simp: scanExp_def\<close>)

lemma scanNumber_longer:
  assumes "scanNumber s = Some (n, r)" "r \<noteq> []"
  shows "scanNumber (s @ u) = Some (n, r @ u)"
proof -
  define sg where "sg = (case s of c # _ \<Rightarrow> if c = CHR ''-'' then [c] else [] | [] \<Rightarrow> [])"
  obtain i s1 f s2 e where a: "scanInt (drop (length sg) s) = Some (i, s1)" "scanFrac s1 = Some (f, s2)"
      "scanExp s2 = Some (e, r)" "n = sg @ i @ f @ e"
    using assms(1) by (auto simp: scanNumber_def sg_def [symmetric] Let_def split: option.splits)
  have "s2 \<noteq> []" "s1 \<noteq> []" using scanExp_length [OF a(3)] scanFrac_length [OF a(2)] assms(2) by auto
  moreover have "s \<noteq> []" using scanInt_length [OF a(1)] by auto
  then have "(case s @ u of c # _ \<Rightarrow> if c = CHR ''-'' then [c] else [] | [] \<Rightarrow> []) = sg"
      "drop (length sg) (s @ u) = drop (length sg) s @ u"
    by (auto simp: sg_def split: list.splits)
  ultimately show ?thesis
    using a scanInt_longer [OF a(1), of u] scanFrac_longer [OF a(2), of u] scanExp_longer [OF a(3) assms(2), of u]
    by (simp add: scanNumber_def Let_def)
qed

lemma cutPrefix_longer: "cutPrefix r w = Some x \<Longrightarrow> cutPrefix (r @ u) w = Some (x @ u)"
  by (simp add: cutPrefix_Some_iff)

text \<open>What the first byte of a token says of it.\<close>

lemma lexOne_cases:
  assumes "lexOne c r = Some (t, rest)"
  obtains (single) "rest = r" "c \<noteq> quoteChar" "\<And>q. lexOne c q = Some (t, q)" "\<nexists>n. t = TNum n"
    | (str) x where "c = quoteChar" "decodeBody r = Some (x, rest)" "t = TStr x"
    | (word) w v where "\<And>q. lexOne c q = scanWord w v q" "cutPrefix r w = Some rest" "t = TLit v" "c \<noteq> quoteChar"
        "(c, w) \<in> {(CHR ''t'', ''rue''), (CHR ''f'', ''alse''), (CHR ''n'', ''ull'')}"
    | (num) n where "\<And>q. lexOne c q = map_option (\<lambda>(n, rest). (TNum n, rest)) (scanNumber (c # q))"
        "scanNumber (c # r) = Some (n, rest)" "t = TNum n" "c \<noteq> quoteChar"
proof (cases "c \<in> {CHR ''{'', CHR ''}'', CHR ''['', CHR '']'', CHR '':'', CHR '',''}")
  case True
  then have "\<exists>s. (\<forall>q. lexOne c q = Some (s, q)) \<and> (\<nexists>n. s = TNum n) \<and> c \<noteq> quoteChar"
    by (elim insertE emptyE) (simp_all add: lexOne_def)
  then show ?thesis using assms single by force
next
  case F: False
  show ?thesis
  proof (cases "c \<in> {CHR ''t'', CHR ''f'', CHR ''n''}")
    case True
    then obtain w v where w: "\<And>q. lexOne c q = scanWord w v q" "c \<noteq> quoteChar"
        "(c, w) \<in> {(CHR ''t'', ''rue''), (CHR ''f'', ''alse''), (CHR ''n'', ''ull'')}"
      by (elim insertE emptyE) (simp_all add: lexOne_def)
    then have "cutPrefix r w = Some rest" "t = TLit v" using assms by (auto simp: scanWord_def)
    then show ?thesis using w word by blast
  next
    case G: False
    show ?thesis
    proof (cases "c = quoteChar")
      case True
      then show ?thesis using assms str by (auto simp: lexOne_def)
    next
      case False
      have l: "\<And>q. lexOne c q = map_option (\<lambda>(n, rest). (TNum n, rest)) (scanNumber (c # q))"
        using F G False by (simp add: lexOne_def)
      then obtain n where "scanNumber (c # r) = Some (n, rest)" "t = TNum n" using assms by auto
      then show ?thesis using l num False by blast
    qed
  qed
qed

lemma lexOne_append:
  assumes "lexOne c r = Some (t, rest)" "rest \<noteq> [] \<or> (\<nexists>n. t = TNum n)"
  shows "lexOne c (r @ u) = Some (t, rest @ u)"
  using assms(1)
proof (cases rule: lexOne_cases)
  case single
  then show ?thesis by simp
next
  case (str x)
  then show ?thesis using decodeBody_append [OF str(2)] by (simp add: lexOne_def)
next
  case (word w v)
  then show ?thesis using cutPrefix_longer [OF word(2)] by (simp add: scanWord_def)
next
  case (num n)
  then show ?thesis using scanNumber_longer [OF num(2), of u] assms(2) by auto
qed

section \<open>The end is missing\<close>

abbreviation blank :: "string \<Rightarrow> bool" where "blank s \<equiv> \<forall>c\<in>set s. isWs c"

lemma lexJSON_ws: "isWs c \<Longrightarrow> lexJSON (c # r) = lexJSON r"
  by (simp add: lexJSON.simps(2))

lemma lexJSON_token:
  "\<not> isWs c \<Longrightarrow> lexJSON (c # r) = Some ts \<longleftrightarrow>
     (\<exists>t rest ts1. lexOne c r = Some (t, rest) \<and> lexJSON rest = Some ts1 \<and> ts = t # ts1)"
  by (auto simp: lexJSON.simps(2) simp del: before_simps(3) split: option.split)

lemma lexJSON_empty: "lexJSON s = Some [] \<Longrightarrow> blank s"
proof (induction s)
  case (Cons c s)
  then show ?case by (cases "isWs c") (auto simp: lexJSON_ws lexJSON_token)
qed simp

lemma lexJSON_prefix:
  "lexJSON s = Some ts' \<Longrightarrow> lexJSON (s @ u) = Some ts \<Longrightarrow> \<not> blank u \<Longrightarrow>
   \<exists>ts0 r. ts = ts0 @ r \<and> r \<noteq> [] \<and> (ts' = ts0 \<or> (\<exists>n. ts' = ts0 @ [TNum n]))"
proof (induction s arbitrary: ts ts' rule: lexJSON.induct)
  case 1
  then show ?case using lexJSON_empty [of u] by (intro exI [of _ "[]"] exI [of _ ts]) auto
next
  case (2 c r)
  show ?case
  proof (cases "isWs c")
    case True
    then show ?thesis using "2.IH"(1) "2.prems" by (simp add: lexJSON_ws)
  next
    case False
    with "2.prems" obtain t rest ts1 where a: "lexOne c r = Some (t, rest)" "lexJSON rest = Some ts1" "ts' = t # ts1"
      by (auto simp: lexJSON_token)
    show ?thesis
    proof (cases "rest = [] \<and> (\<exists>n. t = TNum n)")
      case True
      moreover have "ts \<noteq> []" using "2.prems"(2) False lexJSON_empty [of "c # r @ u"] by auto
      ultimately show ?thesis using a by (intro exI [of _ "[]"] exI [of _ ts]) auto
    next
      case n: False
      then have "lexOne c (r @ u) = Some (t, rest @ u)" by (intro lexOne_append [OF a(1)]) auto
      with False "2.prems"(2) obtain ts2 where b: "lexJSON (rest @ u) = Some ts2" "ts = t # ts2"
        by (auto simp: lexJSON_token)
      from "2.IH"(2) [OF False a(1) refl a(2) b(1) "2.prems"(3)] obtain ts0 r0 where
        "ts2 = ts0 @ r0" "r0 \<noteq> []" "ts1 = ts0 \<or> (\<exists>n. ts1 = ts0 @ [TNum n])" by blast
      then show ?thesis using a(3) b(2) by (intro exI [of _ "t # ts0"] exI [of _ r0]) auto
    qed
  qed
qed

text \<open>The state of the automaton after some tokens.\<close>

fun stepTokens :: "phase \<Rightarrow> frame list \<Rightarrow> token list \<Rightarrow> (phase \<times> frame list) option" where
  "stepTokens p st [] = Some (p, st)"
| "stepTokens p st (t # ts) =
     (case stepToken p st t of None \<Rightarrow> None | Some (p', st') \<Rightarrow> stepTokens p' st' ts)"

lemma runTokens_append:
  "runTokens p st (ts @ us) = (case stepTokens p st ts of None \<Rightarrow> None | Some (p', st') \<Rightarrow> runTokens p' st' us)"
  by (induction p st ts rule: stepTokens.induct) (auto split: option.splits)

lemma runTokens_closed: "runTokens (AfterValue v) [] us = Some w \<Longrightarrow> us = []"
  by (cases us) (auto simp: stepToken_def endValue_def)

lemma stepToken_num: "stepToken p st (TNum n) = Some (AfterValue v, []) \<Longrightarrow> v = JNum n"
  by (auto simp: stepToken_def startValue_def startKey_def endValue_def split: phase.splits list.splits frame.splits)

lemma parseJSON_prefix:
  assumes "parseJSON (s @ u) \<noteq> None" "\<not> blank u" "parseJSON s = Some v"
  shows "\<exists>n. v = JNum n"
proof -
  obtain ts ts' where l: "lexJSON (s @ u) = Some ts" "lexJSON s = Some ts'"
      and r: "runTokens AtValue [] ts \<noteq> None" "runTokens AtValue [] ts' = Some v"
    using assms(1,3) by (auto simp: parseJSON_def split: option.splits)
  obtain ts0 us where c: "ts = ts0 @ us" "us \<noteq> []" "ts' = ts0 \<or> (\<exists>n. ts' = ts0 @ [TNum n])"
    using lexJSON_prefix [OF l(2,1) assms(2)] by blast
  obtain p st where st: "stepTokens AtValue [] ts0 = Some (p, st)" "runTokens p st us \<noteq> None"
    using r(1) c(1) by (auto simp: runTokens_append split: option.splits)
  show ?thesis
  proof (cases "ts' = ts0")
    case True
    then have "runTokens p st [] = Some v" using r(2) st(1) runTokens_append [of AtValue "[]" ts0 "[]"] by simp
    then show ?thesis using st(2) c(2) runTokens_closed by (fastforce split: phase.splits list.splits)
  next
    case False
    then obtain n where n: "ts' = ts0 @ [TNum n]" using c(3) by blast
    then obtain p' st' where "stepToken p st (TNum n) = Some (p', st')" "runTokens p' st' [] = Some v"
      using r(2) st(1) by (auto simp: runTokens_append split: option.splits)
    then show ?thesis using stepToken_num by (fastforce split: phase.splits list.splits)
  qed
qed

section \<open>The beginning is missing\<close>

subsection \<open>The text of a token\<close>

definition tailChar :: "char \<Rightarrow> bool" where
  "tailChar d \<longleftrightarrow> isDigit d \<or>
     d \<in> {CHR ''+'', CHR ''-'', CHR ''.'', CHR ''e'', CHR ''E'', CHR ''r'', CHR ''u'', CHR ''a'', CHR ''l'', CHR ''s''}"

lemma tailChar_digit: "isDigit d \<Longrightarrow> tailChar d"
  by (simp add: tailChar_def)

lemma tailChar_chars [simp]:
  "tailChar (CHR ''+'')" "tailChar (CHR ''-'')" "tailChar (CHR ''.'')" "tailChar (CHR ''e'')" "tailChar (CHR ''E'')"
  "tailChar (CHR ''r'')" "tailChar (CHR ''u'')" "tailChar (CHR ''a'')" "tailChar (CHR ''l'')" "tailChar (CHR ''s'')"
  by (simp_all add: tailChar_def)

lemma tailChar_digits: "d \<in> set (digitsOf s) \<Longrightarrow> tailChar d"
  by (auto intro: tailChar_digit dest: set_takeWhileD)

lemma scanInt_text: "scanInt s = Some (i, r) \<Longrightarrow> s = i @ r \<and> (\<forall>d\<in>set i. tailChar d)"
  by (auto simp: scanInt_def zero_isDigit intro: tailChar_digit tailChar_digits split: list.splits if_splits)

lemma scanFrac_text: "scanFrac s = Some (i, r) \<Longrightarrow> s = i @ r \<and> (\<forall>d\<in>set i. tailChar d)"
  by (auto simp: scanFrac_def intro: tailChar_digits split: list.splits if_splits)

lemma scanExp_text: "scanExp s = Some (i, r) \<Longrightarrow> s = i @ r \<and> (\<forall>d\<in>set i. tailChar d)"
  by (cases s; cases "tl s") (auto simp: scanExp_def Let_def intro: tailChar_digit tailChar_digits split: if_splits)

lemma scanNumber_text:
  assumes "scanNumber s = Some (n, r)"
  shows "s = n @ r \<and> (\<forall>d\<in>set n. tailChar d)"
proof -
  define sg where "sg = (case s of c # _ \<Rightarrow> if c = CHR ''-'' then [c] else [] | [] \<Rightarrow> [])"
  obtain i s1 f s2 e where a: "scanInt (drop (length sg) s) = Some (i, s1)" "scanFrac s1 = Some (f, s2)"
      "scanExp s2 = Some (e, r)" "n = sg @ i @ f @ e"
    using assms by (auto simp: scanNumber_def sg_def [symmetric] Let_def split: option.splits)
  have "s = sg @ drop (length sg) s" "\<forall>d\<in>set sg. tailChar d"
    by (auto simp: sg_def split: list.splits)
  then show ?thesis using a scanInt_text [OF a(1)] scanFrac_text [OF a(2)] scanExp_text [OF a(3)] by auto
qed

lemma lexOne_text:
  assumes "lexOne c r = Some (t, rest)" "c \<noteq> quoteChar"
  shows "c \<noteq> backslash" "\<exists>z. r = z @ rest \<and> (\<forall>d\<in>set z. tailChar d)"
proof -
  have "lexOne backslash r = None" by (simp add: lexOne_def scanNumber_def scanInt_def isDigit_def digitVal_def)
  then show "c \<noteq> backslash" using assms(1) by auto
  show "\<exists>z. r = z @ rest \<and> (\<forall>d\<in>set z. tailChar d)"
    using assms(1)
  proof (cases rule: lexOne_cases)
    case (word w v)
    then have "r = w @ rest" "\<forall>d\<in>set w. tailChar d" by (auto simp: cutPrefix_Some_iff)
    then show ?thesis by blast
  next
    case (num n)
    then show ?thesis using scanNumber_text [OF num(2)] scanNumber_length [OF num(2)] by (cases n) auto
  qed (use assms(2) in auto)
qed

lemma lexOne_numeric:
  assumes "c \<notin> {CHR ''{'', CHR ''}'', CHR ''['', CHR '']'', CHR '':'', CHR '','', quoteChar, CHR ''t'', CHR ''f'', CHR ''n''}"
    "lexOne c q = Some (t, rest)"
  shows "\<exists>n. t = TNum n"
proof -
  have "lexOne c q = map_option (\<lambda>(n, rest). (TNum n, rest)) (scanNumber (c # q))"
    using assms(1) by (simp add: lexOne_def)
  then show ?thesis using assms(2) by (auto dest: sym)
qed

lemma lexOne_tailChar:
  assumes "tailChar d"
  shows "\<not> isWs d" "lexOne d q = Some (t, rest) \<Longrightarrow> \<exists>n. t = TNum n"
proof -
  have d: "\<not> isDigit c" if "c \<in> {CHR ''{'', CHR ''}'', CHR ''['', CHR '']'', CHR '':'', CHR '','', quoteChar, CHR ''t'', CHR ''f'', CHR ''n'',
      CHR '' '', CHR 0x09, CHR 0x0A, CHR 0x0D}" for c
    using that by (elim insertE emptyE) (simp_all add: isDigit_def digitVal_def)
  then have n: "d \<notin> {CHR ''{'', CHR ''}'', CHR ''['', CHR '']'', CHR '':'', CHR '','', quoteChar, CHR ''t'', CHR ''f'', CHR ''n'',
      CHR '' '', CHR 0x09, CHR 0x0A, CHR 0x0D}"
    using assms unfolding tailChar_def by (elim disjE insertE emptyE) (blast, simp_all)
  then show "\<not> isWs d" by (simp add: isWs_def)
  show "\<exists>n. t = TNum n" if "lexOne d q = Some (t, rest)" using n that by (intro lexOne_numeric) simp_all
qed

subsection \<open>Inside a string literal\<close>

text \<open>A quote is inside a step through a literal only when it is the escaped byte.\<close>

lemma hex4_noQuote: "hex4 r = Some v \<Longrightarrow> quoteChar \<notin> set (take 4 r)"
  by (cases r rule: hex4.cases) (auto split: option.splits)

lemma runeLen_noQuote: "runeLen (c # r) \<noteq> 0 \<Longrightarrow> quoteChar \<notin> set (take (runeLen (c # r) - 1) r)"
  by (auto simp: runeLen_def split: list.splits if_splits)

lemma lowSurrogate_noQuote: "lowSurrogate r = Some v \<Longrightarrow> quoteChar \<notin> set (take 6 r)"
proof -
  assume "lowSurrogate r = Some v"
  then have "take 2 r = [backslash, CHR ''u'']" "hex4 (drop 2 r) = Some v"
    by (auto simp: lowSurrogate_def split: if_splits option.splits)
  moreover have "take 6 r = take 2 r @ take 4 (drop 2 r)" by (simp add: take_add [symmetric])
  ultimately show ?thesis using hex4_noQuote [of "drop 2 r"] by simp
qed

lemma strStep_noQuote:
  assumes "strStep c r = Some (out, n)" "\<not> (c = backslash \<and> r \<noteq> [] \<and> hd r = quoteChar)"
  shows "quoteChar \<notin> set (take n r)"
proof (cases "c = backslash")
  case True
  then obtain e r2 where r: "r = e # r2" using assms(1) by (cases r) (auto simp: strStep_def)
  show ?thesis
  proof (cases "e = CHR ''u''")
    case e: True
    then obtain h where h: "hex4 r2 = Some h" using assms(1) True r by (auto simp: strStep_def split: option.splits)
    have "n = 5 \<or> n = 11 \<and> lowSurrogate (drop 4 r2) \<noteq> None"
      using assms(1) True r e h by (auto simp: strStep_def split: if_splits option.splits)
    moreover have "take 10 r2 = take 4 r2 @ take 6 (drop 4 r2)" by (simp add: take_add [symmetric])
    ultimately show ?thesis
      using hex4_noQuote [OF h] lowSurrogate_noQuote [of "drop 4 r2"] r e by auto
  next
    case False
    then show ?thesis using assms True r by (auto simp: strStep_def)
  qed
next
  case False
  then show ?thesis using assms(1) runeLen_noQuote [of c r] by (auto simp: strStep_def split: if_splits)
qed

lemma strStep_within:
  assumes "strStep c (p @ quoteChar # b) = Some (out, n)" "last (c # p) \<noteq> backslash"
  shows "n \<le> length p"
proof (cases "c = backslash \<and> hd (p @ quoteChar # b) = quoteChar")
  case True
  then obtain q where "p = quoteChar # q" using assms(2) by (cases p) auto
  then show ?thesis using assms(1) True by (auto simp: strStep_def simpleEscape_def)
next
  case False
  then have "quoteChar \<notin> set (take n (p @ quoteChar # b))" by (intro strStep_noQuote [OF assms(1)]) auto
  then show ?thesis by (cases "n \<le> length p") (auto simp: take_Cons')
qed

lemma last_notin: "x \<notin> set a \<Longrightarrow> a \<noteq> [] \<Longrightarrow> last a \<noteq> x"
  by auto

text \<open>A literal ends at its first quote that does not follow a backslash.\<close>

lemma decodeBody_plain:
  "decodeBody (a @ quoteChar # b) = Some (s, rest) \<Longrightarrow> backslash \<notin> set a \<Longrightarrow> quoteChar \<notin> set a \<Longrightarrow> rest = b"
proof (induction a arbitrary: s rule: length_induct)
  case (1 a)
  show ?case
  proof (cases a)
    case Nil
    then show ?thesis using "1.prems"(1) by (simp add: decodeBody.simps(2))
  next
    case (Cons c p)
    then obtain out n t where t: "strStep c (p @ quoteChar # b) = Some (out, n)"
        "decodeBody (drop n (p @ quoteChar # b)) = Some (t, rest)"
      using "1.prems" by (auto simp: decodeBody.simps(2) split: option.splits)
    have "n \<le> length p" using t(1) "1.prems"(2) Cons last_notin [of backslash p] by (intro strStep_within) auto
    then have "decodeBody (drop n p @ quoteChar # b) = Some (t, rest)" using t(2) by simp
    moreover have "length (drop n p) < length a" using Cons by simp
    ultimately show ?thesis
      using "1.IH" [rule_format, of "drop n p" t] "1.prems"(2,3) Cons in_set_dropD [of _ n p] by auto
  qed
qed

lemma decodeBody_tail:
  "decodeBody (y @ a @ quoteChar # b) = Some (s, rest) \<Longrightarrow> a \<noteq> [] \<Longrightarrow> backslash \<notin> set a \<Longrightarrow> quoteChar \<notin> set a \<Longrightarrow>
   length rest < length (a @ quoteChar # b) \<Longrightarrow> rest = b"
proof (induction y arbitrary: s rule: length_induct)
  case (1 y)
  show ?case
  proof (cases y)
    case Nil
    then show ?thesis using "1.prems" decodeBody_plain by simp
  next
    case (Cons c p)
    then have "c \<noteq> quoteChar" using "1.prems"(1,5) by (auto simp: decodeBody.simps(2))
    then obtain out n t where t: "strStep c (p @ a @ quoteChar # b) = Some (out, n)"
        "decodeBody (drop n (p @ a @ quoteChar # b)) = Some (t, rest)"
      using "1.prems"(1) Cons by (auto simp: decodeBody.simps(2) split: option.splits)
    have n: "n \<le> length (p @ a)" using t(1) "1.prems"(2,3) last_notin [of backslash a] by (intro strStep_within [of c "p @ a" b]) auto
    show ?thesis
    proof (cases "n \<le> length p")
      case True
      then have "decodeBody (drop n p @ a @ quoteChar # b) = Some (t, rest)" using t(2) by simp
      moreover have "length (drop n p) < length y" using Cons by simp
      ultimately show ?thesis using "1.IH" "1.prems"(2-5) by blast
    next
      case False
      then have "decodeBody (drop (n - length p) a @ quoteChar # b) = Some (t, rest)" using t(2) n by simp
      then show ?thesis
        using decodeBody_plain [of "drop (n - length p) a"] "1.prems"(3,4) in_set_dropD [of _ "n - length p" a] by blast
    qed
  qed
qed

lemma decodeBody_text: "decodeBody s = Some (t, rest) \<Longrightarrow> \<exists>z. s = z @ quoteChar # rest"
proof (induction s arbitrary: t rule: decodeBody.induct)
  case (2 c r)
  show ?case
  proof (cases "c = quoteChar")
    case True
    then show ?thesis using "2.prems" by (auto simp: decodeBody.simps(2))
  next
    case False
    with "2.prems" obtain out n t' where s: "strStep c r = Some (out, n)" "decodeBody (drop n r) = Some (t', rest)"
      by (auto simp: decodeBody.simps(2) split: option.splits)
    from "2.IH" [OF False s(1) refl s(2)] obtain z where "drop n r = z @ quoteChar # rest" by blast
    then have "c # r = (c # take n r @ z) @ quoteChar # rest" by (metis append_Cons append_assoc append_take_drop_id)
    then show ?thesis by blast
  qed
qed simp

text \<open>Tokens up to the first quote: none holds a backslash.\<close>

lemma lexJSON_upto_quote:
  "lexJSON (a @ quoteChar # b) = Some us \<Longrightarrow> quoteChar \<notin> set a \<Longrightarrow> backslash \<notin> set a \<and> lexJSON (quoteChar # b) \<noteq> None"
proof (induction a arbitrary: us rule: length_induct)
  case (1 a)
  show ?case
  proof (cases a)
    case Nil
    then show ?thesis using "1.prems" by simp
  next
    case (Cons c p)
    show ?thesis
    proof (cases "isWs c")
      case True
      then have "lexJSON (p @ quoteChar # b) = Some us" "c \<noteq> backslash" using "1.prems"(1) Cons by (auto simp: lexJSON_ws isWs_def)
      then show ?thesis using "1.IH" "1.prems"(2) Cons by auto
    next
      case False
      then obtain t rest ts1 where t: "lexOne c (p @ quoteChar # b) = Some (t, rest)" "lexJSON rest = Some ts1"
        using "1.prems"(1) Cons by (auto simp: lexJSON_token)
      have c: "c \<noteq> quoteChar" using "1.prems"(2) Cons by auto
      obtain z where z: "p @ quoteChar # b = z @ rest" "\<forall>d\<in>set z. tailChar d" using lexOne_text(2) [OF t(1) c] by blast
      have "\<not> tailChar quoteChar" "\<not> tailChar backslash" by (simp_all add: tailChar_def isDigit_def digitVal_def)
      with z obtain q where q: "p = z @ q" "rest = q @ quoteChar # b" "backslash \<notin> set z"
        by (auto simp: append_eq_append_conv2 Cons_eq_append_conv)
      then have "backslash \<notin> set q \<and> lexJSON (quoteChar # b) \<noteq> None" using "1.IH" [rule_format, of q ts1] "1.prems"(2) Cons t(2) by auto
      then show ?thesis using Cons q lexOne_text(1) [OF t(1) c] by auto
    qed
  qed
qed

text \<open>A text and the same text behind a quote are never both sequences of tokens.\<close>

lemma first_quote: "quoteChar \<in> set s \<Longrightarrow> \<exists>a b. s = a @ quoteChar # b \<and> quoteChar \<notin> set a"
  by (rule split_list_first)

lemma lexJSON_inverted: "lexJSON b \<noteq> None \<Longrightarrow> lexJSON (quoteChar # b) = None"
proof (induction b rule: length_induct)
  case (1 b)
  show ?case
  proof (rule ccontr)
    assume "lexJSON (quoteChar # b) \<noteq> None"
    then obtain s rest where d: "decodeBody b = Some (s, rest)" "lexJSON rest \<noteq> None"
      by (auto simp: lexJSON_token isWs_def lexOne_def)
    obtain a b' where b: "b = a @ quoteChar # b'" "quoteChar \<notin> set a" using first_quote decodeBody_quote [OF d(1)] by blast
    then have l: "backslash \<notin> set a" "lexJSON (quoteChar # b') \<noteq> None" using lexJSON_upto_quote "1.prems" by blast+
    then have "rest = b'" using d(1) b decodeBody_plain by blast
    then show False using "1.IH" b l(2) d(2) by auto
  qed
qed

subsection \<open>The tokens of a tail\<close>

abbreviation scalarTok :: "token \<Rightarrow> bool" where "scalarTok t \<equiv> (\<exists>s. t = TStr s) \<or> (\<exists>n. t = TNum n)"

lemma lexJSON_in_string:
  assumes d: "decodeBody (y @ x) = Some (s, rest)" and l: "length rest < length x"
    and r: "lexJSON rest \<noteq> None" and x: "lexJSON x = Some us"
  shows "\<exists>t us'. us = t # us' \<and> scalarTok t"
proof -
  obtain z where z: "y @ x = z @ quoteChar # rest" using decodeBody_text [OF d] by blast
  have "length y + length x = Suc (length z + length rest)" using arg_cong [OF z, of length] by simp
  then have "length y \<le> length z" using l by simp
  then have "x = drop (length y) z @ quoteChar # rest" using arg_cong [OF z, of "drop (length y)"] by simp
  then have "quoteChar \<in> set x" by (metis in_set_conv_decomp)
  then obtain a b where b: "x = a @ quoteChar # b" "quoteChar \<notin> set a" using first_quote by blast
  note u = lexJSON_upto_quote [OF x [unfolded b(1)] b(2)]
  show ?thesis
  proof (cases "a = []")
    case True
    then show ?thesis using x b(1) by (auto simp: lexJSON_token isWs_def lexOne_def)
  next
    case False
    then have "rest = b" using decodeBody_tail [OF d [unfolded b(1)]] u b l by simp
    then show ?thesis using u r lexJSON_inverted [of b] by simp
  qed
qed

lemma lexJSON_blank: "blank y \<Longrightarrow> lexJSON (y @ x) = lexJSON x"
  by (induction y) (auto simp: lexJSON_ws)

lemma lexJSON_suffix:
  "lexJSON (y @ x) = Some ts \<Longrightarrow> \<not> blank y \<Longrightarrow> lexJSON x = Some us \<Longrightarrow>
   (\<exists>ts0. ts0 \<noteq> [] \<and> ts = ts0 @ us) \<or> (\<exists>t us'. us = t # us' \<and> scalarTok t)"
proof (induction y arbitrary: ts rule: length_induct)
  case (1 y)
  then obtain c p where y: "y = c # p" by (cases y) auto
  show ?case
  proof (cases "isWs c")
    case True
    then show ?thesis using "1.IH" [rule_format, of p ts] "1.prems" y by (auto simp: lexJSON_ws)
  next
    case False
    then obtain t rest ts1 where t: "lexOne c (p @ x) = Some (t, rest)" "lexJSON rest = Some ts1" "ts = t # ts1"
      using "1.prems"(1) y by (auto simp: lexJSON_token)
    obtain z where z: "p @ x = z @ rest" "c = quoteChar \<or> (\<forall>d\<in>set z. tailChar d)"
    proof (cases "c = quoteChar")
      case True
      then obtain s where "decodeBody (p @ x) = Some (s, rest)" using t(1) by (auto simp: lexOne_def)
      then show ?thesis using decodeBody_text that [of "_ @ [quoteChar]"] True by fastforce
    next
      case False
      then show ?thesis using lexOne_text(2) [OF t(1)] that by blast
    qed
    consider q where "rest = q @ x" "p = z @ q" | d q where "x = d # q @ rest" "d \<in> set z"
    proof (cases "length z \<le> length p")
      case True
      then have "p = z @ drop (length z) p"
        using arg_cong [OF z(1), of "take (length z)"] by (metis append_take_drop_id append_eq_conv_conj take_append diff_is_0_eq take0 append_Nil2)
      moreover have "drop (length z) p @ x = rest" using arg_cong [OF z(1), of "drop (length z)"] True by simp
      ultimately show ?thesis using that(1) by metis
    next
      case False
      then obtain d q where "drop (length p) z = d # q" by (cases "drop (length p) z") auto
      moreover have "x = drop (length p) z @ rest" "p = take (length p) z"
        using z(1) False by (auto simp: append_eq_append_conv_if)
      moreover from this(2) have "z = p @ drop (length p) z" by (metis append_take_drop_id)
      ultimately show ?thesis using that(2) [of d q] by (metis append_Cons in_set_conv_decomp)
    qed
    then show ?thesis
    proof cases
      case 1
      show ?thesis
      proof (cases "blank q")
        case True
        then show ?thesis using 1 t "1.prems"(3) lexJSON_blank by (intro disjI1 exI [of _ "[t]"]) simp
      next
        case F: False
        then have "(\<exists>ts0. ts0 \<noteq> [] \<and> ts1 = ts0 @ us) \<or> (\<exists>t us'. us = t # us' \<and> scalarTok t)"
          using "1.IH" [rule_format, of q ts1] 1 t(2) y "1.prems"(3) by simp
        then show ?thesis using t(3) by (metis append_Cons list.distinct(1))
      qed
    next
      case 2
      show ?thesis
      proof (cases "c = quoteChar")
        case True
        then obtain s where "decodeBody (p @ x) = Some (s, rest)" using t(1) by (auto simp: lexOne_def)
        then show ?thesis using lexJSON_in_string [of p x s rest us] t(2) 2(1) "1.prems"(3) by simp
      next
        case F: False
        then have "tailChar d" using z(2) 2(2) by blast
        then show ?thesis
          using "1.prems"(3) 2(1) lexOne_tailChar by (auto simp: lexJSON_token)
      qed
    qed
  qed
qed

subsection \<open>Brackets\<close>

definition bal :: "token \<Rightarrow> int" where
  "bal t = (case t of TOpenObj \<Rightarrow> 1 | TOpenArr \<Rightarrow> 1 | TCloseObj \<Rightarrow> - 1 | TCloseArr \<Rightarrow> - 1 | _ \<Rightarrow> 0)"

definition opened :: "phase \<Rightarrow> frame list \<Rightarrow> bool" where
  "opened p st \<longleftrightarrow> (case p of AtValue \<Rightarrow> True | AfterValue v \<Rightarrow> True | _ \<Rightarrow> st \<noteq> [])"

lemmas automaton_defs = stepToken_def startValue_def startKey_def endValue_def

lemma stepToken_opened:
  assumes "stepToken p st t = Some (p', st')" "opened p st"
  shows "opened p' st'" "int (length st') = int (length st) + bal t" "st' \<noteq> [] \<or> (\<exists>v. p' = AfterValue v)"
  using assms length_greater_0_conv [of st]
  by (auto simp: automaton_defs opened_def bal_def of_nat_diff Suc_le_eq split: phase.splits token.splits list.splits frame.splits if_splits)

lemma stepTokens_opened:
  "stepTokens p st ts = Some (p', st') \<Longrightarrow> opened p st \<Longrightarrow>
   opened p' st' \<and> int (length st') = int (length st) + sum_list (map bal ts) \<and> (ts \<noteq> [] \<longrightarrow> st' \<noteq> [] \<or> (\<exists>v. p' = AfterValue v))"
proof (induction p st ts rule: stepTokens.induct)
  case (2 p st t ts)
  then obtain q sq where a: "stepToken p st t = Some (q, sq)" "stepTokens q sq ts = Some (p', st')"
    by (auto split: option.splits)
  show ?case
    using "2.IH" [OF a(1) refl a(2) stepToken_opened(1) [OF a(1) "2.prems"(2)]] stepToken_opened [OF a(1) "2.prems"(2)] a(2)
    by (cases ts) auto
qed simp

lemma runTokens_bal:
  assumes "runTokens p st ts = Some v" "opened p st"
  shows "int (length st) + sum_list (map bal ts) = 0"
proof -
  obtain q sq where "stepTokens p st ts = Some (q, sq)" "runTokens q sq [] = Some v"
    using assms(1) runTokens_append [of p st ts "[]"] by (auto split: option.splits)
  then show ?thesis using stepTokens_opened [of p st ts q sq] assms(2) by (auto split: phase.splits list.splits)
qed

lemma runTokens_tail:
  assumes "runTokens AtValue [] (ts @ us) \<noteq> None" "ts \<noteq> []"
  shows "runTokens AtValue [] us = None"
proof (rule ccontr)
  assume "runTokens AtValue [] us \<noteq> None"
  then obtain v where v: "runTokens AtValue [] us = Some v" by blast
  have o: "opened AtValue []" by (simp add: opened_def)
  obtain p st w where s: "stepTokens AtValue [] ts = Some (p, st)" "runTokens p st us = Some w"
    using assms(1) by (auto simp: runTokens_append split: option.splits)
  note st = stepTokens_opened [OF s(1) o]
  have "int (length st) + sum_list (map bal us) = 0" using runTokens_bal [OF s(2)] st by blast
  moreover have "sum_list (map bal us) = 0" using runTokens_bal [OF v o] by simp
  ultimately have "st = []" by simp
  then obtain u where "p = AfterValue u" using st assms(2) by blast
  then have "us = []" using s(2) \<open>st = []\<close> runTokens_closed by blast
  then show False using v by simp
qed

lemma parseJSON_suffix:
  assumes "parseJSON (y @ x) \<noteq> None" "\<not> blank y" "parseJSON x = Some v"
  shows "(\<exists>n. v = JNum n) \<or> (\<exists>s. v = JStr s)"
proof -
  obtain ts us where l: "lexJSON (y @ x) = Some ts" "lexJSON x = Some us"
      and r: "runTokens AtValue [] ts \<noteq> None" "runTokens AtValue [] us = Some v"
    using assms(1,3) by (auto simp: parseJSON_def split: option.splits)
  from lexJSON_suffix [OF l(1) assms(2) l(2)] obtain t us' where t: "us = t # us'" "scalarTok t"
    using runTokens_tail [of _ us] r by fastforce
  then obtain w where w: "stepToken AtValue [] t = Some (AfterValue w, [])" "(\<exists>n. w = JNum n) \<or> (\<exists>s. w = JStr s)"
    by (auto simp: automaton_defs)
  then have "runTokens (AfterValue w) [] us' = Some v" using r(2) t(1) by simp
  then show ?thesis using runTokens_closed [of w us' v] w(2) by auto
qed

text \<open>The two together: no part of a JSON text that lacks some of its tokens is an object, an array or a word.\<close>

lemma parseJSON_torn:
  assumes "parseJSON (y @ x) \<noteq> None" "\<not> blank y" "\<not> blank x" "parseJSON s = Some v" "s = x \<or> s = y"
  shows "(\<exists>n. v = JNum n) \<or> (\<exists>s. v = JStr s)"
  using assms parseJSON_prefix [of y x] parseJSON_suffix [of y x] by blast

section \<open>A printed text is one line\<close>

abbreviation printable :: "string \<Rightarrow> bool" where "printable s \<equiv> \<forall>c\<in>set s. 0x20 \<le> byte c"

lemma hexDigit_printable: "d < 16 \<Longrightarrow> 0x20 \<le> byte (hexDigit d)"
  by (simp add: hexDigit_def)

lemma escapeByte_printable: "printable (escapeByte c)"
proof -
  have "byte c div 16 < 16" "byte c mod 16 < 16" by (simp_all add: of_char_def)
  then show ?thesis using hexDigit_printable by (auto simp: escapeByte_def escapeU_def)
qed

lemma quoteJSON_printable: "printable (quoteJSON s)"
proof -
  have "printable (escapeBody s)"
  proof (induction s rule: escapeBody.induct)
    case (2 a b c s)
    then show ?case
      using escapeByte_printable [of a]
      by (cases "a = CHR 0xE2 \<and> b = CHR 0x80 \<and> (c = CHR 0xA8 \<or> c = CHR 0xA9)") (auto simp: escapeBody.simps(2))
  qed (use escapeByte_printable in auto)
  then show ?thesis by (simp add: quoteJSON_def)
qed

lemma number_printable: "validNum n \<Longrightarrow> printable n"
proof -
  assume "validNum n"
  then have "\<forall>d\<in>set n. tailChar d" using scanNumber_text [of n n "[]"] by (simp add: validNum_def)
  moreover have "0x20 \<le> byte d" if "tailChar d" for d
    using that unfolding tailChar_def isDigit_def by (elim disjE insertE emptyE) (auto simp: digitVal_def Let_def split: if_splits)
  ultimately show ?thesis by blast
qed

lemma join_printable: "\<forall>s\<in>set ss. printable s \<Longrightarrow> printable (joinWith '','' ss)"
  by (cases ss) (auto simp: joinWith_comma simp del: joinWith.simps(2,3))

lemma marshal_printable: "canonJSON v \<Longrightarrow> printable (marshal v)"
proof (induction v rule: marshal.induct)
  case (5 vs)
  then have "printable (joinWith '','' (map marshal vs))" by (intro join_printable) (auto simp: list_all_iff)
  then show ?case by simp
next
  case (6 kvs)
  have "printable (joinWith '','' (map snd (sort_key fst (map (\<lambda>(k, v). (k, quoteJSON k @ '':'' @ marshal v)) kvs))))"
    using 6 quoteJSON_printable by (intro join_printable) (fastforce simp: list_all_iff)
  then show ?case by simp
qed (use number_printable quoteJSON_printable in auto)

end
