(* ===== verification/Event.thy ===== *)
theory Event
  imports Json_Torn
begin

text \<open>
  src/internal/stateprojector/event.go: the vm.state_change payload ukpd writes, the
  extraction of the instance uuid and of the old and new state from it, the event's
  timestamp, and the truncation of payloads that are logged verbatim.
\<close>

section \<open>The payload\<close>

record stateChange =
  ev_Timestamp :: string
  ev_Type :: string
  ev_Data :: "(string, json) gomap"
  ev_ObjectUUID :: string
  ev_Raw :: string

definition onState :: string where "onState = ''running''"
definition maxEventSkew :: duration where "maxEventSkew = minute"

section \<open>Decoding and encoding\<close>

text \<open>
  \<open>json.Unmarshal\<close> into a \<open>stateChange\<close>: the tags of the struct, \<open>Raw\<close> left out; \<open>None\<close> is an error.
  A second \<open>data\<close> object adds to the first one's entries.
\<close>

definition zeroEvent :: stateChange where
  "zeroEvent = \<lparr>ev_Timestamp = [], ev_Type = [], ev_Data = [], ev_ObjectUUID = [], ev_Raw = []\<rparr>"

definition setObjectField :: "string \<times> json \<Rightarrow> stateChange \<Rightarrow> stateChange option" where
  "setObjectField kv ev =
     (case matchField [''uuid''] (fst kv) of
        None \<Rightarrow> Some ev
      | Some n \<Rightarrow> map_option (\<lambda>s. ev\<lparr>ev_ObjectUUID := s\<rparr>) (intoString (snd kv) (ev_ObjectUUID ev)))"

definition setEventField :: "string \<times> json \<Rightarrow> stateChange \<Rightarrow> stateChange option" where
  "setEventField kv ev =
     (case matchField [''timestamp'', ''type'', ''data'', ''object''] (fst kv) of
        None \<Rightarrow> Some ev
      | Some n \<Rightarrow>
          if n = ''timestamp'' then map_option (\<lambda>s. ev\<lparr>ev_Timestamp := s\<rparr>) (intoString (snd kv) (ev_Timestamp ev))
          else if n = ''type'' then map_option (\<lambda>s. ev\<lparr>ev_Type := s\<rparr>) (intoString (snd kv) (ev_Type ev))
          else if n = ''data'' then map_option (\<lambda>d. ev\<lparr>ev_Data := d\<rparr>) (intoAnyMap (snd kv) (ev_Data ev))
          else (case snd kv of
                  JNull \<Rightarrow> Some ev
                | JObj ms \<Rightarrow> foldOpt setObjectField ms ev
                | _ \<Rightarrow> None))"

definition decodeStateChange :: "json \<Rightarrow> stateChange option" where
  "decodeStateChange v =
     (case v of JNull \<Rightarrow> Some zeroEvent | JObj kvs \<Rightarrow> foldOpt setEventField kvs zeroEvent | _ \<Rightarrow> None)"

definition unmarshalStateChange :: "string \<Rightarrow> stateChange option" where
  "unmarshalStateChange line = (case parseJSON line of None \<Rightarrow> None | Some v \<Rightarrow> decodeStateChange v)"

text \<open>
  \<open>json.Marshal\<close> of the struct, its fields in order; a data map without entries is nil here. \<open>raw\<close> is
  the text that is logged.
\<close>

definition marshalStateChange :: "stateChange \<Rightarrow> string" where
  "marshalStateChange ev =
     ''{'' @ joinWith '',''
        [quoteJSON ''timestamp'' @ '':'' @ quoteJSON (ev_Timestamp ev),
         quoteJSON ''type'' @ '':'' @ quoteJSON (ev_Type ev),
         quoteJSON ''data'' @ '':'' @ (if ev_Data ev = [] then ''null'' else marshal (JObj (ev_Data ev))),
         quoteJSON ''object'' @ '':'' @ ''{'' @ quoteJSON ''uuid'' @ '':'' @ quoteJSON (ev_ObjectUUID ev) @ ''}''] @ ''}''"

definition rawEvent :: "stateChange \<Rightarrow> string" where
  "rawEvent ev = (if length (ev_Raw ev) > 0 then ev_Raw ev else marshalStateChange ev)"

section \<open>extractTransition\<close>

text \<open>The regular expression \<open>uuidRe\<close>: hexadecimal groups of 8, 4, 4, 4 and 12 digits.\<close>

definition uuidShaped :: "string \<Rightarrow> bool" where
  "uuidShaped s \<longleftrightarrow> length s = 36 \<and>
     list_all (\<lambda>i. if i \<in> {8, 13, 18, 23} then s ! i = CHR ''-'' else isHex (s ! i)) [0..<36]"

text \<open>\<open>uuidRe.Find\<close>: the leftmost match; every match has length 36.\<close>

fun uuidFind :: "string \<Rightarrow> string option" where
  "uuidFind [] = None"
| "uuidFind (c # s) = (if uuidShaped (take 36 (c # s)) then Some (take 36 (c # s)) else uuidFind s)"

definition stringField :: "(string, json) gomap \<Rightarrow> string \<Rightarrow> string" where
  "stringField m key = (case map_of m key of Some (JStr s) \<Rightarrow> s | _ \<Rightarrow> '''')"

definition extractTransition :: "stateChange \<Rightarrow> string \<times> string \<times> string" where
  "extractTransition ev =
     (let uuid = ev_ObjectUUID ev;
          uuid = (if uuid = '''' then stringField (ev_Data ev) ''vm'' else uuid);
          uuid = (if uuid = '''' then
                    (case uuidFind (marshal (JObj (ev_Data ev))) of Some m \<Rightarrow> m | None \<Rightarrow> uuid)
                  else uuid);
          newState = stringField (ev_Data ev) ''new'';
          oldState = stringField (ev_Data ev) ''prev''
      in (uuid, oldState, newState))"

section \<open>parseTime and truncate\<close>

text \<open>
  The dynamic types \<open>parseTime\<close> switches on. A float64 carries its int64 conversion; a
  \<open>json.Number\<close> is the literal, whose \<open>Int64\<close> is \<open>strconv.ParseInt\<close>.
\<close>

datatype timeValue = TString string | TFloat int | TNumber string | TOther

fun parseTime :: "timeValue \<Rightarrow> time" where
  "parseTime (TString t) =
     (case parseRFC3339Nano t of
        Some tt \<Rightarrow> tt
      | None \<Rightarrow> (case parseInt t of Some n \<Rightarrow> unixTime n | None \<Rightarrow> zeroTime))"
| "parseTime (TFloat n) = unixTime n"
| "parseTime (TNumber t) = (case parseInt t of Some n \<Rightarrow> unixTime n | None \<Rightarrow> zeroTime)"
| "parseTime TOther = zeroTime"

definition truncatePayload :: "string \<Rightarrow> nat \<Rightarrow> string" where
  "truncatePayload b limit =
     (if length b \<le> limit then b
      else take limit b @ '' ...('' @ formatInt (int (length b - limit)) @ '' bytes truncated)'')"

section \<open>Lemmas\<close>

lemma uuidShaped_length: "uuidShaped s \<Longrightarrow> length s = 36"
  by (simp add: uuidShaped_def)

lemma uuidShaped_nonempty: "uuidShaped s \<Longrightarrow> s \<noteq> ''''"
  by (auto dest: uuidShaped_length)

lemma uuidFind_Some: "uuidFind s = Some m \<Longrightarrow> uuidShaped m \<and> sublist m s"
proof (induction s rule: uuidFind.induct)
  case 1
  then show ?case by simp
next
  case (2 c s)
  show ?case
  proof (cases "uuidShaped (take 36 (c # s))")
    case True
    with "2.prems" have "m = take 36 (c # s)" by simp
    with True show ?thesis by (simp only: sublist_take simp_thms)
  next
    case False
    with 2 have "uuidShaped m \<and> sublist m s" by simp
    then show ?thesis by (auto intro: sublist_Cons_right [THEN iffD2])
  qed
qed

lemma uuidFind_append:
  "uuidShaped m \<Longrightarrow> \<exists>u. uuidFind (a @ m @ b) = Some u"
proof (induction a)
  case Nil
  then obtain c r where "m @ b = c # r" by (cases "m @ b") (auto dest: uuidShaped_length)
  moreover from Nil have "take 36 (m @ b) = m" by (simp add: uuidShaped_length)
  ultimately show ?case using Nil by (metis append_Nil uuidFind.simps(2))
next
  case (Cons c a)
  then show ?case by auto
qed

lemma uuidFind_iff: "(\<exists>m. sublist m s \<and> uuidShaped m) \<longleftrightarrow> (\<exists>u. uuidFind s = Some u)"
proof
  assume "\<exists>m. sublist m s \<and> uuidShaped m"
  then obtain a m b where "s = a @ m @ b" "uuidShaped m" by (auto simp: sublist_def)
  then show "\<exists>u. uuidFind s = Some u" using uuidFind_append by simp
next
  assume "\<exists>u. uuidFind s = Some u"
  then show "\<exists>m. sublist m s \<and> uuidShaped m" using uuidFind_Some by blast
qed

lemma stringField_update [simp]:
  "stringField (AList.update k (JStr v) m) k' = (if k' = k then v else stringField m k')"
  by (simp add: stringField_def)

text \<open>The vendor payload: the uuid in data "vm", the states in "prev" and "new".\<close>

lemma extractTransition_vm:
  "ev_ObjectUUID ev = '''' \<Longrightarrow> map_of (ev_Data ev) ''vm'' = Some (JStr u) \<Longrightarrow> u \<noteq> '''' \<Longrightarrow>
   extractTransition ev =
     (u, stringField (ev_Data ev) ''prev'', stringField (ev_Data ev) ''new'')"
  by (simp add: extractTransition_def stringField_def)

lemma extractTransition_object:
  "ev_ObjectUUID ev \<noteq> '''' \<Longrightarrow>
   extractTransition ev =
     (ev_ObjectUUID ev, stringField (ev_Data ev) ''prev'', stringField (ev_Data ev) ''new'')"
  by (simp add: extractTransition_def)

lemma parseTime_formatted: "wireTime t \<Longrightarrow> parseTime (TString (formatRFC3339Nano t)) = t"
  by (simp add: parse_format)

text \<open>The value a \<open>stateChange\<close> is printed as.\<close>

definition eventValue :: "stateChange \<Rightarrow> json" where
  "eventValue ev =
     JObj [(''timestamp'', JStr (ev_Timestamp ev)), (''type'', JStr (ev_Type ev)),
           (''data'', if ev_Data ev = [] then JNull else JObj (ev_Data ev)),
           (''object'', JObj [(''uuid'', JStr (ev_ObjectUUID ev))])]"

definition eventOk :: "stateChange \<Rightarrow> bool" where
  "eventOk ev \<longleftrightarrow> validUTF8 (ev_Timestamp ev) \<and> validUTF8 (ev_Type ev) \<and> validUTF8 (ev_ObjectUUID ev) \<and>
     anyJSON (JObj (ev_Data ev)) \<and> depthJSON (JObj (ev_Data ev)) < maxNestingDepth"

lemma fieldNames_valid: "validUTF8 ''timestamp''" "validUTF8 ''type''" "validUTF8 ''data''" "validUTF8 ''object''" "validUTF8 ''uuid''"
  by code_simp+

lemma marshalStateChange_lexes:
  assumes "eventOk ev"
  shows "lexes (marshalStateChange ev) (toksJSON (eventValue ev))"
proof -
  have str: "lexes (quoteJSON s) [TStr s]" if "validUTF8 s" for s
    using lex_quote [OF that] by (simp add: lexes_def)
  let ?data = "if ev_Data ev = [] then ''null'' else marshal (JObj (ev_Data ev))"
  let ?dv = "if ev_Data ev = [] then JNull else JObj (ev_Data ev)"
  have data: "lexes ?data (toksJSON ?dv)"
    using lexes_marshal [of JNull] lexes_marshal [OF anyJSON_canon, of "JObj (ev_Data ev)"] assms
    unfolding eventOk_def by (cases "ev_Data ev = []") (simp_all only: if_True if_False marshal.simps(1) canonJSON.simps(1) simp_thms)
  have obj: "lexes (''{'' @ (quoteJSON ''uuid'' @ CHR '':'' # quoteJSON (ev_ObjectUUID ev)) @ ''}'')
      (TOpenObj # (TStr ''uuid'' # TColon # [TStr (ev_ObjectUUID ev)]) @ [TCloseObj])"
    using assms fieldNames_valid by (intro lexes_bracket(2) lexes_member str) (simp_all add: eventOk_def)
  have "list_all2 lexes
      [quoteJSON ''timestamp'' @ CHR '':'' # quoteJSON (ev_Timestamp ev), quoteJSON ''type'' @ CHR '':'' # quoteJSON (ev_Type ev),
       quoteJSON ''data'' @ CHR '':'' # ?data,
       quoteJSON ''object'' @ CHR '':'' # (''{'' @ (quoteJSON ''uuid'' @ CHR '':'' # quoteJSON (ev_ObjectUUID ev)) @ ''}'')]
      [TStr ''timestamp'' # TColon # [TStr (ev_Timestamp ev)], TStr ''type'' # TColon # [TStr (ev_Type ev)],
       TStr ''data'' # TColon # toksJSON ?dv,
       TStr ''object'' # TColon # TOpenObj # (TStr ''uuid'' # TColon # [TStr (ev_ObjectUUID ev)]) @ [TCloseObj]]"
    using assms fieldNames_valid data obj str
    by (intro list_all2_Cons [THEN iffD2] conjI lexes_member list.rel_intros(1)) (simp_all add: eventOk_def)
  from lexes_bracket(2) [OF lexes_join [OF this]] show ?thesis
    unfolding marshalStateChange_def eventValue_def by (simp add: commaToks_def)
qed

lemma decode_eventValue:
  assumes "eventOk ev"
  shows "decodeStateChange (eventValue ev) = Some (ev\<lparr>ev_Raw := []\<rparr>)"
proof -
  have "intoAnyMap (if ev_Data ev = [] then JNull else JObj (ev_Data ev)) [] = Some (ev_Data ev)"
    using assms intoAnyMap_any [of "ev_Data ev"] by (auto simp: eventOk_def intoAnyMap_def)
  then show ?thesis
    by (simp add: decodeStateChange_def eventValue_def setEventField_def setObjectField_def matchField_def intoString_def zeroEvent_def)
qed

lemma unmarshal_marshal:
  assumes "eventOk ev"
  shows "unmarshalStateChange (marshalStateChange ev) = Some (ev\<lparr>ev_Raw := []\<rparr>)"
proof -
  have "depthJSON (eventValue ev) \<le> maxNestingDepth"
    using assms by (auto simp: eventOk_def eventValue_def maxNestingDepth_def)
  then have "parseJSON (marshalStateChange ev) = Some (eventValue ev)"
    by (rule parse_tokens [OF marshalStateChange_lexes [OF assms]])
  then show ?thesis by (simp add: unmarshalStateChange_def decode_eventValue [OF assms])
qed

text \<open>Unknown fields are skipped, whatever they hold.\<close>

lemma foldOpt_append: "foldOpt f (xs @ ys) a = (case foldOpt f xs a of None \<Rightarrow> None | Some b \<Rightarrow> foldOpt f ys b)"
  by (induction xs arbitrary: a) (auto split: option.splits)

lemma unknown_field:
  assumes "matchField [''timestamp'', ''type'', ''data'', ''object''] k = None"
  shows "decodeStateChange (JObj (xs @ (k, v) # ys)) = decodeStateChange (JObj (xs @ ys))"
proof -
  have "setEventField (k, v) ev = Some ev" for ev using assms by (simp add: setEventField_def)
  then show ?thesis by (simp add: decodeStateChange_def foldOpt_append split: option.split)
qed

text \<open>Neither part of an event that was cut in two decodes, and an event is printed on one line.\<close>

lemma unmarshal_torn:
  assumes "unmarshalStateChange (y @ x) \<noteq> None" "\<not> blank y" "\<not> blank x"
  shows "unmarshalStateChange y = None" "unmarshalStateChange x = None"
proof -
  have p: "parseJSON (y @ x) \<noteq> None" using assms(1) by (auto simp: unmarshalStateChange_def split: option.splits)
  have "unmarshalStateChange s = None" if "s = x \<or> s = y" for s
    using parseJSON_torn [OF p assms(2,3) _ that]
    by (cases "parseJSON s") (auto simp: unmarshalStateChange_def decodeStateChange_def)
  then show "unmarshalStateChange y = None" "unmarshalStateChange x = None" by blast+
qed

lemma marshalStateChange_printable:
  assumes "eventOk ev"
  shows "printable (marshalStateChange ev)"
proof -
  have "printable (if ev_Data ev = [] then ''null'' else marshal (JObj (ev_Data ev)))"
    using marshal_printable [OF anyJSON_canon, of "JObj (ev_Data ev)"] assms by (auto simp: eventOk_def simp del: marshal.simps)
  then have "printable (joinWith '',''
        [quoteJSON ''timestamp'' @ '':'' @ quoteJSON (ev_Timestamp ev),
         quoteJSON ''type'' @ '':'' @ quoteJSON (ev_Type ev),
         quoteJSON ''data'' @ '':'' @ (if ev_Data ev = [] then ''null'' else marshal (JObj (ev_Data ev))),
         quoteJSON ''object'' @ '':'' @ ''{'' @ quoteJSON ''uuid'' @ '':'' @ quoteJSON (ev_ObjectUUID ev) @ ''}''])"
    using quoteJSON_printable by (intro join_printable) (fastforce simp del: marshal.simps)
  then show ?thesis unfolding marshalStateChange_def by (simp del: marshal.simps)
qed

section \<open>Properties\<close>

text \<open>
  C37. A uuid is found whenever the payload has one: the object's uuid wins, then data "vm", and
  otherwise the result is a uuid-shaped part of the encoded data exactly when there is one, and
  empty when there is none. The states are data "prev" and "new" in every case.
\<close>

theorem extractTransition_uuid:
  assumes "extractTransition ev = (uuid, old, new)"
  shows "old = stringField (ev_Data ev) ''prev'' \<and> new = stringField (ev_Data ev) ''new'' \<and>
    (if ev_ObjectUUID ev \<noteq> '''' then uuid = ev_ObjectUUID ev
     else if stringField (ev_Data ev) ''vm'' \<noteq> '''' then uuid = stringField (ev_Data ev) ''vm''
     else if \<exists>m. sublist m (marshal (JObj (ev_Data ev))) \<and> uuidShaped m
          then uuidShaped uuid \<and> sublist uuid (marshal (JObj (ev_Data ev)))
          else uuid = '''')"
proof (cases "uuidFind (marshal (JObj (ev_Data ev)))")
  case None
  then show ?thesis
    using assms uuidFind_iff [of "marshal (JObj (ev_Data ev))"] by (auto simp: extractTransition_def Let_def)
next
  case (Some m)
  then show ?thesis
    using assms uuidFind_iff [of "marshal (JObj (ev_Data ev))"] uuidFind_Some [OF Some]
    by (auto simp: extractTransition_def Let_def)
qed

text \<open>
  Timestamps survive the wire: a time with a four-digit year printed as RFC 3339 with
  nanoseconds parses back to the same instant.
\<close>

theorem timestamp_roundtrip:
  assumes "wireTime t"
  shows "parseTime (TString (formatRFC3339Nano t)) = t"
  using assms by (rule parseTime_formatted)

theorem extractTransition_uuid_witness:
  "extractTransition \<lparr>ev_Timestamp = '''', ev_Type = '''', ev_Data = [(''new'', JStr ''running'')],
     ev_ObjectUUID = ''u'', ev_Raw = ''''\<rparr> = (''u'', '''', ''running'')"
proof -
  let ?ev = "\<lparr>ev_Timestamp = '''', ev_Type = '''', ev_Data = [(''new'', JStr ''running'')],
     ev_ObjectUUID = ''u'', ev_Raw = ''''\<rparr>"
  obtain uuid old new where x: "extractTransition ?ev = (uuid, old, new)" by (metis prod_cases3)
  show ?thesis using extractTransition_uuid [OF x] x by (simp add: stringField_def)
qed

theorem timestamp_roundtrip_witness: "parseTime (TString (formatRFC3339Nano (1767225600 * second + 5))) = 1767225600 * second + 5"
  using timestamp_roundtrip [of "1767225600 * second + 5"] by (simp add: wireTime_def second_def del: parseTime.simps)

end
