(* ===== verification/Window.thy ===== *)
theory Window
  imports Go_Base
begin

text \<open>
  src/internal/stateprojector/stats.go and window.go: the counters every component bumps,
  the attribution record a window caches, and the store of open running windows with its
  operations. The store is a Go map from instance uuid to window. The mutex makes each
  caller's transition atomic, so it has no counterpart here.
\<close>

section \<open>Counters\<close>

record stats =
  decodeErrors :: int
  eventsReceived :: int
  eventsWrongTyp :: int
  noUUID :: int
  noState :: int
  windowsOpened :: int
  windowsClosed :: int
  recordsWritten :: int
  writeErrors :: int
  unresolved :: int
  podIndexed :: int
  watchErrors :: int
  staleEvents :: int
  overbilled :: int
  rotations :: int
  rotationDeletes :: int
  projectLabelMissing :: int

definition zeroStats :: stats where
  "zeroStats = \<lparr>decodeErrors = 0, eventsReceived = 0, eventsWrongTyp = 0, noUUID = 0, noState = 0,
     windowsOpened = 0, windowsClosed = 0, recordsWritten = 0, writeErrors = 0, unresolved = 0,
     podIndexed = 0, watchErrors = 0, staleEvents = 0, overbilled = 0, rotations = 0,
     rotationDeletes = 0, projectLabelMissing = 0\<rparr>"

section \<open>Attribution and windows\<close>

text \<open>The struct \<open>info\<close> of pod_index.go: identity and resources of a provider Pod.\<close>

record info =
  i_project :: string
  i_instance :: string
  i_vcpuMilli :: int
  i_memoryBytes :: int

record window =
  w_uuid :: string
  w_runningSince :: time
  w_reportedUntil :: time
  w_resolved :: "info option"
  w_records :: nat
  w_lastResolveLog :: string

type_synonym windowStore = "(string, window) gomap"

definition newWindowStore :: windowStore where "newWindowStore = []"

definition freshWindow :: "string \<Rightarrow> time \<Rightarrow> window" where
  "freshWindow uuid at =
     \<lparr>w_uuid = uuid, w_runningSince = at, w_reportedUntil = at, w_resolved = None,
      w_records = 0, w_lastResolveLog = ''''\<rparr>"

definition getOrOpen :: "windowStore \<Rightarrow> string \<Rightarrow> time \<Rightarrow> window \<times> bool \<times> windowStore" where
  "getOrOpen s uuid at =
     (case map_of s uuid of
        Some w \<Rightarrow> (w, False, s)
      | None \<Rightarrow> (let w = freshWindow uuid at in (w, True, AList.update uuid w s)))"

definition getWindow :: "windowStore \<Rightarrow> string \<Rightarrow> window option" where
  "getWindow s uuid = map_of s uuid"

definition deleteWindow :: "windowStore \<Rightarrow> string \<Rightarrow> windowStore" where
  "deleteWindow s uuid = AList.delete uuid s"

definition lenWindows :: "windowStore \<Rightarrow> nat" where
  "lenWindows s = length s"

text \<open>\<open>all\<close> collects the windows in map order, without their keys.\<close>

definition allWindows :: "windowStore \<Rightarrow> window list" where
  "allWindows s = map snd s"

text \<open>
  Go hands out pointers to the stored windows; a change to a window that stays in the store
  is written back here.
\<close>

definition putWindow :: "windowStore \<Rightarrow> window \<Rightarrow> windowStore" where
  "putWindow s w = AList.update (w_uuid w) w s"

section \<open>Well-formed stores\<close>

definition window_ok :: "window \<Rightarrow> bool" where
  "window_ok w \<longleftrightarrow> w_runningSince w \<le> w_reportedUntil w"

definition windowStore_ok :: "windowStore \<Rightarrow> bool" where
  "windowStore_ok s \<longleftrightarrow> gomap_ok s \<and> list_all (\<lambda>(u, w). w_uuid w = u \<and> window_ok w) s"

lemmas window_store_defs = getOrOpen_def getWindow_def deleteWindow_def lenWindows_def
  allWindows_def putWindow_def newWindowStore_def

lemma getWindow_new [simp]: "getWindow newWindowStore u = None"
  by (simp add: window_store_defs)

lemma getWindow_delete [simp]:
  "getWindow (deleteWindow s u) v = (if v = u then None else getWindow s v)"
  by (simp add: window_store_defs)

lemma getOrOpen_present: "getWindow s u = Some w \<Longrightarrow> getOrOpen s u t = (w, False, s)"
  by (simp add: window_store_defs)

lemma getOrOpen_absent:
  "getWindow s u = None \<Longrightarrow>
   getOrOpen s u t = (freshWindow u t, True, AList.update u (freshWindow u t) s)"
  by (simp add: window_store_defs Let_def)

lemma windowStore_okD:
  "windowStore_ok s \<Longrightarrow> map_of s u = Some w \<Longrightarrow> w_uuid w = u \<and> window_ok w"
  by (auto simp: windowStore_ok_def list_all_iff dest!: map_of_SomeD)

lemma windowStore_okI:
  assumes "gomap_ok s" "\<And>u w. map_of s u = Some w \<Longrightarrow> w_uuid w = u \<and> window_ok w"
  shows "windowStore_ok s"
  using assms by (auto simp: windowStore_ok_def list_all_iff gomap_ok_def)

lemma windowStore_ok_gomap [dest]: "windowStore_ok s \<Longrightarrow> gomap_ok s"
  by (simp add: windowStore_ok_def)

lemma windowStore_ok_new [simp, intro]: "windowStore_ok newWindowStore"
  by (simp add: windowStore_ok_def newWindowStore_def)

lemma freshWindow_simps [simp]:
  "w_uuid (freshWindow u t) = u" "w_runningSince (freshWindow u t) = t"
  "w_reportedUntil (freshWindow u t) = t" "w_resolved (freshWindow u t) = None"
  "w_records (freshWindow u t) = 0" "w_lastResolveLog (freshWindow u t) = ''''"
  "window_ok (freshWindow u t)"
  by (simp_all add: freshWindow_def window_ok_def)

lemma windowStore_ok_putWindow [intro]:
  "windowStore_ok s \<Longrightarrow> window_ok w \<Longrightarrow> windowStore_ok (putWindow s w)"
  by (rule windowStore_okI) (auto simp: putWindow_def dest: windowStore_okD split: if_splits)

lemma windowStore_ok_deleteWindow [intro]:
  "windowStore_ok s \<Longrightarrow> windowStore_ok (deleteWindow s u)"
  by (rule windowStore_okI) (auto simp: deleteWindow_def dest: windowStore_okD split: if_splits)

lemma getOrOpen_ok:
  "windowStore_ok s \<Longrightarrow> getOrOpen s u t = (w, c, s') \<Longrightarrow>
   windowStore_ok s' \<and> w_uuid w = u \<and> window_ok w \<and> map_of s' u = Some w"
  using windowStore_ok_putWindow [of s "freshWindow u t"]
  by (auto simp: getOrOpen_def putWindow_def Let_def dest: windowStore_okD split: option.splits)

section \<open>The store as an interface\<close>

text \<open>
  What the processor relies on: the laws of a store keyed by uuid. \<open>look\<close> is the observation
  every law is stated over.
\<close>

locale window_store =
  fixes empty :: "'s"
    and look :: "'s \<Rightarrow> string \<Rightarrow> window option"
    and getOpen :: "'s \<Rightarrow> string \<Rightarrow> time \<Rightarrow> window \<times> bool \<times> 's"
    and del :: "'s \<Rightarrow> string \<Rightarrow> 's"
    and len :: "'s \<Rightarrow> nat"
    and ok :: "'s \<Rightarrow> bool"
  assumes look_empty: "look empty u = None"
    and open_present: "look s u = Some w \<Longrightarrow> getOpen s u t = (w, False, s)"
    and open_absent: "look s u = None \<Longrightarrow>
      \<exists>s'. getOpen s u t = (freshWindow u t, True, s') \<and>
        (\<forall>v. look s' v = (if v = u then Some (freshWindow u t) else look s v)) \<and>
        len s' = Suc (len s)"
    and look_del: "look (del s u) v = (if v = u then None else look s v)"
    and len_del: "ok s \<Longrightarrow> look s u = Some w \<Longrightarrow> Suc (len (del s u)) = len s"
    and ok_empty: "ok empty"
    and ok_open: "ok s \<Longrightarrow> getOpen s u t = (w, c, s') \<Longrightarrow> ok s'"
    and ok_del: "ok s \<Longrightarrow> ok (del s u)"
begin

text \<open>Opening twice is opening once: the second call neither moves nor recreates the window.\<close>

lemma open_idempotent:
  assumes "getOpen s u t = (w, c, s')"
  shows "getOpen s' u t' = (w, False, s')"
proof (cases "look s u")
  case None
  then have "look s' u = Some w" using open_absent [OF None, of t] assms by auto
  then show ?thesis by (rule open_present)
next
  case (Some w0)
  then have "look s' u = Some w" using open_present [OF Some, of t] assms by auto
  then show ?thesis by (rule open_present)
qed

lemma open_then_delete:
  assumes "look s u = None" "getOpen s u t = (w, c, s')"
  shows "look (del s' u) v = look s v"
  using open_absent [OF assms(1), of t] assms by (auto simp: look_del)

lemma open_look: "getOpen s u t = (w, c, s') \<Longrightarrow> look s' u = Some w"
  using open_present [of s u] open_absent [of s u t] by (cases "look s u") fastforce+

end

interpretation ws: window_store newWindowStore getWindow getOrOpen deleteWindow lenWindows windowStore_ok
proof unfold_locales
  fix s :: windowStore and u t
  assume "getWindow s u = None"
  then show "\<exists>s'. getOrOpen s u t = (freshWindow u t, True, s') \<and>
        (\<forall>v. getWindow s' v = (if v = u then Some (freshWindow u t) else getWindow s v)) \<and>
        lenWindows s' = Suc (lenWindows s)"
    by (simp add: getOrOpen_absent getWindow_def lenWindows_def length_update_fresh)
next
  fix s :: windowStore and u w
  assume "windowStore_ok s" "getWindow s u = Some w"
  then show "Suc (lenWindows (deleteWindow s u)) = lenWindows s"
    by (simp add: window_store_defs length_delete_present windowStore_ok_gomap)
qed (auto simp: getOrOpen_present dest: getOrOpen_ok)

end
