(* ===== verification/Writer.thy ===== *)
theory Writer
  imports Event Window
begin

text \<open>
  src/internal/stateprojector/writer.go: the usage record, its deterministic id, the append of
  a record to the JSONL output file, the size-based rotation of that file and the age-based
  cleanup of rotated files.
\<close>

section \<open>Records\<close>

text \<open>
  The struct \<open>record\<close>. \<open>DurationS\<close>, a float64 number of seconds, is kept as the duration it
  is computed from.
\<close>

record usageRecord =
  u_ID :: string
  u_Project :: string
  u_Instance :: string
  u_UUID :: string
  u_VcpuMilli :: int
  u_MemoryBytes :: int
  u_Start :: string
  u_End :: string
  u_Duration :: duration

text \<open>
  \<open>windowID\<close> is the MD5 of the text below in hexadecimal; the hash itself is the argument
  \<open>md5hex\<close>.
\<close>

definition windowIDText :: "string \<Rightarrow> time \<Rightarrow> time \<Rightarrow> string" where
  "windowIDText uuid start end =
     uuid @ ''|'' @ formatRFC3339Nano start @ ''|'' @ formatRFC3339Nano end"

definition windowID :: "(string \<Rightarrow> string) \<Rightarrow> string \<Rightarrow> time \<Rightarrow> time \<Rightarrow> string" where
  "windowID md5hex uuid start end = md5hex (windowIDText uuid start end)"

section \<open>The writer\<close>

text \<open>
  The state of the writer: its settings, the directory of the output file as a map from path
  to content, and two scripts for what the program does not control. \<open>ow_io i\<close> is the outcome
  of the i-th system call (\<open>IoPartial k\<close>: a write that stops after \<open>k\<close> bytes), \<open>ow_clock i\<close>
  the i-th reading of the wall clock. \<open>ow_seconds\<close> is how encoding/json prints the float64
  seconds of a duration.
\<close>

datatype ioResult = IoOk | IoFail | IoPartial nat

record outputWriter =
  ow_path :: string
  ow_rotateSizeBytes :: int
  ow_rotateMaxAge :: duration
  ow_files :: "(string, string) gomap"
  ow_io :: "nat \<Rightarrow> ioResult"
  ow_ioNext :: nat
  ow_clock :: "nat \<Rightarrow> time"
  ow_clockNext :: nat
  ow_seconds :: "duration \<Rightarrow> string"

definition ioStep :: "outputWriter \<Rightarrow> ioResult \<times> outputWriter" where
  "ioStep w = (ow_io w (ow_ioNext w), w\<lparr>ow_ioNext := Suc (ow_ioNext w)\<rparr>)"

definition clockStep :: "outputWriter \<Rightarrow> time \<times> outputWriter" where
  "clockStep w = (ow_clock w (ow_clockNext w), w\<lparr>ow_clockNext := Suc (ow_clockNext w)\<rparr>)"

text \<open>The JSON text of a record: the struct's fields in order.\<close>

definition marshalRecord :: "(duration \<Rightarrow> string) \<Rightarrow> usageRecord \<Rightarrow> string" where
  "marshalRecord sec r =
     ''{'' @ quoteJSON ''id'' @ '':'' @ quoteJSON (u_ID r) @
     '','' @ quoteJSON ''project'' @ '':'' @ quoteJSON (u_Project r) @
     '','' @ quoteJSON ''instance'' @ '':'' @ quoteJSON (u_Instance r) @
     '','' @ quoteJSON ''uuid'' @ '':'' @ quoteJSON (u_UUID r) @
     '','' @ quoteJSON ''vcpu_milli'' @ '':'' @ formatInt (u_VcpuMilli r) @
     '','' @ quoteJSON ''memory_bytes'' @ '':'' @ formatInt (u_MemoryBytes r) @
     '','' @ quoteJSON ''start'' @ '':'' @ quoteJSON (u_Start r) @
     '','' @ quoteJSON ''end'' @ '':'' @ quoteJSON (u_End r) @
     '','' @ quoteJSON ''duration_s'' @ '':'' @ sec (u_Duration r) @ ''}''"

definition recordLine :: "outputWriter \<Rightarrow> usageRecord \<Rightarrow> string" where
  "recordLine w r = marshalRecord (ow_seconds w) r @ [CHR 0x0A]"

definition contentOf :: "outputWriter \<Rightarrow> string \<Rightarrow> string" where
  "contentOf w p = strAt (ow_files w) p"

definition appendBytes :: "outputWriter \<Rightarrow> string \<Rightarrow> outputWriter" where
  "appendBytes w b =
     w\<lparr>ow_files := AList.update (ow_path w) (contentOf w (ow_path w) @ b) (ow_files w)\<rparr>"

text \<open>
  \<open>append\<close>: open (which creates the file), write the line, sync. The result is whether the
  error is nil.
\<close>

definition appendRecord :: "usageRecord \<Rightarrow> outputWriter \<Rightarrow> bool \<times> outputWriter" where
  "appendRecord rec w =
     (let (r, w) = ioStep w
      in if r \<noteq> IoOk then (False, w)
         else (let b = recordLine w rec; w = appendBytes w []; (r, w) = ioStep w
               in (case r of
                     IoFail \<Rightarrow> (False, w)
                   | IoPartial k \<Rightarrow> (False, appendBytes w (take k b))
                   | IoOk \<Rightarrow>
                       (let w = appendBytes w b; (r, w) = ioStep w in (r = IoOk, w)))))"

definition rotatedName :: "string \<Rightarrow> time \<Rightarrow> string" where
  "rotatedName path now = path @ ''.'' @ formatInt (toUnix now)"

text \<open>\<open>rotateIfNeeded\<close>: a rename replaces whatever the new name held.\<close>

definition rotateIfNeeded :: "stats \<times> outputWriter \<Rightarrow> stats \<times> outputWriter" where
  "rotateIfNeeded sw =
     (let (st, w) = sw
      in if ow_rotateSizeBytes w \<le> 0 then (st, w)
         else (let (r, w) = ioStep w
               in case map_of (ow_files w) (ow_path w) of
                    None \<Rightarrow> (st, w)
                  | Some c \<Rightarrow>
                      if r \<noteq> IoOk \<or> int (length c) < ow_rotateSizeBytes w then (st, w)
                      else (let (now, w) = clockStep w; (r, w) = ioStep w
                            in if r \<noteq> IoOk then (st, w)
                               else (st\<lparr>rotations := rotations st + 1\<rparr>,
                                     w\<lparr>ow_files := AList.update (rotatedName (ow_path w) now) c
                                         (AList.delete (ow_path w) (ow_files w))\<rparr>))))"

text \<open>\<open>filepath.Glob(path + ".*")\<close>, for a path without pattern characters.\<close>

definition globRotated :: "outputWriter \<Rightarrow> string list" where
  "globRotated w =
     filter (\<lambda>f. case cutPrefix f (ow_path w @ ''.'') of None \<Rightarrow> False | Some r \<Rightarrow> CHR ''/'' \<notin> set r)
       (map fst (ow_files w))"

text \<open>The age the loop compares, for a name that carries a rotation timestamp.\<close>

definition rotationAge :: "time \<Rightarrow> string \<Rightarrow> duration option" where
  "rotationAge now f =
     (case afterLast (CHR ''.'') f of
        None \<Rightarrow> None
      | Some sfx \<Rightarrow>
          (case parseInt sfx of None \<Rightarrow> None | Some ts \<Rightarrow> Some (timeSub now (unixTime ts))))"

definition cleanupOne :: "time \<Rightarrow> string \<Rightarrow> stats \<times> outputWriter \<Rightarrow> stats \<times> outputWriter" where
  "cleanupOne now f sw =
     (let (st, w) = sw
      in case rotationAge now f of
           None \<Rightarrow> (st, w)
         | Some age \<Rightarrow>
             if age < ow_rotateMaxAge w then (st, w)
             else (let (r, w) = ioStep w
                   in if r \<noteq> IoOk then (st, w)
                      else (st\<lparr>rotationDeletes := rotationDeletes st + 1\<rparr>,
                            w\<lparr>ow_files := AList.delete f (ow_files w)\<rparr>)))"

definition cleanupOldRotations :: "stats \<times> outputWriter \<Rightarrow> stats \<times> outputWriter" where
  "cleanupOldRotations sw =
     (let (st, w) = sw
      in if ow_rotateMaxAge w \<le> 0 then (st, w)
         else (let (r, w) = ioStep w
               in if r \<noteq> IoOk then (st, w)
                  else (let ms = globRotated w; (now, w) = clockStep w
                        in fold (cleanupOne now) ms (st, w))))"

section \<open>The recordWriter interface\<close>

text \<open>
  The interface \<open>recordWriter\<close> of processor.go: the processor holds a value with these three
  methods and knows nothing else about it. \<open>'o\<close> is the state behind the interface; the
  counters are shared with the processor.
\<close>

record 'o recordWriter =
  rw_append :: "usageRecord \<Rightarrow> 'o \<Rightarrow> bool \<times> 'o"
  rw_rotateIfNeeded :: "stats \<times> 'o \<Rightarrow> stats \<times> 'o"
  rw_cleanupOldRotations :: "stats \<times> 'o \<Rightarrow> stats \<times> 'o"

definition fileRecordWriter :: "outputWriter recordWriter" where
  "fileRecordWriter =
     \<lparr>rw_append = appendRecord, rw_rotateIfNeeded = rotateIfNeeded,
      rw_cleanupOldRotations = cleanupOldRotations\<rparr>"

text \<open>
  The same writer with a history of the acknowledged records beside it, which the theorems
  about billing observe. The history feeds back into nothing.
\<close>

definition loggedAppend ::
  "usageRecord \<Rightarrow> outputWriter \<times> usageRecord list \<Rightarrow> bool \<times> outputWriter \<times> usageRecord list" where
  "loggedAppend r o1 =
     (let (ok, w) = appendRecord r (fst o1) in (ok, w, if ok then snd o1 @ [r] else snd o1))"

definition loggedVia ::
  "(stats \<times> outputWriter \<Rightarrow> stats \<times> outputWriter) \<Rightarrow>
   stats \<times> outputWriter \<times> usageRecord list \<Rightarrow> stats \<times> outputWriter \<times> usageRecord list" where
  "loggedVia f so = (let (st, w) = f (fst so, fst (snd so)) in (st, w, snd (snd so)))"

definition loggedRecordWriter :: "(outputWriter \<times> usageRecord list) recordWriter" where
  "loggedRecordWriter =
     \<lparr>rw_append = loggedAppend, rw_rotateIfNeeded = loggedVia rotateIfNeeded,
      rw_cleanupOldRotations = loggedVia cleanupOldRotations\<rparr>"

text \<open>
  What the processor relies on: a nil error means the record is in, an error means it does not
  count as in, and rotation and cleanup neither add nor remove records nor touch the counters
  the processor owns.
\<close>

definition sameBilling :: "stats \<Rightarrow> stats \<Rightarrow> bool" where
  "sameBilling s t \<longleftrightarrow>
     windowsOpened t = windowsOpened s \<and> windowsClosed t = windowsClosed s \<and>
     recordsWritten t = recordsWritten s \<and> writeErrors t = writeErrors s \<and>
     overbilled t = overbilled s \<and> staleEvents t = staleEvents s \<and>
     noUUID t = noUUID s \<and> noState t = noState s \<and> eventsWrongTyp t = eventsWrongTyp s \<and>
     unresolved t = unresolved s \<and> eventsReceived t = eventsReceived s \<and>
     decodeErrors t = decodeErrors s"

text \<open>No system call fails.\<close>

definition diskOk :: "outputWriter \<Rightarrow> bool" where
  "diskOk w \<longleftrightarrow> (\<forall>n. ow_io w n = IoOk)"

locale record_writer =
  fixes W :: "'o recordWriter"
    and written :: "'o \<Rightarrow> usageRecord list"
  assumes append_acked: "rw_append W r out = (True, out') \<Longrightarrow> written out' = written out @ [r]"
    and append_refused: "rw_append W r out = (False, out') \<Longrightarrow> written out' = written out"
    and rotate_written: "written (snd (rw_rotateIfNeeded W (st, out))) = written out"
    and cleanup_written: "written (snd (rw_cleanupOldRotations W (st, out))) = written out"
    and rotate_stats: "sameBilling st (fst (rw_rotateIfNeeded W (st, out)))"
    and cleanup_stats: "sameBilling st (fst (rw_cleanupOldRotations W (st, out)))"
begin

lemma append_written:
  "written (snd (rw_append W r out)) = (if fst (rw_append W r out) then written out @ [r] else written out)"
  using append_acked [of r out] append_refused [of r out] by (cases "rw_append W r out") (auto split: bool.splits)

end

section \<open>Lemmas\<close>

lemma ioStep_simps [simp]:
  "fst (ioStep w) = ow_io w (ow_ioNext w)"
  "ow_files (snd (ioStep w)) = ow_files w" "ow_path (snd (ioStep w)) = ow_path w"
  "ow_rotateSizeBytes (snd (ioStep w)) = ow_rotateSizeBytes w"
  "ow_rotateMaxAge (snd (ioStep w)) = ow_rotateMaxAge w"
  "ow_seconds (snd (ioStep w)) = ow_seconds w" "ow_io (snd (ioStep w)) = ow_io w"
  "ow_clock (snd (ioStep w)) = ow_clock w" "ow_clockNext (snd (ioStep w)) = ow_clockNext w"
  "ow_ioNext (snd (ioStep w)) = Suc (ow_ioNext w)"
  by (simp_all add: ioStep_def)

lemma clockStep_simps [simp]:
  "fst (clockStep w) = ow_clock w (ow_clockNext w)"
  "ow_files (snd (clockStep w)) = ow_files w" "ow_path (snd (clockStep w)) = ow_path w"
  "ow_rotateSizeBytes (snd (clockStep w)) = ow_rotateSizeBytes w"
  "ow_rotateMaxAge (snd (clockStep w)) = ow_rotateMaxAge w"
  "ow_seconds (snd (clockStep w)) = ow_seconds w" "ow_io (snd (clockStep w)) = ow_io w"
  "ow_ioNext (snd (clockStep w)) = ow_ioNext w" "ow_clock (snd (clockStep w)) = ow_clock w"
  by (simp_all add: clockStep_def)

lemma appendBytes_simps [simp]:
  "ow_path (appendBytes w b) = ow_path w" "ow_seconds (appendBytes w b) = ow_seconds w"
  "ow_io (appendBytes w b) = ow_io w" "ow_ioNext (appendBytes w b) = ow_ioNext w"
  "ow_rotateSizeBytes (appendBytes w b) = ow_rotateSizeBytes w"
  by (simp_all add: appendBytes_def)

lemma contentOf_ioStep [simp]: "contentOf (snd (ioStep w)) p = contentOf w p"
  by (simp add: contentOf_def)

lemma contentOf_appendBytes [simp]:
  "contentOf (appendBytes w b) p = (if p = ow_path w then contentOf w p @ b else contentOf w p)"
  by (simp add: contentOf_def appendBytes_def strAt_def)

lemma recordLine_frame [simp]: "recordLine (snd (ioStep w)) r = recordLine w r"
  by (simp add: recordLine_def)

text \<open>
  Whatever happens during an append, the output file grows by a prefix of the record's line,
  and by the whole line when no error is returned. No other file changes.
\<close>

lemma appendRecord_content:
  assumes "appendRecord r w = (ok, w')"
  shows "\<exists>k. contentOf w' p =
      (if p = ow_path w then contentOf w p @ take k (recordLine w r) else contentOf w p)"
    and "ok \<Longrightarrow> contentOf w' (ow_path w) = contentOf w (ow_path w) @ recordLine w r"
proof -
  let ?n = "length (recordLine w r)"
  have "take ?n (recordLine w r) = recordLine w r" by simp
  then have ex: "\<exists>k. recordLine w r = take k (recordLine w r)" by metis
  show "\<exists>k. contentOf w' p =
      (if p = ow_path w then contentOf w p @ take k (recordLine w r) else contentOf w p)"
    using assms ex
    by (auto simp: appendRecord_def Let_def case_prod_unfold intro: exI [of _ 0]
        split: if_splits ioResult.splits)
  show "ok \<Longrightarrow> contentOf w' (ow_path w) = contentOf w (ow_path w) @ recordLine w r"
    using assms
    by (auto simp: appendRecord_def Let_def case_prod_unfold split: if_splits ioResult.splits)
qed

lemma appendRecord_frame:
  assumes "appendRecord r w = (ok, w')"
  shows "ow_path w' = ow_path w \<and> ow_seconds w' = ow_seconds w"
  using assms by (auto simp: appendRecord_def Let_def case_prod_unfold split: if_splits ioResult.splits)

text \<open>A failed sync returns an error although the line is in the file.\<close>

lemma appendRecord_sync_failure:
  assumes "ow_io w (ow_ioNext w) = IoOk" "ow_io w (Suc (ow_ioNext w)) = IoOk"
    and "ow_io w (Suc (Suc (ow_ioNext w))) \<noteq> IoOk"
  shows "\<exists>w'. appendRecord r w = (False, w') \<and>
    contentOf w' (ow_path w) = contentOf w (ow_path w) @ recordLine w r"
  using assms by (simp add: appendRecord_def Let_def case_prod_unfold)

lemma sameBilling_refl [simp]: "sameBilling st st"
  by (simp add: sameBilling_def)

lemma sameBilling_trans: "sameBilling a b \<Longrightarrow> sameBilling b c \<Longrightarrow> sameBilling a c"
  by (simp add: sameBilling_def)

lemma sameBilling_rotations [simp]:
  "sameBilling st (st\<lparr>rotations := n\<rparr>)" "sameBilling st (st\<lparr>rotationDeletes := n\<rparr>)"
  by (simp_all add: sameBilling_def)

lemma rotateIfNeeded_billing: "sameBilling st (fst (rotateIfNeeded (st, w)))"
  by (auto simp: rotateIfNeeded_def Let_def case_prod_unfold split: option.splits)

lemma cleanupOne_billing: "sameBilling (fst sw) (fst (cleanupOne now f sw))"
  by (auto simp: cleanupOne_def Let_def case_prod_unfold split: option.splits)

lemma fold_cleanupOne_billing: "sameBilling (fst sw) (fst (fold (cleanupOne now) ms sw))"
proof (induction ms arbitrary: sw)
  case (Cons f ms)
  show ?case
    using sameBilling_trans [OF cleanupOne_billing Cons.IH [of "cleanupOne now f sw"]] by simp
qed simp

lemma cleanupOldRotations_billing: "sameBilling st (fst (cleanupOldRotations (st, w)))"
  using fold_cleanupOne_billing [of "(st, x)" for x]
  by (auto simp: cleanupOldRotations_def Let_def case_prod_unfold)

interpretation lrw: record_writer loggedRecordWriter snd
proof unfold_locales
  show "snd out' = snd out @ [r]" if "rw_append loggedRecordWriter r out = (True, out')"
    for r and out out' :: "outputWriter \<times> usageRecord list"
    using that by (auto simp: loggedRecordWriter_def loggedAppend_def Let_def case_prod_unfold)
  show "snd out' = snd out" if "rw_append loggedRecordWriter r out = (False, out')"
    for r and out out' :: "outputWriter \<times> usageRecord list"
    using that by (auto simp: loggedRecordWriter_def loggedAppend_def Let_def case_prod_unfold)
qed (simp_all add: loggedRecordWriter_def loggedVia_def Let_def case_prod_unfold
    rotateIfNeeded_billing cleanupOldRotations_billing)

section \<open>A writer on a working disk\<close>

text \<open>
  The extended contract: in a \<open>healthy\<close> state every append is acknowledged, and every
  operation leaves the state healthy.
\<close>

locale reliable_writer = record_writer +
  fixes healthy :: "'a \<Rightarrow> bool"
  assumes healthy_append: "healthy out \<Longrightarrow> rw_append W r out = (ok, out') \<Longrightarrow> ok \<and> healthy out'"
    and healthy_rotate: "healthy out \<Longrightarrow> healthy (snd (rw_rotateIfNeeded W (st, out)))"
    and healthy_cleanup: "healthy out \<Longrightarrow> healthy (snd (rw_cleanupOldRotations W (st, out)))"
begin

lemma healthy_append_written:
  "healthy out \<Longrightarrow> written (snd (rw_append W r out)) = written out @ [r]"
  using healthy_append [of out r] append_written [of r out] by (metis prod.collapse)

end

lemma appendRecord_io: "ow_io (snd (appendRecord r w)) = ow_io w"
  by (auto simp: appendRecord_def Let_def case_prod_unfold split: ioResult.splits)

lemma appendRecord_diskOk: "diskOk w \<Longrightarrow> fst (appendRecord r w)"
  by (auto simp: appendRecord_def Let_def case_prod_unfold diskOk_def)

lemma rotateIfNeeded_io: "ow_io (snd (rotateIfNeeded (st, w))) = ow_io w"
  by (auto simp: rotateIfNeeded_def Let_def case_prod_unfold split: option.splits)

lemma cleanupOne_io: "ow_io (snd (cleanupOne now f sw)) = ow_io (snd sw)"
  by (auto simp: cleanupOne_def Let_def case_prod_unfold split: option.splits)

lemma fold_cleanupOne_io: "ow_io (snd (fold (cleanupOne now) ms sw)) = ow_io (snd sw)"
  by (induction ms arbitrary: sw) (simp_all add: cleanupOne_io)

lemma cleanupOldRotations_io: "ow_io (snd (cleanupOldRotations (st, w))) = ow_io w"
  by (simp add: cleanupOldRotations_def Let_def case_prod_unfold fold_cleanupOne_io)

interpretation lrw: reliable_writer loggedRecordWriter snd "\<lambda>out. diskOk (fst out)"
proof unfold_locales
  show "ok \<and> diskOk (fst out')"
    if "diskOk (fst out)" "rw_append loggedRecordWriter r out = (ok, out')"
    for r ok and out out' :: "outputWriter \<times> usageRecord list"
    using that appendRecord_io [of r "fst out"] appendRecord_diskOk [of "fst out" r]
    by (auto simp: loggedRecordWriter_def loggedAppend_def Let_def case_prod_unfold diskOk_def)
qed (simp_all add: loggedRecordWriter_def loggedVia_def Let_def case_prod_unfold diskOk_def
    rotateIfNeeded_io cleanupOldRotations_io)

section \<open>Rotation and cleanup keep the billing data\<close>

text \<open>
  When a rotation happens, the rotated file holds exactly the bytes of the output file, the
  output path is free for the next append, and no third file changes.
\<close>

lemma rotateIfNeeded_cases:
  obtains "ow_files (snd (rotateIfNeeded (st, w))) = ow_files w"
      "rotations (fst (rotateIfNeeded (st, w))) = rotations st"
  | c where "map_of (ow_files w) (ow_path w) = Some c" "0 < ow_rotateSizeBytes w"
      "ow_rotateSizeBytes w \<le> int (length c)"
      "ow_files (snd (rotateIfNeeded (st, w))) =
         AList.update (rotatedName (ow_path w) (ow_clock w (ow_clockNext w))) c
           (AList.delete (ow_path w) (ow_files w))"
      "rotations (fst (rotateIfNeeded (st, w))) = rotations st + 1"
proof -
  let ?r = "rotateIfNeeded (st, w)"
  have "(ow_files (snd ?r) = ow_files w \<and> rotations (fst ?r) = rotations st) \<or>
    (\<exists>c. map_of (ow_files w) (ow_path w) = Some c \<and> 0 < ow_rotateSizeBytes w \<and>
      ow_rotateSizeBytes w \<le> int (length c) \<and>
      ow_files (snd ?r) = AList.update (rotatedName (ow_path w) (ow_clock w (ow_clockNext w))) c
           (AList.delete (ow_path w) (ow_files w)) \<and>
      rotations (fst ?r) = rotations st + 1)"
    by (auto simp: rotateIfNeeded_def Let_def case_prod_unfold split: option.splits)
  then show ?thesis using that by blast
qed

lemma rotatedName_neq [simp]: "rotatedName p now \<noteq> p"
  by (simp add: rotatedName_def)


lemma cleanupOne_maxAge [simp]: "ow_rotateMaxAge (snd (cleanupOne now f sw)) = ow_rotateMaxAge (snd sw)"
  by (auto simp: cleanupOne_def Let_def case_prod_unfold split: option.splits)


section \<open>Identity of records\<close>

lemma natDec_no_bar: "CHR ''|'' \<notin> set (natDec n)"
proof
  assume "CHR ''|'' \<in> set (natDec n)"
  then obtain d where d: "d < 10" "CHR ''|'' = digitChar d" using natDec_digits by blast
  then show False using digitChar_less_10 [OF d(1)] by (auto simp: digitChar_def char_of_def)
qed

lemma appendInt_no_bar: "CHR ''|'' \<notin> set (appendInt n w)"
  using natDec_no_bar by (simp add: appendInt_def Let_def)

lemma formatFrac9_no_bar: "CHR ''|'' \<notin> set (formatFrac9 n)"
  using appendInt_no_bar [of n 9] by (auto simp: formatFrac9_def Let_def dest: set_dropWhileD)

lemma formatRFC3339Nano_no_bar: "CHR ''|'' \<notin> set (formatRFC3339Nano t)"
  using appendInt_no_bar formatFrac9_no_bar
  by (simp add: formatRFC3339Nano_def formatSeconds_def Let_def split: prod.splits)

text \<open>A text splits at its last bar in one way only.\<close>

lemma takeWhile_bar: "c \<notin> set b \<Longrightarrow> takeWhile (\<lambda>x. x \<noteq> c) (rev (a @ c # b)) = rev b"
  by (simp add: takeWhile_append)

lemma split_last_bar:
  assumes "a @ c # b = a' @ c # b'" "c \<notin> set b" "c \<notin> set b'"
  shows "a = a' \<and> b = b'"
proof -
  have "rev b = rev b'"
    using takeWhile_bar [OF assms(2), of a] takeWhile_bar [OF assms(3), of a'] assms(1) by metis
  then show ?thesis using assms(1) by simp
qed

lemma formatRFC3339Nano_inj:
  assumes "wireTime s" "wireTime t" "formatRFC3339Nano s = formatRFC3339Nano t"
  shows "s = t"
  using parse_format [OF assms(1)] parse_format [OF assms(2)] assms(3) by (metis option.inject)

section \<open>Properties\<close>

text \<open>
  C34. A record id identifies its span: the text that is hashed is different for different
  instances or spans, for all times with a four-digit year and whatever bytes the uuid has. So
  a retried span gets the same id, and two spans share one only if MD5 collides.
\<close>

theorem windowIDText_injective:
  assumes "wireTime a" "wireTime b" "wireTime a'" "wireTime b'"
    and "windowIDText u a b = windowIDText u' a' b'"
  shows "u = u' \<and> a = a' \<and> b = b'"
proof -
  have e: "(u @ ''|'' @ formatRFC3339Nano a) @ CHR ''|'' # formatRFC3339Nano b =
      (u' @ ''|'' @ formatRFC3339Nano a') @ CHR ''|'' # formatRFC3339Nano b'"
    using assms(5) by (simp add: windowIDText_def)
  have b: "u @ CHR ''|'' # formatRFC3339Nano a = u' @ CHR ''|'' # formatRFC3339Nano a'"
      "formatRFC3339Nano b = formatRFC3339Nano b'"
    using split_last_bar [OF e formatRFC3339Nano_no_bar formatRFC3339Nano_no_bar] by simp_all
  have "u = u'" "formatRFC3339Nano a = formatRFC3339Nano a'"
    using split_last_bar [OF b(1) formatRFC3339Nano_no_bar formatRFC3339Nano_no_bar] by simp_all
  then show ?thesis using b(2) assms formatRFC3339Nano_inj by blast
qed

text \<open>
  C35. Whatever the disk does during an append, no byte already written changes: the output file
  grows by a prefix of the record's line, by the whole line when no error is returned, and no
  other file changes.
\<close>

theorem append_only_grows:
  assumes "appendRecord r w = (ok, w')"
  shows "(\<exists>k. contentOf w' (ow_path w) = contentOf w (ow_path w) @ take k (recordLine w r)) \<and>
    (ok \<longrightarrow> contentOf w' (ow_path w) = contentOf w (ow_path w) @ recordLine w r) \<and>
    (p \<noteq> ow_path w \<longrightarrow> contentOf w' p = contentOf w p)"
  using appendRecord_content [OF assms] by (metis (full_types))

text \<open>
  A rotation moves the bytes and keeps them all: the rotated file holds exactly the bytes
  of the output file and the output path is free again; if no file had the name of the current
  second yet, every content the directory held is still there.
\<close>

theorem rotation_keeps_bytes:
  assumes "rotations (fst (rotateIfNeeded (st, w))) \<noteq> rotations st"
    and "rotated = rotatedName (ow_path w) (ow_clock w (ow_clockNext w))"
  shows "let w' = snd (rotateIfNeeded (st, w))
    in map_of (ow_files w') rotated = map_of (ow_files w) (ow_path w) \<and>
       map_of (ow_files w') (ow_path w) = None \<and>
       (map_of (ow_files w) rotated = None \<longrightarrow> map_of (ow_files w) p = Some c \<longrightarrow>
          (\<exists>q. map_of (ow_files w') q = Some c))"
proof (rule rotateIfNeeded_cases [of st w])
  fix c'
  assume c: "map_of (ow_files w) (ow_path w) = Some c'"
    "ow_files (snd (rotateIfNeeded (st, w))) =
       AList.update (rotatedName (ow_path w) (ow_clock w (ow_clockNext w))) c' (AList.delete (ow_path w) (ow_files w))"
  have n: "ow_path w \<noteq> rotated" using rotatedName_neq assms(2) by metis
  have f: "map_of (ow_files (snd (rotateIfNeeded (st, w)))) q =
      (if q = rotated then Some c' else if q = ow_path w then None else map_of (ow_files w) q)" for q
    using c assms(2) by simp
  have "\<exists>q. map_of (ow_files (snd (rotateIfNeeded (st, w)))) q = Some c"
    if "map_of (ow_files w) rotated = None" "map_of (ow_files w) p = Some c"
  proof (cases "p = ow_path w")
    case True
    with that c(1) f [of rotated] show ?thesis by auto
  next
    case False
    moreover have "p \<noteq> rotated" using that by auto
    ultimately show ?thesis using that f [of p] by auto
  qed
  then show ?thesis unfolding Let_def using c(1) n f by simp
qed (use assms in simp)

text \<open>
  Two rotations within one second lose records: the second rename replaces the file of the
  first, whose bytes are then in no file of the directory.
\<close>

theorem rotation_overwrites:
  assumes "rotations (fst (rotateIfNeeded (st, w))) \<noteq> rotations st"
    and "rotated = rotatedName (ow_path w) (ow_clock w (ow_clockNext w))"
    and "\<And>q. map_of (ow_files w) q = Some old \<Longrightarrow> q = rotated"
  shows "map_of (ow_files (snd (rotateIfNeeded (st, w)))) q \<noteq> Some old"
proof (rule rotateIfNeeded_cases [of st w])
  fix c'
  assume c: "map_of (ow_files w) (ow_path w) = Some c'"
    "ow_files (snd (rotateIfNeeded (st, w))) =
       AList.update (rotatedName (ow_path w) (ow_clock w (ow_clockNext w))) c' (AList.delete (ow_path w) (ow_files w))"
  have "ow_path w \<noteq> rotated" using rotatedName_neq assms(2) by metis
  then have "c' \<noteq> old" using assms(3) c(1) by blast
  then show ?thesis using c(2) assms(2,3) by auto
qed (use assms in simp)


text \<open>
  The age of a rotated file is read back from its name: for a rotation at \<open>t\<close> the cleanup
  computes the time since the second of \<open>t\<close>, for every path.
\<close>

theorem rotationAge_rotatedName:
  assumes "int64 (toUnix t)"
  shows "rotationAge now (rotatedName path t) = Some (timeSub now (unixTime (toUnix t)))"
proof -
  have "CHR ''.'' \<notin> set (formatInt (toUnix t))"
    using natDec_plain by (auto simp: formatInt_def split: if_splits)
  then have "afterLast (CHR ''.'') (rotatedName path t) = Some (formatInt (toUnix t))"
    by (auto simp: afterLast_def rotatedName_def takeWhile_append)
  then show ?thesis using assms by (simp add: rotationAge_def)
qed

section \<open>Witnesses\<close>

definition demoWriter :: outputWriter where
  "demoWriter =
     \<lparr>ow_path = ''/out'', ow_rotateSizeBytes = 0, ow_rotateMaxAge = 0, ow_files = [],
      ow_io = (\<lambda>n. IoOk), ow_ioNext = 0, ow_clock = (\<lambda>n. 1000 * second), ow_clockNext = 0,
      ow_seconds = (\<lambda>d. ''60'')\<rparr>"

definition demoRotating :: outputWriter where
  "demoRotating = demoWriter
     \<lparr>ow_rotateSizeBytes := 1, ow_rotateMaxAge := 300 * second,
      ow_files := [(''/out'', ''new''), (''/out.1000'', ''old''), (''/out.5'', ''aged'')]\<rparr>"

theorem windowIDText_injective_witness:
  "windowIDText ''u'' 0 second \<noteq> windowIDText ''u'' 0 (2 * second)"
  using windowIDText_injective [of 0 second 0 "2 * second" "''u''" "''u''"]
  by (auto simp: wireTime_def second_def)

definition demoRecord :: usageRecord where
  "demoRecord =
     \<lparr>u_ID = ''i'', u_Project = ''p'', u_Instance = ''n'', u_UUID = ''u'', u_VcpuMilli = 1, u_MemoryBytes = 1,
      u_Start = ''s'', u_End = ''e'', u_Duration = second\<rparr>"

theorem append_only_grows_witness:
  "contentOf (snd (appendRecord demoRecord demoRotating)) ''/out'' = ''new'' @ recordLine demoRotating demoRecord"
proof -
  have "fst (appendRecord demoRecord demoRotating)"
    by (rule appendRecord_diskOk) (simp add: diskOk_def demoRotating_def demoWriter_def)
  then have e: "appendRecord demoRecord demoRotating = (True, snd (appendRecord demoRecord demoRotating))"
    by (metis (full_types) prod.collapse)
  have "ow_path demoRotating = ''/out''" "contentOf demoRotating ''/out'' = ''new''"
    by (simp_all add: demoRotating_def demoWriter_def contentOf_def strAt_def)
  then show ?thesis using append_only_grows [OF e, of "''/out''"] by simp
qed

lemma demoRotating_rotates:
  "rotations (fst (rotateIfNeeded (zeroStats, demoRotating))) \<noteq> rotations zeroStats"
  "rotations (fst (rotateIfNeeded (zeroStats, demoRotating\<lparr>ow_files := [(''/out'', ''new'')]\<rparr>))) \<noteq> rotations zeroStats"
  by code_simp+

lemma demoRotating_name: "''/out.1000'' = rotatedName (ow_path demoRotating) (ow_clock demoRotating (ow_clockNext demoRotating))"
  by code_simp

theorem rotation_keeps_bytes_witness:
  "map_of (ow_files (snd (rotateIfNeeded (zeroStats, demoRotating\<lparr>ow_files := [(''/out'', ''new'')]\<rparr>)))) ''/out.1000'' = Some ''new''"
proof -
  let ?w = "demoRotating\<lparr>ow_files := [(''/out'', ''new'')]\<rparr>"
  have n: "''/out.1000'' = rotatedName (ow_path ?w) (ow_clock ?w (ow_clockNext ?w))" using demoRotating_name by simp
  have "map_of (ow_files ?w) (ow_path ?w) = Some ''new''" by (simp add: demoRotating_def demoWriter_def)
  then show ?thesis using rotation_keeps_bytes [OF demoRotating_rotates(2) n, unfolded Let_def] by metis
qed

theorem rotation_overwrites_witness:
  "map_of (ow_files demoRotating) ''/out.1000'' = Some ''old'' \<and>
   map_of (ow_files (snd (rotateIfNeeded (zeroStats, demoRotating)))) ''/out.1000'' \<noteq> Some ''old''"
proof -
  have "q = ''/out.1000''" if "map_of (ow_files demoRotating) q = Some ''old''" for q
    using that by (auto simp: demoRotating_def split: if_splits)
  moreover have "map_of (ow_files demoRotating) ''/out.1000'' = Some ''old''" by (simp add: demoRotating_def)
  ultimately show ?thesis using rotation_overwrites [OF demoRotating_rotates(1) demoRotating_name] by metis
qed


theorem rotationAge_rotatedName_witness:
  "rotationAge (1000 * second) (rotatedName ''/out.d/x'' (5 * second)) = Some (995 * second)"
  using rotationAge_rotatedName [of "5 * second" "1000 * second" "''/out.d/x''"]
  by (simp add: toUnix_def unixTime_def second_def int64_def timeSub_def)

end
