(* ===== verification/Kube.thy ===== *)
theory Kube
  imports Go_Base
begin

text \<open>
  The Kubernetes and compute API objects, with the fields the sources read or write. The
  packages that declare them (k8s.io/api, go.datum.net/compute) are not under src/; these are
  records of data only, no behaviour. A pointer is an option, nil being \<open>None\<close>; a nil slice
  is an empty list. A value the sources only pass through is an \<open>opaque\<close>.
\<close>

type_synonym opaque = string

text \<open>
  A \<open>resource.Quantity\<close> is what the sources observe of it: \<open>IsZero\<close>, \<open>Value\<close> and
  \<open>MilliValue\<close>. How the three relate is up to the library.
\<close>

record quantity =
  q_IsZero :: bool
  q_Value :: int
  q_MilliValue :: int

type_synonym resourceList = "(string, quantity) gomap"

abbreviation resourceCPU :: string where "resourceCPU \<equiv> ''cpu''"
abbreviation resourceMemory :: string where "resourceMemory \<equiv> ''memory''"

record objectMeta =
  m_Name :: string
  m_Namespace :: string
  m_UID :: string
  m_Labels :: "(string, string) gomap"
  m_Annotations :: "(string, string) gomap"
  m_CreationTimestamp :: time
  m_DeletionTimestamp :: "time option"
  m_Finalizers :: "string list"
  m_Generation :: int
  m_Owner :: "string option"

section \<open>Pods, Services and Nodes\<close>

record toleration =
  tol_Key :: string
  tol_Operator :: string
  tol_Value :: string
  tol_Effect :: string
  tol_Seconds :: "int option"

datatype volumeSource = VolConfigMap opaque | VolSecret opaque

record volume =
  vol_Name :: string
  vol_Source :: volumeSource

record envVar =
  env_Name :: string
  env_Value :: string
  env_ValueFrom :: "opaque option"

record envRef =
  ref_Name :: string
  ref_Optional :: "bool option"

record envFromSource =
  ef_Prefix :: string
  ef_ConfigMapRef :: "envRef option"
  ef_SecretRef :: "envRef option"

record namedPort =
  port_Name :: string
  port_Port :: int

record volumeMount =
  vm_Name :: string
  vm_MountPath :: string

record container =
  c_Name :: string
  c_Image :: string
  c_Command :: "string list"
  c_Args :: "string list"
  c_Env :: "envVar list"
  c_EnvFrom :: "envFromSource list"
  c_Ports :: "namedPort list"
  c_Limits :: resourceList
  c_Requests :: resourceList
  c_VolumeMounts :: "volumeMount list"

record dnsConfig =
  dns_Nameservers :: "string list"
  dns_Searches :: "string list"

record podSpec =
  ps_Containers :: "container list"
  ps_Volumes :: "volume list"
  ps_ImagePullSecrets :: "string list"
  ps_AutomountServiceAccountToken :: "bool option"
  ps_EnableServiceLinks :: "bool option"
  ps_RestartPolicy :: string
  ps_NodeSelector :: "(string, string) gomap"
  ps_Tolerations :: "toleration list"
  ps_TerminationGracePeriodSeconds :: "int option"
  ps_DNSPolicy :: string
  ps_DNSConfig :: "dnsConfig option"
  ps_NodeName :: string

record waitingState =
  wt_Reason :: string
  wt_Message :: string

record terminatedState =
  tm_ExitCode :: int
  tm_Reason :: string
  tm_Message :: string
  tm_FinishedAt :: time

record containerStatus =
  cs_Name :: string
  cs_Image :: string
  cs_ContainerID :: string
  cs_Waiting :: "waitingState option"
  cs_Terminated :: "terminatedState option"
  cs_LastTerminated :: "terminatedState option"

datatype podPhase = PodPending | PodRunning | PodSucceeded | PodFailed | PodPhaseOther string

record pod =
  pod_Meta :: objectMeta
  pod_Spec :: podSpec
  pod_Phase :: podPhase
  pod_Message :: string
  pod_PodIPs :: "string list"
  pod_ContainerStatuses :: "containerStatus list"

record servicePort =
  sp_Name :: string
  sp_Port :: int
  sp_TargetPort :: int
  sp_Protocol :: string

record service =
  svc_Meta :: objectMeta
  svc_Selector :: "(string, string) gomap"
  svc_Ports :: "servicePort list"
  svc_Type :: string

record node =
  node_Name :: string
  node_BootID :: string

section \<open>Instances\<close>

record volumeAttachment =
  va_Name :: string
  va_MountPath :: "string option"

record sandboxContainer =
  sc_Name :: string
  sc_Image :: string
  sc_Command :: "string list"
  sc_Args :: "string list"
  sc_Env :: "envVar list"
  sc_EnvFrom :: "envFromSource list"
  sc_Ports :: "namedPort list"
  sc_Limits :: "resourceList option"
  sc_VolumeAttachments :: "volumeAttachment list"

record sandbox =
  sb_Containers :: "sandboxContainer list"
  sb_ImagePullSecrets :: "string list"

record instanceVolume =
  iv_Name :: string
  iv_ConfigMap :: "opaque option"
  iv_Secret :: "opaque option"
  iv_Disk :: "opaque option"

record controllerSpec =
  ctl_TemplateHash :: string
  ctl_SchedulingGates :: "string list"

record ifaceStatus =
  if_NetworkIP :: "string option"
  if_ExternalIP :: "string option"
  if_NetworkInterfaceRef :: "opaque option"

datatype conditionStatus = ConditionTrue | ConditionFalse | ConditionUnknown

record condition =
  cond_Type :: string
  cond_Status :: conditionStatus
  cond_ObservedGeneration :: int
  cond_Reason :: string
  cond_Message :: string

record instanceObj =
  in_Meta :: objectMeta
  in_Sandbox :: "sandbox option"
  in_InstanceType :: string
  in_TerminationGracePeriodSeconds :: "int option"
  in_Volumes :: "instanceVolume list"
  in_NetworkInterfaces :: "opaque list"
  in_Controller :: "controllerSpec option"
  in_Suspended :: bool
  in_Conditions :: "condition list"
  in_ObservedTemplateHash :: "string option"
  in_StatusInterfaces :: "ifaceStatus list"

text \<open>A published InstanceType: its CPU and memory.\<close>

record instanceTypeObj =
  it_CPU :: quantity
  it_Memory :: quantity

abbreviation "in_Name i \<equiv> m_Name (in_Meta i)"
abbreviation "in_Namespace i \<equiv> m_Namespace (in_Meta i)"
abbreviation "pod_Name p \<equiv> m_Name (pod_Meta p)"
abbreviation "pod_Namespace p \<equiv> m_Namespace (pod_Meta p)"
abbreviation "pod_Labels p \<equiv> m_Labels (pod_Meta p)"
abbreviation "pod_Annotations p \<equiv> m_Annotations (pod_Meta p)"

text \<open>\<open>DeletionTimestamp.IsZero()\<close>, true of a nil pointer as well.\<close>

definition notDeleting :: "objectMeta \<Rightarrow> bool" where
  "notDeleting m = (case m_DeletionTimestamp m of None \<Rightarrow> True | Some t \<Rightarrow> isZeroTime t)"

section \<open>Blank objects\<close>

text \<open>The objects the sources start from when they fill in only a name and a namespace.\<close>

definition blankMeta :: "string \<Rightarrow> string \<Rightarrow> objectMeta" where
  "blankMeta ns n =
     \<lparr>m_Name = n, m_Namespace = ns, m_UID = '''', m_Labels = [], m_Annotations = [],
      m_CreationTimestamp = zeroTime, m_DeletionTimestamp = None, m_Finalizers = [],
      m_Generation = 0, m_Owner = None\<rparr>"

definition blankPodSpec :: podSpec where
  "blankPodSpec =
     \<lparr>ps_Containers = [], ps_Volumes = [], ps_ImagePullSecrets = [],
      ps_AutomountServiceAccountToken = None, ps_EnableServiceLinks = None,
      ps_RestartPolicy = '''', ps_NodeSelector = [], ps_Tolerations = [],
      ps_TerminationGracePeriodSeconds = None, ps_DNSPolicy = '''', ps_DNSConfig = None,
      ps_NodeName = ''''\<rparr>"

definition blankPod :: "string \<Rightarrow> string \<Rightarrow> pod" where
  "blankPod ns n =
     \<lparr>pod_Meta = blankMeta ns n, pod_Spec = blankPodSpec, pod_Phase = PodPhaseOther '''',
      pod_Message = '''', pod_PodIPs = [], pod_ContainerStatuses = []\<rparr>"

definition blankService :: "string \<Rightarrow> string \<Rightarrow> service" where
  "blankService ns n =
     \<lparr>svc_Meta = blankMeta ns n, svc_Selector = [], svc_Ports = [], svc_Type = ''''\<rparr>"

end
