(* ===== verification/Namespace_Index.thy ===== *)
theory Namespace_Index
  imports Go_Base
begin

text \<open>
  src/internal/stateprojector/namespace_index.go: the index from a namespace name to the Milo
  project id decoded from a label of the Namespace object.
\<close>

record namespaceObj =
  ns_Name :: string
  ns_Labels :: "(string, string) gomap"

definition upstreamClusterNameLabel :: string where
  "upstreamClusterNameLabel = ''meta.datumapis.com/upstream-cluster-name''"

definition decodeProjectID :: "string \<Rightarrow> string" where
  "decodeProjectID encoded = replaceByte (CHR ''_'') (CHR ''/'') (trimPrefix encoded ''cluster-'')"

type_synonym namespaceIndex = "(string, string) gomap"

definition newNamespaceIndex :: namespaceIndex where "newNamespaceIndex = []"

text \<open>A nil Namespace pointer is \<open>None\<close>.\<close>

definition upsertNamespace :: "namespaceIndex \<Rightarrow> namespaceObj option \<Rightarrow> namespaceIndex" where
  "upsertNamespace n ns =
     (case ns of
        None \<Rightarrow> n
      | Some ns \<Rightarrow>
          (case map_of (ns_Labels ns) upstreamClusterNameLabel of
             Some encoded \<Rightarrow> AList.update (ns_Name ns) (decodeProjectID encoded) n
           | None \<Rightarrow> AList.delete (ns_Name ns) n))"

definition deleteNamespace :: "namespaceIndex \<Rightarrow> namespaceObj option \<Rightarrow> namespaceIndex" where
  "deleteNamespace n ns =
     (case ns of None \<Rightarrow> n | Some ns \<Rightarrow> AList.delete (ns_Name ns) n)"

definition project :: "namespaceIndex \<Rightarrow> string \<Rightarrow> string option" where
  "project n ns = map_of n ns"

definition lenNamespaces :: "namespaceIndex \<Rightarrow> nat" where
  "lenNamespaces n = length n"

lemmas namespace_index_defs = newNamespaceIndex_def upsertNamespace_def deleteNamespace_def
  project_def lenNamespaces_def

text \<open>
  The label format the comment on \<open>decodeProjectID\<close> documents; only the round trip below
  uses it.
\<close>

definition encodeClusterName :: "string \<Rightarrow> string" where
  "encodeClusterName name = ''cluster-'' @ replaceByte (CHR ''/'') (CHR ''_'') name"

lemma replaceByte_inverse:
  "a \<noteq> b \<Longrightarrow> b \<notin> set s \<Longrightarrow> replaceByte b a (replaceByte a b s) = s"
  by (induction s) (auto simp: replaceByte_def)

lemma replaceByte_set: "a \<noteq> b \<Longrightarrow> a \<notin> set (replaceByte a b s)"
  by (induction s) (auto simp: replaceByte_def)

lemma decode_encode: "CHR ''_'' \<notin> set name \<Longrightarrow> decodeProjectID (encodeClusterName name) = name"
  using replaceByte_inverse [of "CHR ''/''" "CHR ''_''" name] trimPrefix_append [of "''cluster-''"]
  by (simp only: decodeProjectID_def encodeClusterName_def) simp

lemma namespaceIndex_ok_upsert [intro]: "gomap_ok n \<Longrightarrow> gomap_ok (upsertNamespace n ns)"
  by (auto simp: upsertNamespace_def split: option.splits)

lemma namespaceIndex_ok_delete [intro]: "gomap_ok n \<Longrightarrow> gomap_ok (deleteNamespace n ns)"
  by (auto simp: deleteNamespace_def split: option.splits)

text \<open>The index answers for a namespace from the last object it saw for it.\<close>

lemma project_upsert:
  "project (upsertNamespace n (Some ns)) x =
     (if x = ns_Name ns then map_option decodeProjectID (map_of (ns_Labels ns) upstreamClusterNameLabel)
      else project n x)"
  by (auto simp: namespace_index_defs split: option.splits)

lemma project_delete:
  "project (deleteNamespace n (Some ns)) x = (if x = ns_Name ns then None else project n x)"
  by (simp add: namespace_index_defs)

section \<open>The project resolver interface\<close>

text \<open>
  The interface \<open>projectResolver\<close> of pod_index.go with the law the index keeps: after an
  upsert the namespace resolves to what its own label decodes to, and to nothing else.
\<close>

locale project_resolver =
  fixes resolveProject :: "'n \<Rightarrow> string \<Rightarrow> string option"
    and see :: "'n \<Rightarrow> namespaceObj option \<Rightarrow> 'n"
    and forget :: "'n \<Rightarrow> namespaceObj option \<Rightarrow> 'n"
  assumes see_law: "resolveProject (see n (Some ns)) x =
      (if x = ns_Name ns then map_option decodeProjectID (map_of (ns_Labels ns) upstreamClusterNameLabel)
       else resolveProject n x)"
    and forget_law: "resolveProject (forget n (Some ns)) x =
      (if x = ns_Name ns then None else resolveProject n x)"
    and nil_see: "see n None = n"
    and nil_forget: "forget n None = n"
begin

lemma labelled_resolves:
  "map_of (ns_Labels ns) upstreamClusterNameLabel = Some (encodeClusterName p) \<Longrightarrow>
   CHR ''_'' \<notin> set p \<Longrightarrow> resolveProject (see n (Some ns)) (ns_Name ns) = Some p"
  by (simp add: see_law decode_encode)

lemma unlabelled_forgets:
  "map_of (ns_Labels ns) upstreamClusterNameLabel = None \<Longrightarrow>
   resolveProject (see n (Some ns)) x = resolveProject (forget n (Some ns)) x"
  by (simp add: see_law forget_law)

lemma see_last_wins:
  "ns_Name ns' = ns_Name ns \<Longrightarrow>
   resolveProject (see (see n (Some ns)) (Some ns')) x = resolveProject (see n (Some ns')) x"
  by (simp add: see_law)

end

interpretation nsi: project_resolver project upsertNamespace deleteNamespace
proof unfold_locales
  show "upsertNamespace n None = n" and "deleteNamespace n None = n" for n
    by (simp_all add: upsertNamespace_def deleteNamespace_def)
qed (simp_all add: project_upsert project_delete)

section \<open>Properties\<close>

text \<open>
  A usage record names the tenant's own project: a namespace labelled with the encoded
  name of a project (\<open>cluster-\<close> and the name with slashes as underscores, as the comment on
  \<open>decodeProjectID\<close> documents the label) resolves to exactly that name, for every name without
  an underscore, and the answer for other namespaces does not change.
\<close>

theorem project_roundtrip:
  assumes "map_of (ns_Labels ns) upstreamClusterNameLabel = Some (encodeClusterName name)"
    and "CHR ''_'' \<notin> set name"
  shows "project (upsertNamespace n (Some ns)) (ns_Name ns) = Some name \<and>
    (x \<noteq> ns_Name ns \<longrightarrow> project (upsertNamespace n (Some ns)) x = project n x)"
  using nsi.labelled_resolves [OF assms] nsi.see_law by simp

theorem project_roundtrip_witness:
  "project (upsertNamespace [] (Some \<lparr>ns_Name = ''ns-1'',
     ns_Labels = [(upstreamClusterNameLabel, ''cluster-org_team_app'')]\<rparr>)) ''ns-1'' = Some ''org/team/app''"
proof -
  have "encodeClusterName ''org/team/app'' = ''cluster-org_team_app''" by code_simp
  then show ?thesis
    using project_roundtrip [of "\<lparr>ns_Name = ''ns-1'', ns_Labels = [(upstreamClusterNameLabel, ''cluster-org_team_app'')]\<rparr>"
        "''org/team/app''" "[]"] by simp
qed

end
