(* ===== verification/Pod_Index.thy ===== *)
theory Pod_Index
  imports Kube Window Namespace_Index
begin

text \<open>
  src/internal/stateprojector/pod_index.go: the index from a ukpd instance uuid to the
  identity and resources of the provider Pod that runs it.
\<close>

definition upstreamInstanceLabel :: string where "upstreamInstanceLabel = ''upstream.instance''"
definition reasonOK :: string where "reasonOK = ''ok''"
definition reasonPodNotIndexed :: string where "reasonPodNotIndexed = ''pod_not_indexed''"

type_synonym podIndex = "(string, info) gomap"

definition newPodIndex :: podIndex where "newPodIndex = []"

text \<open>\<open>info.equal\<close>: nil equals only nil.\<close>

definition infoEqual :: "info option \<Rightarrow> info option \<Rightarrow> bool" where
  "infoEqual i other =
     (case (i, other) of (Some a, Some b) \<Rightarrow> a = b | (None, None) \<Rightarrow> True | _ \<Rightarrow> False)"

definition infoString :: "info option \<Rightarrow> string" where
  "infoString i =
     (case i of None \<Rightarrow> ''<nil>''
      | Some i \<Rightarrow> ''project='' @ i_project i @ '' instance='' @ i_instance i @
          '' vcpu_milli='' @ formatInt (i_vcpuMilli i) @
          '' memory_bytes='' @ formatInt (i_memoryBytes i))"

fun containerIDsOf :: "containerStatus list \<Rightarrow> string list" where
  "containerIDsOf [] = []"
| "containerIDsOf (cs # css) =
     (if cs_ContainerID cs = '''' then containerIDsOf css
      else (case cutAfter (cs_ContainerID cs) ''://'' of Some rest \<Rightarrow> rest | None \<Rightarrow> cs_ContainerID cs)
        # containerIDsOf css)"

definition containerIDs :: "pod \<Rightarrow> string list" where
  "containerIDs pod = containerIDsOf (pod_ContainerStatuses pod)"

definition max64 :: "int \<Rightarrow> int \<Rightarrow> int" where
  "max64 a b = (if a > b then a else b)"

definition milliCPU :: "quantity \<Rightarrow> int" where
  "milliCPU q = (if q_IsZero q then 0 else q_MilliValue q)"

text \<open>Indexing a \<open>ResourceList\<close> by an absent name gives the zero quantity, whose milliCPU is 0.\<close>

definition listMilliCPU :: "resourceList \<Rightarrow> int" where
  "listMilliCPU l = (case map_of l resourceCPU of None \<Rightarrow> 0 | Some q \<Rightarrow> milliCPU q)"

text \<open>The body of the loop over the Pod's containers.\<close>

definition maxMemory :: "resourceList \<Rightarrow> int \<Rightarrow> int" where
  "maxMemory l m = (case map_of l resourceMemory of None \<Rightarrow> m | Some q \<Rightarrow> max64 m (q_Value q))"

definition foldContainer :: "container \<Rightarrow> info \<Rightarrow> info" where
  "foldContainer c rec =
     (let rec = rec\<lparr>i_vcpuMilli := max64 (i_vcpuMilli rec) (listMilliCPU (c_Limits c))\<rparr>;
          rec = rec\<lparr>i_memoryBytes := maxMemory (c_Limits c) (i_memoryBytes rec)\<rparr>;
          rec = rec\<lparr>i_vcpuMilli := max64 (i_vcpuMilli rec) (listMilliCPU (c_Requests c))\<rparr>
      in rec\<lparr>i_memoryBytes := maxMemory (c_Requests c) (i_memoryBytes rec)\<rparr>)"

text \<open>The info \<open>upsert\<close> stores for a Pod, and whether the project resolved.\<close>

definition podInfo :: "(string \<Rightarrow> string option) \<Rightarrow> pod \<Rightarrow> info \<times> bool" where
  "podInfo resolveProject pod =
     (let p = resolveProject (pod_Namespace pod);
          rec = \<lparr>i_project = (case p of Some x \<Rightarrow> x | None \<Rightarrow> ''''),
                 i_instance = strAt (pod_Labels pod) upstreamInstanceLabel,
                 i_vcpuMilli = 0, i_memoryBytes = 0\<rparr>
      in (fold foldContainer (ps_Containers (pod_Spec pod)) rec, p \<noteq> None))"

text \<open>The loop that stores the info under every id, tracking whether an entry is new.\<close>

fun storeIDs :: "info \<Rightarrow> string list \<Rightarrow> podIndex \<Rightarrow> bool \<Rightarrow> podIndex \<times> bool" where
  "storeIDs rec [] pods added = (pods, added)"
| "storeIDs rec (i # ids) pods added =
     storeIDs rec ids (AList.update i rec pods) (added \<or> map_of pods i = None)"

definition upsertPod ::
  "(string \<Rightarrow> string option) \<Rightarrow> pod option \<Rightarrow> stats \<times> podIndex \<Rightarrow> stats \<times> podIndex" where
  "upsertPod resolveProject pod sp =
     (case pod of
        None \<Rightarrow> sp
      | Some pod \<Rightarrow>
          (let (st, pods) = sp; ids = containerIDs pod
           in if ids = [] then sp
              else (let (rec, projectOK) = podInfo resolveProject pod;
                        (pods', added) = storeIDs rec ids pods False;
                        st = (if added then st\<lparr>podIndexed := podIndexed st + 1\<rparr> else st);
                        st = (if i_instance rec \<noteq> '''' \<and> \<not> projectOK
                              then st\<lparr>projectLabelMissing := projectLabelMissing st + 1\<rparr> else st)
                    in (st, pods'))))"

definition deletePod :: "pod option \<Rightarrow> podIndex \<Rightarrow> podIndex" where
  "deletePod pod pods =
     (case pod of None \<Rightarrow> pods | Some pod \<Rightarrow> fold AList.delete (containerIDs pod) pods)"

definition lookupPod :: "podIndex \<Rightarrow> string \<Rightarrow> info option" where
  "lookupPod pods uuid = map_of pods uuid"

definition lenPods :: "podIndex \<Rightarrow> nat" where "lenPods pods = length pods"

definition resolvePod :: "podIndex \<Rightarrow> string \<Rightarrow> info option \<times> string" where
  "resolvePod pods uuid =
     (case lookupPod pods uuid of
        None \<Rightarrow> (None, reasonPodNotIndexed)
      | Some rec \<Rightarrow> (Some rec, reasonOK))"

section \<open>Lemmas\<close>

lemma max64_max [simp]: "max64 a b = max a b"
  by (simp add: max64_def)

lemma infoEqual_eq: "infoEqual a b \<longleftrightarrow> a = b"
  by (auto simp: infoEqual_def split: option.splits)

lemma storeIDs_lookup:
  "map_of (fst (storeIDs rec ids pods added)) x = (if x \<in> set ids then Some rec else map_of pods x)"
  by (induction ids arbitrary: pods added) auto

lemma storeIDs_ok: "gomap_ok pods \<Longrightarrow> gomap_ok (fst (storeIDs rec ids pods added))"
  by (induction ids arbitrary: pods added) auto

lemma storeIDs_added:
  "snd (storeIDs rec ids pods added) \<longleftrightarrow> added \<or> (\<exists>i \<in> set ids. map_of pods i = None)"
  by (induction ids arbitrary: pods added) (auto split: if_splits, force)

lemma fold_delete_lookup:
  "map_of (fold AList.delete ids pods) x = (if x \<in> set ids then None else map_of pods x)"
  by (induction ids arbitrary: pods) auto

lemma fold_delete_ok: "gomap_ok pods \<Longrightarrow> gomap_ok (fold AList.delete ids pods)"
  by (induction ids arbitrary: pods) auto

lemma upsertPod_lookup:
  assumes "upsertPod rp (Some pod) (st, pods) = (st', pods')"
  shows "map_of pods' x =
    (if x \<in> set (containerIDs pod) then Some (fst (podInfo rp pod)) else map_of pods x)"
  using assms storeIDs_lookup [of "fst (podInfo rp pod)" "containerIDs pod" pods False x]
  by (auto simp: upsertPod_def Let_def case_prod_unfold split: if_splits)

lemma upsertPod_ok: "gomap_ok pods \<Longrightarrow> gomap_ok (snd (upsertPod rp pod (st, pods)))"
  by (auto simp: upsertPod_def Let_def case_prod_unfold storeIDs_ok split: option.splits)

lemma deletePod_lookup:
  "map_of (deletePod (Some pod) pods) x = (if x \<in> set (containerIDs pod) then None else map_of pods x)"
  by (simp add: deletePod_def fold_delete_lookup)

lemma deletePod_ok [intro]: "gomap_ok pods \<Longrightarrow> gomap_ok (deletePod pod pods)"
  by (auto simp: deletePod_def fold_delete_ok split: option.splits)

lemma resolvePod_Some: "resolvePod pods u = (Some rec, r) \<longleftrightarrow> map_of pods u = Some rec \<and> r = reasonOK"
  by (auto simp: resolvePod_def lookupPod_def split: option.splits)

lemma foldContainer_frame [simp]:
  "i_project (foldContainer c rec) = i_project rec" "i_instance (foldContainer c rec) = i_instance rec"
  by (simp_all add: foldContainer_def Let_def)

lemma fold_foldContainer_frame [simp]:
  "i_project (fold foldContainer cs rec) = i_project rec"
  "i_instance (fold foldContainer cs rec) = i_instance rec"
  by (induction cs arbitrary: rec) simp_all

text \<open>The vCPU and memory a container contributes: the larger of its limit and its request.\<close>

definition containerVcpu :: "container \<Rightarrow> int" where
  "containerVcpu c = max (listMilliCPU (c_Limits c)) (listMilliCPU (c_Requests c))"

definition listMemory :: "resourceList \<Rightarrow> int" where
  "listMemory l = (case map_of l resourceMemory of None \<Rightarrow> 0 | Some q \<Rightarrow> q_Value q)"

definition containerMemory :: "container \<Rightarrow> int" where
  "containerMemory c = max (listMemory (c_Limits c)) (listMemory (c_Requests c))"

lemma foldContainer_resources:
  "i_vcpuMilli (foldContainer c rec) = max (i_vcpuMilli rec) (containerVcpu c)"
  "0 \<le> i_memoryBytes rec \<Longrightarrow> i_memoryBytes (foldContainer c rec) = max (i_memoryBytes rec) (containerMemory c)"
  by (auto simp: foldContainer_def containerVcpu_def containerMemory_def maxMemory_def listMemory_def
      Let_def split: option.splits)

lemma fold_foldContainer_resources:
  "i_vcpuMilli (fold foldContainer cs rec) = fold max (map containerVcpu cs) (i_vcpuMilli rec)"
  "0 \<le> i_memoryBytes rec \<Longrightarrow>
     i_memoryBytes (fold foldContainer cs rec) = fold max (map containerMemory cs) (i_memoryBytes rec)"
proof (induction cs arbitrary: rec)
  case Nil
  case 1 show ?case by simp
  case 2 show ?case by simp
next
  case (Cons c cs)
  case 1 show ?case by (simp add: Cons.IH(1) foldContainer_resources max.commute)
  case 2 then show ?case by (simp add: Cons.IH(2) foldContainer_resources max.commute)
qed

lemma fold_max_init: "(a::int) \<le> fold max xs a"
proof (induction xs arbitrary: a)
  case (Cons x xs)
  have "a \<le> max x a" by simp
  also have "\<dots> \<le> fold max xs (max x a)" by (rule Cons.IH)
  finally show ?case by simp
qed simp

lemma fold_max_ge: "x \<in> insert a (set xs) \<Longrightarrow> x \<le> fold max xs (a::int)"
proof (induction xs arbitrary: a)
  case (Cons y xs)
  show ?case
  proof (cases "x \<in> set xs")
    case True
    then show ?thesis using Cons.IH [of "max y a"] by simp
  next
    case False
    with Cons.prems have "x \<le> max y a" by auto
    also have "\<dots> \<le> fold max xs (max y a)" by (rule fold_max_init)
    finally show ?thesis by simp
  qed
qed simp

lemma fold_max_mem: "fold max xs (a::int) \<in> insert a (set xs)"
proof (induction xs arbitrary: a)
  case (Cons x xs)
  then show ?case using Cons.IH [of "max x a"] by (auto simp: max_def split: if_splits)
qed simp

section \<open>The resolver interface\<close>

text \<open>
  The interface \<open>resolver\<close> of processor.go, with what an index promises: it answers for
  exactly the container ids of the Pods it has seen and not forgotten.
\<close>

locale pod_resolver =
  fixes res :: "'i \<Rightarrow> string \<Rightarrow> info option \<times> string"
    and seePod :: "(string \<Rightarrow> string option) \<Rightarrow> pod \<Rightarrow> 'i \<Rightarrow> 'i"
    and forgetPod :: "pod \<Rightarrow> 'i \<Rightarrow> 'i"
  assumes see_res: "fst (res (seePod rp p i) u) =
      (if u \<in> set (containerIDs p) then Some (fst (podInfo rp p)) else fst (res i u))"
    and forget_res: "fst (res (forgetPod p i) u) =
      (if u \<in> set (containerIDs p) then None else fst (res i u))"
    and res_reason: "snd (res i u) = (if fst (res i u) = None then reasonPodNotIndexed else reasonOK)"
begin

lemma see_forget: "u \<in> set (containerIDs p) \<Longrightarrow> fst (res (forgetPod p (seePod rp p i)) u) = None"
  by (simp add: forget_res)

lemma see_twice:
  "set (containerIDs p) = set (containerIDs q) \<Longrightarrow>
   fst (res (seePod rp q (seePod rp' p i)) u) = fst (res (seePod rp q i) u)"
  by (simp add: see_res)

text \<open>
  A Pod whose container restarted under a new id leaves the old id behind: forgetting the Pod
  removes only the ids it has at that moment.
\<close>

lemma stale_id_survives:
  "u \<in> set (containerIDs p) \<Longrightarrow> u \<notin> set (containerIDs q) \<Longrightarrow>
   fst (res (forgetPod q (seePod rp q (seePod rp p i))) u) = Some (fst (podInfo rp p))"
  by (simp add: see_res forget_res)

end

text \<open>Upsert without the counters: the index after \<open>upsertPod\<close>.\<close>

definition indexPod :: "(string \<Rightarrow> string option) \<Rightarrow> pod \<Rightarrow> podIndex \<Rightarrow> podIndex" where
  "indexPod rp p pods = snd (upsertPod rp (Some p) (zeroStats, pods))"

lemma indexPod_upsert: "snd (upsertPod rp (Some p) (st, pods)) = indexPod rp p pods"
  by (auto simp: indexPod_def upsertPod_def Let_def case_prod_unfold)

lemma indexPod_lookup:
  "map_of (indexPod rp p pods) u =
     (if u \<in> set (containerIDs p) then Some (fst (podInfo rp p)) else map_of pods u)"
  by (metis (no_types) indexPod_upsert prod.collapse upsertPod_lookup)

interpretation pix: pod_resolver resolvePod indexPod "\<lambda>p. deletePod (Some p)"
proof unfold_locales
  show "fst (resolvePod (indexPod rp p i) u) =
      (if u \<in> set (containerIDs p) then Some (fst (podInfo rp p)) else fst (resolvePod i u))" for rp p i u
    using indexPod_lookup [of rp p i u] by (auto simp: resolvePod_def lookupPod_def split: option.splits)
  show "fst (resolvePod (deletePod (Some p) i) u) =
      (if u \<in> set (containerIDs p) then None else fst (resolvePod i u))" for p i u
    using deletePod_lookup [of p i u] by (auto simp: resolvePod_def lookupPod_def split: option.splits)
  show "snd (resolvePod i u) = (if fst (resolvePod i u) = None then reasonPodNotIndexed else reasonOK)" for i u
    by (auto simp: resolvePod_def split: option.splits)
qed

section \<open>Properties\<close>

text \<open>
  An instance is billed at its largest container: a uuid that is a container id of a Pod
  resolves to the Pod's labels, the project of its namespace, and the largest CPU and memory
  over all containers and over limits and requests, none of which exceeds them.
\<close>

theorem resolve_attribution:
  assumes "u \<in> set (containerIDs p)" "resolvePod (snd (upsertPod rp (Some p) (st, pods))) u = (found, reason)"
  shows "\<exists>i. found = Some i \<and> reason = reasonOK \<and>
    i_project i = (case rp (pod_Namespace p) of Some x \<Rightarrow> x | None \<Rightarrow> '''') \<and>
    i_instance i = strAt (pod_Labels p) upstreamInstanceLabel \<and>
    i_vcpuMilli i = fold max (map containerVcpu (ps_Containers (pod_Spec p))) 0 \<and>
    i_memoryBytes i = fold max (map containerMemory (ps_Containers (pod_Spec p))) 0 \<and>
    (\<forall>c \<in> set (ps_Containers (pod_Spec p)). containerVcpu c \<le> i_vcpuMilli i \<and> containerMemory c \<le> i_memoryBytes i)"
proof -
  have "found = Some (fst (podInfo rp p))" "reason = reasonOK"
    using pix.see_res [of rp p pods u] pix.res_reason [of "indexPod rp p pods" u] assms
    by (simp_all add: indexPod_upsert)
  then show ?thesis
    by (auto simp: podInfo_def Let_def fold_foldContainer_resources intro!: fold_max_ge)
qed

text \<open>
  The index never forgets the id of a container that was restarted: when a Pod's container
  id changes from \<open>u\<close> to another, deleting the Pod leaves \<open>u\<close> resolving to the dead Pod.
\<close>

theorem restarted_container_id_leaks:
  assumes "u \<in> set (containerIDs p)" "u \<notin> set (containerIDs q)"
  shows "fst (resolvePod (deletePod (Some q) (snd (upsertPod rp (Some q)
      (st', snd (upsertPod rp (Some p) (st, pods)))))) u) = Some (fst (podInfo rp p))"
  using pix.stale_id_survives [OF assms] by (simp add: indexPod_upsert)

definition demoStatus :: "string \<Rightarrow> containerStatus" where
  "demoStatus i =
     \<lparr>cs_Name = ''c'', cs_Image = '''', cs_ContainerID = ''kraftlet://'' @ i, cs_Waiting = None,
      cs_Terminated = None, cs_LastTerminated = None\<rparr>"

definition demoIndexed :: "string \<Rightarrow> pod" where
  "demoIndexed i = (blankPod ''ns-1'' ''vm'')
     \<lparr>pod_Meta := (blankMeta ''ns-1'' ''vm'')\<lparr>m_Labels := [(upstreamInstanceLabel, ''vm'')]\<rparr>,
      pod_ContainerStatuses := [demoStatus i]\<rparr>"

lemma demoIndexed_ids: "containerIDs (demoIndexed ''u1'') = [''u1'']" "containerIDs (demoIndexed ''u2'') = [''u2'']"
  by code_simp+

theorem resolve_attribution_witness:
  "\<exists>i. fst (resolvePod (snd (upsertPod (\<lambda>n. Some ''p'') (Some (demoIndexed ''u1'')) (zeroStats, []))) ''u1'') = Some i \<and>
     i_project i = ''p''"
  using resolve_attribution [of "''u1''" "demoIndexed ''u1''" "\<lambda>n. Some ''p''" zeroStats "[]", OF _ prod.collapse [symmetric]]
    demoIndexed_ids by auto

theorem restarted_container_id_leaks_witness:
  "fst (resolvePod (deletePod (Some (demoIndexed ''u2'')) (snd (upsertPod (\<lambda>n. None) (Some (demoIndexed ''u2''))
      (zeroStats, snd (upsertPod (\<lambda>n. None) (Some (demoIndexed ''u1'')) (zeroStats, [])))))) ''u1'') \<noteq> None"
  using restarted_container_id_leaks [of "''u1''" "demoIndexed ''u1''" "demoIndexed ''u2''"] demoIndexed_ids by simp

end
