(* ===== verification/File_Source.thy ===== *)
theory File_Source
  imports Event Window
begin

text \<open>
  src/internal/stateprojector/file_source.go: tailing the events file that ukpd appends to,
  splitting it into lines, decoding each and handing it to the handler, and checkpointing the
  read position in a file of its own.
\<close>

section \<open>The handler behind the source\<close>

text \<open>
  The interface \<open>eventHandler\<close> with its state \<open>'h\<close>. The source and the handler share one
  set of counters; \<open>eh_count\<close> is the access to it.
\<close>

record 'h eventHandler =
  eh_HandleEvent :: "stateChange \<Rightarrow> 'h \<Rightarrow> 'h"
  eh_count :: "(stats \<Rightarrow> stats) \<Rightarrow> 'h \<Rightarrow> 'h"

text \<open>
  \<open>unmarshal\<close> is \<open>json.Unmarshal\<close> into a \<open>stateChange\<close>, \<open>None\<close> an error.
\<close>

type_synonym decoder = "string \<Rightarrow> stateChange option"

definition decodeAndHandle :: "decoder \<Rightarrow> 'h eventHandler \<Rightarrow> string \<Rightarrow> 'h \<Rightarrow> 'h" where
  "decodeAndHandle unmarshal H line h =
     (case unmarshal line of
        None \<Rightarrow> eh_count H (\<lambda>st. st\<lparr>decodeErrors := decodeErrors st + 1\<rparr>) h
      | Some ev \<Rightarrow>
          (let ev = ev\<lparr>ev_Raw := line\<rparr>;
               h = eh_count H (\<lambda>st. st\<lparr>eventsReceived := eventsReceived st + 1\<rparr>) h
           in eh_HandleEvent H ev h))"

text \<open>
  The settings of the source; the handler and the counters it is built with are those above. The
  checkpoint is a file next to the events file.
\<close>

record fileSource =
  fs_path :: string
  fs_offsetPath :: string
  fs_pollInterval :: duration

definition newFileSource :: "string \<Rightarrow> fileSource" where
  "newFileSource path = \<lparr>fs_path = path, fs_offsetPath = path @ ''.offset'', fs_pollInterval = 500 * (second div 1000)\<rparr>"

lemma newFileSource_apart: "fs_offsetPath (newFileSource path) \<noteq> fs_path (newFileSource path)"
  by (simp add: newFileSource_def)

section \<open>Lines\<close>

abbreviation newline :: char where "newline \<equiv> CHR 0x0A"

text \<open>\<open>bytes.IndexByte(buf, '\n')\<close> and the two slices taken at it.\<close>

fun cutLine :: "string \<Rightarrow> (string \<times> string) option" where
  "cutLine [] = None"
| "cutLine (c # s) =
     (if c = newline then Some ([], s) else map_option (\<lambda>(l, r). (c # l, r)) (cutLine s))"

lemma cutLine_Some: "cutLine s = Some (l, r) \<Longrightarrow> s = l @ newline # r \<and> newline \<notin> set l"
  by (induction s arbitrary: l) (auto split: if_splits)

lemma cutLine_None: "cutLine s = None \<longleftrightarrow> newline \<notin> set s"
  by (induction s) auto

lemma cutLine_append [simp]: "newline \<notin> set l \<Longrightarrow> cutLine (l @ newline # r) = Some (l, r)"
  by (induction l) auto

function consumeLines ::
  "decoder \<Rightarrow> 'h eventHandler \<Rightarrow> string \<Rightarrow> 'h \<Rightarrow> string \<times> 'h" where
  "consumeLines unmarshal H buf h =
     (case cutLine buf of
        None \<Rightarrow> (buf, h)
      | Some (line, rest) \<Rightarrow>
          consumeLines unmarshal H rest
            (if length (trimSpace line) > 0 then decodeAndHandle unmarshal H line h else h))"
  by pat_completeness auto
termination
  by (relation "measure (\<lambda>(u, H, buf, h). length buf)") (auto dest!: cutLine_Some)

declare consumeLines.simps [simp del]

section \<open>The source\<close>

text \<open>
  The state of \<open>Run\<close> between two system calls: the open file (its identity, as
  \<open>os.SameFile\<close> compares it), the local variables, and the checkpoint file on disk. A file
  that is open is positioned at \<open>offset\<close>: \<open>open\<close> seeks there, and every read moves both.
\<close>

record tailer =
  tl_file :: "nat option"
  tl_offset :: int
  tl_lastSaved :: int
  tl_pending :: string
  tl_offsetFile :: "string option"

text \<open>
  What one round of the loop finds outside the program: the outcome of \<open>os.Open\<close>, \<open>Stat\<close> and
  \<open>Seek\<close> on the path, of \<open>os.Stat\<close>, of each \<open>Read\<close> (the bytes, and whether an error came
  with them), of the write of the checkpoint, whether the context is done at the select, and
  the outcome of the deferred write of the checkpoint.
\<close>

datatype openOutcome = NotExist | OpenError | StatError | Opened nat int bool

record round =
  rd_open :: openOutcome
  rd_stat :: "(nat \<times> int) option"
  rd_reads :: "(string \<times> bool) list"
  rd_saveOk :: bool
  rd_done :: bool
  rd_finalSaveOk :: bool

text \<open>\<open>open\<close>: the file, if any, and the corrected offset. Its error is only logged.\<close>

definition openFile :: "openOutcome \<Rightarrow> int \<Rightarrow> nat option \<times> int" where
  "openFile out offset =
     (case out of
        NotExist \<Rightarrow> (None, offset)
      | OpenError \<Rightarrow> (None, offset)
      | StatError \<Rightarrow> (None, offset)
      | Opened ino len seekOk \<Rightarrow>
          (let offset = (if offset > len then 0 else offset)
           in if seekOk then (Some ino, offset) else (None, offset)))"

definition loadOffset :: "string option \<Rightarrow> int" where
  "loadOffset content =
     (case content of
        None \<Rightarrow> 0
      | Some b \<Rightarrow> (case parseInt (trimSpace b) of None \<Rightarrow> 0 | Some n \<Rightarrow> n))"

definition saveOffset :: "bool \<Rightarrow> tailer \<Rightarrow> tailer" where
  "saveOffset ok t = (if ok then t\<lparr>tl_offsetFile := Some (formatInt (tl_offset t))\<rparr> else t)"

text \<open>The inner loop: read until an error, which at the end of the script is the EOF.\<close>

fun readLoop ::
  "decoder \<Rightarrow> 'h eventHandler \<Rightarrow> (string \<times> bool) list \<Rightarrow> tailer \<times> 'h \<Rightarrow> tailer \<times> 'h" where
  "readLoop U H [] th = th"
| "readLoop U H ((chunk, failed) # rs) (t, h) =
     (let (t, h) = (if length chunk > 0
                    then (let (pending, h) = consumeLines U H (tl_pending t @ chunk) h
                          in (t\<lparr>tl_offset := wrap64 (tl_offset t + int (length chunk)),
                                tl_pending := pending\<rparr>, h))
                    else (t, h))
      in if failed then (t, h) else readLoop U H rs (t, h))"

text \<open>The reads of a round, and the checkpoint when the position has moved.\<close>

definition pollRead ::
  "decoder \<Rightarrow> 'h eventHandler \<Rightarrow> round \<Rightarrow> tailer \<times> 'h \<Rightarrow> tailer \<times> 'h" where
  "pollRead U H e th =
     (let (t, h) = readLoop U H (rd_reads e) th
      in if tl_offset t \<noteq> tl_lastSaved t
         then ((saveOffset (rd_saveOk e) t)\<lparr>tl_lastSaved := tl_offset t\<rparr>, h)
         else (t, h))"

text \<open>
  One round. \<open>Again\<close> is the \<open>continue\<close> after a rotation, which does not wait; \<open>Wait\<close> is a
  select.
\<close>

datatype roundEnd = Again | Wait

definition pollRound ::
  "decoder \<Rightarrow> 'h eventHandler \<Rightarrow> round \<Rightarrow> tailer \<times> 'h \<Rightarrow> roundEnd \<times> tailer \<times> 'h" where
  "pollRound U H e th =
     (let (t, h) = th;
          t = (if tl_file t = None
               then (let (file, offset) = openFile (rd_open e) (tl_offset t)
                     in t\<lparr>tl_file := file, tl_offset := offset\<rparr>)
               else t)
      in case tl_file t of
           None \<Rightarrow> (Wait, t, h)
         | Some ino \<Rightarrow>
             (case rd_stat e of
                Some (pathIno, len) \<Rightarrow>
                  if pathIno \<noteq> ino \<or> len < tl_offset t
                  then (Again, t\<lparr>tl_file := None, tl_offset := 0, tl_pending := []\<rparr>, h)
                  else (Wait, pollRead U H e (t, h))
              | None \<Rightarrow> (Wait, pollRead U H e (t, h))))"

text \<open>
  \<open>Run\<close> over the rounds it goes through: the flag tells whether it has returned (the context
  was done at a select), in which case the deferred checkpoint has been attempted. When the
  script of rounds ends first, it is still running.
\<close>

fun runRounds ::
  "decoder \<Rightarrow> 'h eventHandler \<Rightarrow> round list \<Rightarrow> tailer \<times> 'h \<Rightarrow> bool \<times> tailer \<times> 'h" where
  "runRounds U H [] th = (False, th)"
| "runRounds U H (e # es) th =
     (let (next, t, h) = pollRound U H e th
      in if next = Wait \<and> rd_done e then (True, saveOffset (rd_finalSaveOk e) t, h)
         else runRounds U H es (t, h))"

definition startTailer :: "string option \<Rightarrow> tailer" where
  "startTailer offsetFile =
     \<lparr>tl_file = None, tl_offset = loadOffset offsetFile, tl_lastSaved = loadOffset offsetFile,
      tl_pending = [], tl_offsetFile = offsetFile\<rparr>"

text \<open>\<open>Run\<close>: without the events directory it returns the error at once.\<close>

definition runSource ::
  "decoder \<Rightarrow> 'h eventHandler \<Rightarrow> bool \<Rightarrow> round list \<Rightarrow> string option \<Rightarrow> 'h \<Rightarrow> string + bool \<times> tailer \<times> 'h" where
  "runSource U H mkdirOk es offsetFile h =
     (if \<not> mkdirOk then Inl ''mkdir events dir''
      else Inr (runRounds U H es (startTailer offsetFile, h)))"

section \<open>What the source should deliver\<close>

text \<open>The complete lines of a text and what follows the last newline.\<close>

fun splitLines :: "string \<Rightarrow> string list \<times> string" where
  "splitLines [] = ([], [])"
| "splitLines (c # s) =
     (case splitLines s of
        (ls, t) \<Rightarrow>
          if c = newline then ([] # ls, t)
          else (case ls of [] \<Rightarrow> ([], c # t) | l # ls' \<Rightarrow> ((c # l) # ls', t)))"

definition deliver :: "decoder \<Rightarrow> 'h eventHandler \<Rightarrow> string list \<Rightarrow> 'h \<Rightarrow> 'h" where
  "deliver U H ls h = fold (decodeAndHandle U H) (filter (\<lambda>l. trimSpace l \<noteq> []) ls) h"

text \<open>The bytes a sequence of reads returns, up to the first error.\<close>

fun delivered :: "(string \<times> bool) list \<Rightarrow> string" where
  "delivered [] = []"
| "delivered ((chunk, failed) # rs) = chunk @ (if failed then [] else delivered rs)"

fun bytesOf :: "round list \<Rightarrow> string" where
  "bytesOf [] = []"
| "bytesOf (e # es) = delivered (rd_reads e) @ bytesOf es"

text \<open>Rounds one after another, and that none of them finds the file rotated.\<close>

fun pollRounds :: "decoder \<Rightarrow> 'h eventHandler \<Rightarrow> round list \<Rightarrow> tailer \<times> 'h \<Rightarrow> tailer \<times> 'h" where
  "pollRounds U H [] th = th"
| "pollRounds U H (e # es) th = pollRounds U H es (snd (pollRound U H e th))"

fun quiet :: "decoder \<Rightarrow> 'h eventHandler \<Rightarrow> round list \<Rightarrow> tailer \<times> 'h \<Rightarrow> bool" where
  "quiet U H [] th \<longleftrightarrow> True"
| "quiet U H (e # es) th \<longleftrightarrow>
     fst (pollRound U H e th) = Wait \<and> quiet U H es (snd (pollRound U H e th))"

text \<open>What a sequence of reads leaves in the tailer.\<close>

definition advance :: "tailer \<Rightarrow> string \<Rightarrow> tailer" where
  "advance t d =
     t\<lparr>tl_offset := wrap64 (tl_offset t + int (length d)),
       tl_pending := snd (splitLines (tl_pending t @ d))\<rparr>"

section \<open>Lemmas\<close>

lemma splitLines_no_newline: "newline \<notin> set s \<Longrightarrow> splitLines s = ([], s)"
  by (induction s) auto

lemma splitLines_cut:
  "newline \<notin> set l \<Longrightarrow>
   splitLines (l @ newline # r) = (l # fst (splitLines r), snd (splitLines r))"
  by (induction l) (auto split: prod.splits list.splits)

text \<open>Splitting loses nothing: the lines and the tail make up the text.\<close>

lemma splitLines_join:
  "concat (map (\<lambda>l. l @ [newline]) (fst (splitLines s))) @ snd (splitLines s) = s \<and>
   newline \<notin> set (snd (splitLines s)) \<and> (\<forall>l \<in> set (fst (splitLines s)). newline \<notin> set l)"
  by (induction s) (auto split: prod.splits list.splits)

lemma deliver_append [simp]: "deliver U H (ls @ ks) h = deliver U H ks (deliver U H ls h)"
  by (simp add: deliver_def)

lemma deliver_Nil [simp]: "deliver U H [] h = h"
  by (simp add: deliver_def)

lemma deliver_Cons:
  "deliver U H (l # ls) h = deliver U H ls (if trimSpace l \<noteq> [] then decodeAndHandle U H l h else h)"
  by (simp add: deliver_def)

lemma consumeLines_spec:
  "consumeLines U H buf h = (snd (splitLines buf), deliver U H (fst (splitLines buf)) h)"
proof (induction U H buf h rule: consumeLines.induct)
  case (1 U H buf h)
  show ?case
  proof (cases "cutLine buf")
    case None
    then have "splitLines buf = ([], buf)" by (intro splitLines_no_newline) (simp flip: cutLine_None)
    with None show ?thesis by (simp add: consumeLines.simps [of U H buf])
  next
    case (Some lr)
    then obtain l r where lr: "cutLine buf = Some (l, r)" by (cases lr) auto
    then have "buf = l @ newline # r" "newline \<notin> set l" by (auto dest: cutLine_Some)
    then have sp: "splitLines buf = (l # fst (splitLines r), snd (splitLines r))"
      by (simp add: splitLines_cut)
    show ?thesis using "1.IH" [OF lr refl] lr sp by (simp add: consumeLines.simps [of U H buf] deliver_Cons)
  qed
qed

lemma splitLines_append:
  "splitLines (a @ b) =
     (fst (splitLines a) @ fst (splitLines (snd (splitLines a) @ b)), snd (splitLines (snd (splitLines a) @ b)))"
  by (induction a) (auto split: prod.splits list.splits)

lemma advance_append: "advance (advance t a) b = advance t (a @ b)"
  using splitLines_append [of "tl_pending t @ a" b]
  by (simp add: advance_def wrap64_wrap64_add add.assoc)

lemma advance_Nil:
  "newline \<notin> set (tl_pending t) \<Longrightarrow> int64 (tl_offset t) \<Longrightarrow> advance t [] = t"
  by (simp add: advance_def splitLines_no_newline)

lemma advance_keeps [simp]:
  "newline \<notin> set (tl_pending (advance t d))" "int64 (tl_offset (advance t d))"
  "tl_file (advance t d) = tl_file t" "tl_lastSaved (advance t d) = tl_lastSaved t"
  using splitLines_join [of "tl_pending t @ d"] by (simp_all add: advance_def wrap64_range)

text \<open>
  However the bytes are cut into reads, the lines handed on are those of the whole text.
\<close>

lemma readLoop_spec:
  assumes "newline \<notin> set (tl_pending t)" "int64 (tl_offset t)"
  shows "readLoop U H rs (t, h) =
    (advance t (delivered rs), deliver U H (fst (splitLines (tl_pending t @ delivered rs))) h)"
  using assms
proof (induction rs arbitrary: t h)
  case Nil
  then show ?case by (simp add: advance_Nil splitLines_no_newline)
next
  case (Cons cf rs)
  obtain c f where cf: "cf = (c, f)" by (cases cf)
  let ?h = "deliver U H (fst (splitLines (tl_pending t @ c))) h"
  have step: "readLoop U H (cf # rs) (t, h) =
      (if f then (advance t c, ?h) else readLoop U H rs (advance t c, ?h))"
    using Cons.prems cf
    by (auto simp: consumeLines_spec advance_def splitLines_no_newline)
  have tail: "tl_pending (advance t c) = snd (splitLines (tl_pending t @ c))" by (simp add: advance_def)
  show ?case
    using step cf Cons.IH [OF advance_keeps(1,2), of t c ?h]
      splitLines_append [of "tl_pending t @ c" "delivered rs"]
    by (cases f) (simp_all add: advance_append tail)
qed

lemma pollRead_spec:
  assumes "newline \<notin> set (tl_pending t)" "int64 (tl_offset t)"
  shows "\<exists>s f. pollRead U H e (t, h) =
    ((advance t (delivered (rd_reads e)))\<lparr>tl_lastSaved := s, tl_offsetFile := f\<rparr>,
     deliver U H (fst (splitLines (tl_pending t @ delivered (rd_reads e)))) h)"
proof -
  let ?t = "advance t (delivered (rd_reads e))"
  have "pollRead U H e (t, h) =
      (?t\<lparr>tl_lastSaved := tl_offset ?t,
          tl_offsetFile := (if tl_offset ?t = tl_lastSaved ?t \<or> \<not> rd_saveOk e then tl_offsetFile ?t
                            else Some (formatInt (tl_offset ?t)))\<rparr>,
       deliver U H (fst (splitLines (tl_pending t @ delivered (rd_reads e)))) h)"
    unfolding pollRead_def readLoop_spec [OF assms] Let_def prod.case by (simp add: saveOffset_def)
  then show ?thesis by blast
qed

text \<open>A round on an open file that is not rotated only reads.\<close>

lemma pollRound_open:
  assumes "tl_file t = Some ino" "fst (pollRound U H e (t, h)) = Wait"
  shows "snd (pollRound U H e (t, h)) = pollRead U H e (t, h)"
  using assms by (auto simp: pollRound_def split: option.splits if_splits)

lemma advance_update [simp]:
  "advance (t\<lparr>tl_lastSaved := s, tl_offsetFile := f\<rparr>) d = (advance t d)\<lparr>tl_lastSaved := s, tl_offsetFile := f\<rparr>"
  by (simp add: advance_def)

lemma pollRounds_spec:
  assumes "tl_file t = Some ino" "newline \<notin> set (tl_pending t)" "int64 (tl_offset t)"
    and "quiet U H es (t, h)"
  shows "\<exists>s f. pollRounds U H es (t, h) =
    ((advance t (bytesOf es))\<lparr>tl_lastSaved := s, tl_offsetFile := f\<rparr>,
     deliver U H (fst (splitLines (tl_pending t @ bytesOf es))) h)"
  using assms
proof (induction es arbitrary: t h)
  case Nil
  then show ?case
    by (intro exI [of _ "tl_lastSaved t"] exI [of _ "tl_offsetFile t"])
      (simp add: advance_Nil splitLines_no_newline)
next
  case (Cons e es)
  let ?d = "delivered (rd_reads e)" and ?r = "bytesOf es"
  obtain s f where r: "snd (pollRound U H e (t, h)) =
      ((advance t ?d)\<lparr>tl_lastSaved := s, tl_offsetFile := f\<rparr>,
       deliver U H (fst (splitLines (tl_pending t @ ?d))) h)"
    using pollRead_spec [OF Cons.prems(2,3), of U H e h] pollRound_open [OF Cons.prems(1), of U H e h]
      Cons.prems(4) by auto
  have tail: "tl_pending (advance t ?d) = snd (splitLines (tl_pending t @ ?d))" by (simp add: advance_def)
  obtain s2 f2 where
    "pollRounds U H es (snd (pollRound U H e (t, h))) =
      ((advance (advance t ?d) ?r)\<lparr>tl_lastSaved := s2, tl_offsetFile := f2\<rparr>,
       deliver U H (fst (splitLines (tl_pending (advance t ?d) @ ?r)))
         (deliver U H (fst (splitLines (tl_pending t @ ?d))) h))"
    using Cons.IH [of "fst (snd (pollRound U H e (t, h)))" "snd (snd (pollRound U H e (t, h)))"] Cons.prems r
    by auto
  then show ?case
    using splitLines_append [of "tl_pending t @ ?d" ?r]
    by (intro exI [of _ s2] exI [of _ f2]) (simp add: advance_append tail)
qed

text \<open>Opening at a position the file still has changes nothing else about the round.\<close>

lemma pollRound_opens:
  assumes "tl_file t = None" "rd_open e = Opened ino len True" "tl_offset t \<le> len"
  shows "pollRound U H e (t, h) = pollRound U H e (t\<lparr>tl_file := Some ino\<rparr>, h)"
  using assms by (simp add: pollRound_def openFile_def)


lemma loadOffset_saved: "int64 (tl_offset t) \<Longrightarrow> loadOffset (tl_offsetFile (saveOffset True t)) = tl_offset t"
  by (simp add: loadOffset_def saveOffset_def)


text \<open>The counters the source keeps, whatever the handler does with an event.\<close>

locale event_handler =
  fixes H :: "'h eventHandler" and counters :: "'h \<Rightarrow> stats"
  assumes count: "counters (eh_count H f h) = f (counters h)"
    and handle_received: "eventsReceived (counters (eh_HandleEvent H ev h)) = eventsReceived (counters h)"
    and handle_errors: "decodeErrors (counters (eh_HandleEvent H ev h)) = decodeErrors (counters h)"
begin

lemma decodeAndHandle_counts:
  "eventsReceived (counters (decodeAndHandle U H l h)) =
     eventsReceived (counters h) + (if U l = None then 0 else 1)"
  "decodeErrors (counters (decodeAndHandle U H l h)) =
     decodeErrors (counters h) + (if U l = None then 1 else 0)"
  by (simp_all add: decodeAndHandle_def count handle_received handle_errors Let_def split: option.splits)

lemma deliver_counts:
  "eventsReceived (counters (deliver U H ls h)) =
     eventsReceived (counters h) + int (length (filter (\<lambda>l. trimSpace l \<noteq> [] \<and> U l \<noteq> None) ls)) \<and>
   decodeErrors (counters (deliver U H ls h)) =
     decodeErrors (counters h) + int (length (filter (\<lambda>l. trimSpace l \<noteq> [] \<and> U l = None) ls))"
  by (induction ls arbitrary: h) (simp_all add: deliver_Cons decodeAndHandle_counts)

end


lemma trimSpace_event: "trimSpace (marshalStateChange ev) \<noteq> []"
proof -
  have "CHR ''{'' \<in> set (trimSpace (marshalStateChange ev))"
    by (intro trimSpace_keeps) (simp_all add: spaceRunes_def marshalStateChange_def del: joinWith.simps)
  then show ?thesis by auto
qed

text \<open>A file of printed events.\<close>

definition eventFile :: "stateChange list \<Rightarrow> string" where
  "eventFile evs = concat (map (\<lambda>ev. marshalStateChange ev @ [newline]) evs)"

lemma splitLines_eventFile:
  "\<forall>ev\<in>set evs. eventOk ev \<Longrightarrow> splitLines (eventFile evs) = (map marshalStateChange evs, [])"
proof (induction evs)
  case (Cons ev evs)
  then have "newline \<notin> set (marshalStateChange ev)" using marshalStateChange_printable [of ev] by fastforce
  then show ?case using Cons splitLines_cut [of "marshalStateChange ev" "eventFile evs"] by (simp add: eventFile_def)
qed (simp add: eventFile_def)

lemma deliver_events:
  "\<forall>ev\<in>set evs. eventOk ev \<Longrightarrow>
   deliver unmarshalStateChange H (map marshalStateChange evs) h =
     fold (\<lambda>ev h. eh_HandleEvent H (ev\<lparr>ev_Raw := marshalStateChange ev\<rparr>)
             (eh_count H (\<lambda>st. st\<lparr>eventsReceived := eventsReceived st + 1\<rparr>) h)) evs h"
  by (induction evs arbitrary: h) (simp_all add: deliver_Cons trimSpace_event decodeAndHandle_def unmarshal_marshal Let_def)


section \<open>Properties\<close>

text \<open>
  C13. Every line of the events file is handled exactly once, in order: whatever the sizes of
  the reads and however they fall into rounds, an open file that is not rotated delivers
  exactly the complete non-blank lines of the bytes read, keeps the incomplete one for the
  next read, and counts the position by the bytes read.
\<close>

theorem source_exactly_once:
  assumes "tl_file t = Some ino" "tl_pending t = []" "int64 (tl_offset t)" "quiet U H es (t, h)"
  shows "snd (pollRounds U H es (t, h)) = deliver U H (fst (splitLines (bytesOf es))) h \<and>
    tl_pending (fst (pollRounds U H es (t, h))) = snd (splitLines (bytesOf es)) \<and>
    tl_offset (fst (pollRounds U H es (t, h))) = wrap64 (tl_offset t + int (length (bytesOf es)))"
  using pollRounds_spec [OF assms(1) _ assms(3,4)] assms(2) by (auto simp: advance_def)



text \<open>
  C14. Events survive the file: when the bytes that are read are printed events, one to a line, then
  whatever the sizes of the reads and however they fall into rounds, the handler is given exactly
  these events, in order, each with the line it came from, and each is counted as received.
\<close>

theorem source_delivers_events:
  assumes "tl_file t = Some ino" "tl_pending t = []" "int64 (tl_offset t)" "quiet unmarshalStateChange H es (t, h)"
    and "bytesOf es = eventFile evs" "\<forall>ev\<in>set evs. eventOk ev"
  shows "snd (pollRounds unmarshalStateChange H es (t, h)) =
    fold (\<lambda>ev h. eh_HandleEvent H (ev\<lparr>ev_Raw := marshalStateChange ev\<rparr>)
            (eh_count H (\<lambda>st. st\<lparr>eventsReceived := eventsReceived st + 1\<rparr>) h)) evs h"
  using pollRounds_spec [OF assms(1) _ assms(3,4)] assms(2,5,6)
  by (auto simp: splitLines_eventFile deliver_events)

text \<open>
  A checkpoint survives the round trip through its file, for every position an int64 holds.
\<close>

theorem offset_roundtrip:
  assumes "int64 (tl_offset t)"
  shows "loadOffset (tl_offsetFile (saveOffset True t)) = tl_offset t"
  using assms by (rule loadOffset_saved)

text \<open>
  A rotated or truncated file is read again from the start: when the path has another file
  behind it, or a shorter one than the position, the round drops the unfinished line and the
  position, and the next one opens at 0 whatever the length of the new file.
\<close>

theorem source_rotation:
  assumes "tl_file t = Some ino" "rd_stat e = Some (ino2, len)" "ino2 \<noteq> ino \<or> len < tl_offset t"
    and "rd_open e2 = Opened ino2 len2 True" "0 \<le> len2"
  shows "pollRound U H e (t, h) = (Again, t\<lparr>tl_file := None, tl_offset := 0, tl_pending := []\<rparr>, h) \<and>
    pollRound U H e2 (snd (pollRound U H e (t, h))) =
      pollRound U H e2 (t\<lparr>tl_file := Some ino2, tl_offset := 0, tl_pending := []\<rparr>, h)"
proof -
  let ?t = "t\<lparr>tl_file := None, tl_offset := 0, tl_pending := []\<rparr>"
  have "pollRound U H e (t, h) = (Again, ?t, h)" using assms(1-3) by (auto simp: pollRound_def)
  moreover have "pollRound U H e2 (?t, h) = pollRound U H e2 (?t\<lparr>tl_file := Some ino2\<rparr>, h)"
    using assms(4,5) by (intro pollRound_opens) simp_all
  moreover have "?t\<lparr>tl_file := Some ino2\<rparr> = t\<lparr>tl_file := Some ino2, tl_offset := 0, tl_pending := []\<rparr>" by simp
  ultimately show ?thesis by simp
qed

section \<open>Witnesses\<close>

definition demoHandler :: "string list eventHandler" where
  "demoHandler = \<lparr>eh_HandleEvent = (\<lambda>ev h. h @ [ev_Raw ev]), eh_count = (\<lambda>f h. h)\<rparr>"

definition demoDecode :: decoder where
  "demoDecode line =
     Some \<lparr>ev_Timestamp = '''', ev_Type = '''', ev_Data = [], ev_ObjectUUID = '''', ev_Raw = ''''\<rparr>"

definition demoRound :: "string list \<Rightarrow> round" where
  "demoRound chunks =
     \<lparr>rd_open = Opened 1 100 True, rd_stat = Some (1, 100), rd_reads = map (\<lambda>c. (c, False)) chunks,
      rd_saveOk = True, rd_done = False, rd_finalSaveOk = True\<rparr>"

definition demoTailer :: tailer where
  "demoTailer =
     \<lparr>tl_file = Some 1, tl_offset = 0, tl_lastSaved = 0, tl_pending = [], tl_offsetFile = None\<rparr>"

lemmas demo_source_defs = demoHandler_def demoDecode_def demoRound_def demoTailer_def

theorem source_exactly_once_witness:
  "snd (pollRounds demoDecode demoHandler [demoRound [''a'', ''b'' @ [newline] @ ''c''], demoRound [[newline]]]
     (demoTailer, [])) = [''ab'', ''c'']"
proof -
  let ?es = "[demoRound [''a'', ''b'' @ [newline] @ ''c''], demoRound [[newline]]]"
  have q: "quiet demoDecode demoHandler ?es (demoTailer, [])"
    and d: "deliver demoDecode demoHandler (fst (splitLines (bytesOf ?es))) [] = [''ab'', ''c'']" by code_simp+
  show ?thesis using source_exactly_once [OF _ _ _ q, of 1] d by (simp add: demoTailer_def)
qed


text \<open>A handler that keeps the counters and the uuids it is given.\<close>

definition demoCounter :: "(stats \<times> string list) eventHandler" where
  "demoCounter =
     \<lparr>eh_HandleEvent = (\<lambda>ev (st, us). (st, us @ [ev_ObjectUUID ev])), eh_count = (\<lambda>f (st, us). (f st, us))\<rparr>"


theorem source_delivers_events_witness:
  "\<exists>es. bytesOf es = eventFile [zeroEvent\<lparr>ev_ObjectUUID := ''u''\<rparr>, zeroEvent\<lparr>ev_ObjectUUID := ''v''\<rparr>] \<and>
     snd (pollRounds unmarshalStateChange demoCounter es (demoTailer, (zeroStats, []))) =
       (zeroStats\<lparr>eventsReceived := 2\<rparr>, [''u'', ''v''])"
proof -
  let ?U = unmarshalStateChange
  let ?evs = "[zeroEvent\<lparr>ev_ObjectUUID := ''u''\<rparr>, zeroEvent\<lparr>ev_ObjectUUID := ''v''\<rparr>]"
  let ?es = "[demoRound [take 7 (eventFile ?evs)], demoRound [drop 7 (eventFile ?evs)]]"
  have q: "quiet ?U demoCounter ?es (demoTailer, (zeroStats, []))"
    and d: "fold (\<lambda>ev h. eh_HandleEvent demoCounter (ev\<lparr>ev_Raw := marshalStateChange ev\<rparr>)
            (eh_count demoCounter (\<lambda>st. st\<lparr>eventsReceived := eventsReceived st + 1\<rparr>) h)) ?evs (zeroStats, []) =
          (zeroStats\<lparr>eventsReceived := 2\<rparr>, [''u'', ''v''])" by code_simp+
  have b: "bytesOf ?es = eventFile ?evs" by (simp add: demoRound_def)
  have k: "\<forall>ev\<in>set ?evs. eventOk ev" by (simp add: eventOk_def zeroEvent_def validUTF8.simps runeLen_def maxNestingDepth_def)
  show ?thesis
    using source_delivers_events [OF _ _ _ q b k, of 1] d b by (intro exI [of _ ?es]) (simp add: demoTailer_def)
qed

theorem offset_roundtrip_witness:
  "loadOffset (tl_offsetFile (saveOffset True (demoTailer\<lparr>tl_offset := 4096\<rparr>))) = 4096"
  using offset_roundtrip [of "demoTailer\<lparr>tl_offset := 4096\<rparr>"] by (simp add: int64_def)

theorem source_rotation_witness:
  "pollRound demoDecode demoHandler (demoRound []) (demoTailer\<lparr>tl_file := Some 7, tl_offset := 9\<rparr>, []) =
     (Again, demoTailer\<lparr>tl_file := None\<rparr>, [])"
  using source_rotation [of "demoTailer\<lparr>tl_file := Some 7, tl_offset := 9\<rparr>" 7 "demoRound []" 1 100
      "demoRound []" 100 demoDecode demoHandler "[]"]
  by (simp add: demoTailer_def demoRound_def)

end
