(* ===== verification/Processor.thy ===== *)
theory Processor
  imports Writer Pod_Index File_Source
begin

text \<open>
  src/internal/stateprojector/processor.go: the state machine that turns vm.state_change
  events into open and closed running windows, resolves their attribution, and writes the
  usage records, on close and on a periodic flush.
\<close>

section \<open>The processor\<close>

definition flushSkipTolerance :: duration where "flushSkipTolerance = 1 * second"

definition flushSkipThreshold :: "duration \<Rightarrow> duration" where
  "flushSkipThreshold interval =
     (let tolerance = flushSkipTolerance; maxTolerance = quot interval 10;
          tolerance = (if tolerance > maxTolerance then maxTolerance else tolerance)
      in wrap64 (interval - tolerance))"

text \<open>
  What a processor is wired to: the resolver, the record writer, and the MD5 of package
  crypto. The mutable part is the window store, the state behind the writer, and the counters
  it shares with the other components.
\<close>

record 'o procDeps =
  dp_resolve :: "string \<Rightarrow> info option \<times> string"
  dp_out :: "'o recordWriter"
  dp_md5hex :: "string \<Rightarrow> string"

record 'o processor =
  pr_windows :: windowStore
  pr_out :: 'o
  pr_stats :: stats
  pr_interval :: duration

definition newProcessor :: "'o \<Rightarrow> stats \<Rightarrow> duration \<Rightarrow> 'o processor" where
  "newProcessor out st flushInterval =
     \<lparr>pr_windows = newWindowStore, pr_out = out, pr_stats = st, pr_interval = flushInterval\<rparr>"

definition openWindows :: "'o processor \<Rightarrow> nat" where
  "openWindows p = lenWindows (pr_windows p)"

definition resolveWindow :: "'o procDeps \<Rightarrow> window \<Rightarrow> stats \<Rightarrow> window \<times> stats" where
  "resolveWindow D w st =
     (if w_resolved w \<noteq> None then (w, st)
      else (case dp_resolve D (w_uuid w) of
              (Some rec, reason) \<Rightarrow> (w\<lparr>w_resolved := Some rec\<rparr>, st)
            | (None, reason) \<Rightarrow>
                if reason \<noteq> w_lastResolveLog w
                then (w\<lparr>w_lastResolveLog := reason\<rparr>, st\<lparr>unresolved := unresolved st + 1\<rparr>)
                else (w, st)))"

definition recordFor ::
  "'o procDeps \<Rightarrow> window \<Rightarrow> time \<Rightarrow> stats \<Rightarrow> usageRecord \<times> window \<times> stats" where
  "recordFor D w end st =
     (let (w, st) = resolveWindow D w st;
          start = w_reportedUntil w;
          dur = timeSub end start;
          dur = (if dur < 0 then 0 else dur);
          out = \<lparr>u_ID = windowID (dp_md5hex D) (w_uuid w) start end,
                 u_Project = ''-'', u_Instance = ''-'', u_UUID = w_uuid w,
                 u_VcpuMilli = 0, u_MemoryBytes = 0,
                 u_Start = formatRFC3339 start, u_End = formatRFC3339 end, u_Duration = dur\<rparr>;
          out = (case w_resolved w of
                   None \<Rightarrow> out
                 | Some rec \<Rightarrow>
                     out\<lparr>u_Project := (if i_project rec \<noteq> '''' then i_project rec else ''-''),
                         u_Instance := i_instance rec,
                         u_VcpuMilli := i_vcpuMilli rec,
                         u_MemoryBytes := i_memoryBytes rec\<rparr>)
      in (out, w, st))"

definition emitWindow ::
  "'o procDeps \<Rightarrow> window \<Rightarrow> time \<Rightarrow> stats \<times> 'o \<Rightarrow> window \<times> stats \<times> 'o" where
  "emitWindow D w end so =
     (let (st, out) = so;
          (end, st) = (if end < w_reportedUntil w
                       then (w_reportedUntil w, st\<lparr>overbilled := overbilled st + 1\<rparr>)
                       else (end, st))
      in if end = w_reportedUntil w then (w, st, out)
         else (let (rec, w, st) = recordFor D w end st;
                   (ok, out) = rw_append (dp_out D) rec out
               in if \<not> ok then (w, st\<lparr>writeErrors := writeErrors st + 1\<rparr>, out)
                  else (w\<lparr>w_reportedUntil := end, w_records := Suc (w_records w)\<rparr>,
                        rw_rotateIfNeeded (dp_out D)
                          (st\<lparr>recordsWritten := recordsWritten st + 1\<rparr>, out))))"

text \<open>
  \<open>HandleEvent\<close>. The two readings of the wall clock are arguments: \<open>now\<close> replaces an
  unparseable timestamp, \<open>now2\<close> is the one the skew is measured against.
\<close>

definition eventTime :: "time \<Rightarrow> stateChange \<Rightarrow> time" where
  "eventTime now ev =
     (let ts = parseTime (TString (ev_Timestamp ev)) in if isZeroTime ts then now else ts)"

definition HandleEvent ::
  "'o procDeps \<Rightarrow> time \<Rightarrow> time \<Rightarrow> stateChange \<Rightarrow> 'o processor \<Rightarrow> 'o processor" where
  "HandleEvent D now now2 ev p =
     (let st = pr_stats p
      in if ev_Type ev \<noteq> '''' \<and> ev_Type ev \<noteq> ''vm.state_change''
         then p\<lparr>pr_stats := st\<lparr>eventsWrongTyp := eventsWrongTyp st + 1\<rparr>\<rparr>
         else
     (let ts = eventTime now ev;
          (uuid, oldState, newState) = extractTransition ev
      in if uuid = '''' then p\<lparr>pr_stats := st\<lparr>noUUID := noUUID st + 1\<rparr>\<rparr>
         else if newState = '''' then p\<lparr>pr_stats := st\<lparr>noState := noState st + 1\<rparr>\<rparr>
         else if newState = onState then
           (let (w, created, s) = getOrOpen (pr_windows p) uuid ts
            in if \<not> created then p
               else (let st = st\<lparr>windowsOpened := windowsOpened st + 1\<rparr>;
                         st = (if timeSub now2 ts > maxEventSkew
                               then st\<lparr>staleEvents := staleEvents st + 1\<rparr> else st);
                         (w, st) = resolveWindow D w st
                     in p\<lparr>pr_windows := putWindow s w, pr_stats := st\<rparr>))
         else
           (case getWindow (pr_windows p) uuid of
              None \<Rightarrow> p
            | Some w \<Rightarrow>
                (let (w, st, out) = emitWindow D w ts (st, pr_out p)
                 in p\<lparr>pr_windows := deleteWindow (pr_windows p) uuid, pr_out := out,
                      pr_stats := st\<lparr>windowsClosed := windowsClosed st + 1\<rparr>\<rparr>))))"

text \<open>The loop of one flush: every window that is due is reported up to \<open>now\<close>.\<close>

fun flushLoop ::
  "'o procDeps \<Rightarrow> time \<Rightarrow> duration \<Rightarrow> windowStore \<Rightarrow> stats \<times> 'o \<Rightarrow> windowStore \<times> stats \<times> 'o" where
  "flushLoop D now threshold [] so = ([], so)"
| "flushLoop D now threshold ((u, w) # ws) so =
     (let (w, so) = (if timeSub now (w_reportedUntil w) < threshold then (w, so)
                     else emitWindow D w now so);
          (ws, so) = flushLoop D now threshold ws so
      in ((u, w) # ws, so))"

text \<open>One tick of \<open>periodicFlush\<close>.\<close>

definition periodicFlush :: "'o procDeps \<Rightarrow> time \<Rightarrow> 'o processor \<Rightarrow> 'o processor" where
  "periodicFlush D now p =
     (let (ws, so) = flushLoop D now (flushSkipThreshold (pr_interval p)) (pr_windows p)
                       (pr_stats p, pr_out p);
          (st, out) = rw_cleanupOldRotations (dp_out D) so
      in p\<lparr>pr_windows := ws, pr_out := out, pr_stats := st\<rparr>)"

text \<open>
  The processor as the handler of the event source, at given readings of the clock; and the
  dependencies of a processor that writes to files.
\<close>

definition procHandler :: "'o procDeps \<Rightarrow> time \<Rightarrow> time \<Rightarrow> 'o processor eventHandler" where
  "procHandler D now now2 =
     \<lparr>eh_HandleEvent = HandleEvent D now now2, eh_count = (\<lambda>f p. p\<lparr>pr_stats := f (pr_stats p)\<rparr>)\<rparr>"

definition fileDeps ::
  "(string \<Rightarrow> info option \<times> string) \<Rightarrow> (string \<Rightarrow> string) \<Rightarrow> (outputWriter \<times> usageRecord list) procDeps" where
  "fileDeps res md5 = \<lparr>dp_resolve = res, dp_out = loggedRecordWriter, dp_md5hex = md5\<rparr>"

section \<open>What the records of a window must look like\<close>

text \<open>The record of instance \<open>u\<close> for the span from \<open>a\<close> to \<open>b\<close>.\<close>

definition covers :: "(string \<Rightarrow> string) \<Rightarrow> string \<Rightarrow> time \<Rightarrow> time \<Rightarrow> usageRecord \<Rightarrow> bool" where
  "covers md5 u a b r \<longleftrightarrow>
     u_UUID r = u \<and> u_ID r = windowID md5 u a b \<and>
     u_Start r = formatRFC3339 a \<and> u_End r = formatRFC3339 b \<and> u_Duration r = timeSub b a"

text \<open>The records \<open>rs\<close> tile the span from \<open>a\<close> to \<open>b\<close>: no gap, no overlap, no empty record.\<close>

fun tiles :: "(string \<Rightarrow> string) \<Rightarrow> string \<Rightarrow> time \<Rightarrow> usageRecord list \<Rightarrow> time \<Rightarrow> bool" where
  "tiles md5 u a [] b \<longleftrightarrow> a = b"
| "tiles md5 u a (r # rs) b \<longleftrightarrow> (\<exists>c. a < c \<and> covers md5 u a c r \<and> tiles md5 u c rs b)"

definition billedTo :: "string \<Rightarrow> usageRecord list \<Rightarrow> usageRecord list" where
  "billedTo u rs = filter (\<lambda>r. u_UUID r = u) rs"

text \<open>The last \<open>n\<close> records of a list.\<close>

definition lastN :: "nat \<Rightarrow> 'a list \<Rightarrow> 'a list" where
  "lastN n xs = drop (length xs - n) xs"

text \<open>
  A window agrees with the acknowledged records: the last \<open>w_records\<close> of its instance tile
  the span from when it started running to its watermark.
\<close>

definition windowBilled :: "(string \<Rightarrow> string) \<Rightarrow> usageRecord list \<Rightarrow> window \<Rightarrow> bool" where
  "windowBilled md5 recs w \<longleftrightarrow>
     w_records w \<le> length (billedTo (w_uuid w) recs) \<and>
     tiles md5 (w_uuid w) (w_runningSince w) (lastN (w_records w) (billedTo (w_uuid w) recs))
       (w_reportedUntil w)"

definition ledger_ok :: "(string \<Rightarrow> string) \<Rightarrow> usageRecord list \<Rightarrow> windowStore \<Rightarrow> bool" where
  "ledger_ok md5 recs s \<longleftrightarrow> windowStore_ok s \<and> list_all (\<lambda>(u, w). windowBilled md5 recs w) s"

text \<open>What an emit may do to a window, and what it reports of it.\<close>

definition emitted ::
  "(string \<Rightarrow> string) \<Rightarrow> window \<Rightarrow> time \<Rightarrow> window \<Rightarrow> usageRecord list \<Rightarrow> bool" where
  "emitted md5 w end w' rs \<longleftrightarrow>
     w_uuid w' = w_uuid w \<and> w_runningSince w' = w_runningSince w \<and>
     (rs = [] \<and> w_reportedUntil w' = w_reportedUntil w \<and> w_records w' = w_records w \<or>
      (\<exists>r. rs = [r] \<and> w_reportedUntil w < end \<and> w_reportedUntil w' = end \<and>
         w_records w' = Suc (w_records w) \<and> covers md5 (w_uuid w) (w_reportedUntil w) end r))"

text \<open>The attribution fields of a record, for a resolved and for an unresolved window.\<close>

definition attributedTo :: "info option \<Rightarrow> usageRecord \<Rightarrow> bool" where
  "attributedTo i r \<longleftrightarrow>
     (case i of
        None \<Rightarrow> u_Project r = ''-'' \<and> u_Instance r = ''-'' \<and> u_VcpuMilli r = 0 \<and> u_MemoryBytes r = 0
      | Some a \<Rightarrow> u_Project r = (if i_project a = '''' then ''-'' else i_project a) \<and>
          u_Instance r = i_instance a \<and> u_VcpuMilli r = i_vcpuMilli a \<and> u_MemoryBytes r = i_memoryBytes a)"

section \<open>A concrete processor\<close>

text \<open>One resolved instance on a working disk: the inputs the witnesses evaluate on.\<close>

definition demoUUID :: string where "demoUUID = ''0f8fad5b-d9cb-469f-a165-70867728950e''"

definition demoInfo :: info where
  "demoInfo = \<lparr>i_project = ''p1'', i_instance = ''default/vm'', i_vcpuMilli = 1000, i_memoryBytes = 536870912\<rparr>"

definition demoDeps :: "(outputWriter \<times> usageRecord list) procDeps" where
  "demoDeps = \<lparr>dp_resolve = (\<lambda>u. (Some demoInfo, '''')), dp_out = loggedRecordWriter, dp_md5hex = (\<lambda>s. s)\<rparr>"

definition demoWindow :: window where
  "demoWindow = (freshWindow demoUUID 0)\<lparr>w_reportedUntil := 60 * second, w_records := 1\<rparr>"

definition demoProcessor :: "windowStore \<Rightarrow> (outputWriter \<times> usageRecord list) processor" where
  "demoProcessor ws =
     \<lparr>pr_windows = ws, pr_out = (demoWriter, []), pr_stats = zeroStats, pr_interval = 60 * second\<rparr>"

definition demoStop :: stateChange where
  "demoStop =
     \<lparr>ev_Timestamp = ''2026-01-01T00:00:00Z'', ev_Type = ''vm.state_change'',
      ev_Data = [(''prev'', JStr ''running''), (''new'', JStr ''stopped'')],
      ev_ObjectUUID = demoUUID, ev_Raw = ''{}''\<rparr>"

lemmas demo_defs = demoUUID_def demoInfo_def demoWriter_def demoDeps_def demoWindow_def demoProcessor_def
  demoStop_def

section \<open>Lists of records\<close>

lemma lastN_snoc: "n \<le> length xs \<Longrightarrow> lastN (Suc n) (xs @ [x]) = lastN n xs @ [x]"
  by (simp add: lastN_def)

lemma lastN_0 [simp]: "lastN 0 xs = []"
  by (simp add: lastN_def)

lemma billedTo_append [simp]: "billedTo u (rs @ ts) = billedTo u rs @ billedTo u ts"
  by (simp add: billedTo_def)

lemma billedTo_Nil [simp]: "billedTo u [] = []"
  by (simp add: billedTo_def)

lemma billedTo_single [simp]: "billedTo u [r] = (if u_UUID r = u then [r] else [])"
  by (simp add: billedTo_def)

lemma tiles_snoc:
  "tiles md5 u a rs b \<Longrightarrow> b < c \<Longrightarrow> covers md5 u b c r \<Longrightarrow> tiles md5 u a (rs @ [r]) c"
  by (induction rs arbitrary: a) auto

lemma tiles_le: "tiles md5 u a rs b \<Longrightarrow> a \<le> b"
  by (induction rs arbitrary: a) (auto intro: less_imp_le less_le_trans)

text \<open>The durations of records that tile a span add up to the span.\<close>

lemma tiles_total:
  "tiles md5 u a rs b \<Longrightarrow> b - a \<le> maxInt64 \<Longrightarrow> sum_list (map u_Duration rs) = b - a"
proof (induction rs arbitrary: a)
  case Nil
  then show ?case by simp
next
  case (Cons r rs)
  from Cons.prems(1) obtain c where c: "a < c" "covers md5 u a c r" "tiles md5 u c rs b" by auto
  have "c \<le> b" using c(3) by (rule tiles_le)
  with c(1) Cons.prems(2) have "timeSub c a = c - a" "b - c \<le> maxInt64"
    by (auto simp: timeSub_def)
  with c Cons.IH [of c] show ?case by (simp add: covers_def)
qed

lemma tiles_positive: "tiles md5 u a rs b \<Longrightarrow> r \<in> set rs \<Longrightarrow> 0 < u_Duration r \<and> u_UUID r = u"
  by (induction rs arbitrary: a) (auto simp: covers_def timeSub_pos)

section \<open>resolveWindow and recordFor\<close>

lemma resolveWindow_frame:
  assumes "resolveWindow D w st = (w', st')"
  shows "w_uuid w' = w_uuid w \<and> w_runningSince w' = w_runningSince w \<and>
    w_reportedUntil w' = w_reportedUntil w \<and> w_records w' = w_records w"
  using assms by (auto simp: resolveWindow_def split: if_splits prod.splits option.splits)

lemma resolveWindow_attribution:
  assumes "resolveWindow D w st = (w', st')"
  shows "w_resolved w' = (if w_resolved w \<noteq> None then w_resolved w else fst (dp_resolve D (w_uuid w)))"
  using assms by (auto simp: resolveWindow_def split: if_splits prod.splits option.splits)

lemma resolveWindow_stats:
  assumes "resolveWindow D w st = (w', st')"
  shows "\<exists>n. st' = st\<lparr>unresolved := n\<rparr>"
proof -
  have "st' = st \<or> st' = st\<lparr>unresolved := unresolved st + 1\<rparr>"
    using assms by (auto simp: resolveWindow_def split: if_splits prod.splits option.splits)
  moreover have "st = st\<lparr>unresolved := unresolved st\<rparr>" by simp
  ultimately show ?thesis by metis
qed

lemma recordFor_spec:
  assumes "recordFor D w end st = (rec, w', st')" "w_reportedUntil w < end"
  shows "covers (dp_md5hex D) (w_uuid w) (w_reportedUntil w) end rec \<and>
    resolveWindow D w st = (w', st')"
proof -
  obtain w1 st1 where r: "resolveWindow D w st = (w1, st1)" by fastforce
  have "\<not> timeSub end (w_reportedUntil w) < 0" using timeSub_pos [OF assms(2)] by simp
  then show ?thesis
    using assms(1) r resolveWindow_frame [OF r]
    by (auto simp: recordFor_def covers_def Let_def split: option.splits)
qed

lemma recordFor_stats:
  assumes "recordFor D w end st = (rec, w', st')"
  shows "windowsOpened st' = windowsOpened st \<and> windowsClosed st' = windowsClosed st \<and>
    overbilled st' = overbilled st \<and> writeErrors st' = writeErrors st \<and>
    recordsWritten st' = recordsWritten st \<and> eventsReceived st' = eventsReceived st \<and>
    decodeErrors st' = decodeErrors st"
proof -
  obtain w1 st1 where r: "resolveWindow D w st = (w1, st1)" by fastforce
  with assms have "st' = st1" by (simp add: recordFor_def Let_def split: option.splits)
  then show ?thesis using resolveWindow_stats [OF r] by auto
qed

section \<open>emitWindow against any record writer\<close>

lemma emitted_ok: "emitted md5 w end w' rs \<Longrightarrow> window_ok w \<Longrightarrow> window_ok w'"
  by (auto simp: emitted_def window_ok_def)

lemma emitted_billed:
  assumes "emitted md5 w end w' rs" "windowBilled md5 recs w"
  shows "windowBilled md5 (recs @ rs) w'"
proof -
  from assms(1) consider "rs = []" "w_reportedUntil w' = w_reportedUntil w" "w_records w' = w_records w"
    | r where "rs = [r]" "w_reportedUntil w < end" "w_reportedUntil w' = end"
      "w_records w' = Suc (w_records w)" "covers md5 (w_uuid w) (w_reportedUntil w) end r"
    by (auto simp: emitted_def)
  then show ?thesis
  proof cases
    case 1
    with assms show ?thesis by (simp add: windowBilled_def emitted_def)
  next
    case 2
    then have "u_UUID r = w_uuid w" by (simp add: covers_def)
    with 2 assms show ?thesis
      by (auto simp: windowBilled_def emitted_def lastN_snoc intro: tiles_snoc)
  qed
qed

lemma emitted_uuid: "emitted md5 w end w' rs \<Longrightarrow> r \<in> set rs \<Longrightarrow> u_UUID r = w_uuid w"
  by (auto simp: emitted_def covers_def)

lemma billedTo_none: "(\<And>r. r \<in> set rs \<Longrightarrow> u_UUID r \<noteq> u) \<Longrightarrow> billedTo u rs = []"
  by (induction rs) (auto simp: billedTo_def)

lemma windowBilled_others:
  "(\<And>r. r \<in> set rs \<Longrightarrow> u_UUID r \<noteq> w_uuid w) \<Longrightarrow> windowBilled md5 (recs @ rs) w = windowBilled md5 recs w"
  by (simp add: windowBilled_def billedTo_none)

lemma windowBilled_fresh [simp]: "windowBilled md5 recs (freshWindow u t)"
  by (simp add: windowBilled_def)

lemma windowBilled_cong:
  "w_uuid v = w_uuid w \<Longrightarrow> w_runningSince v = w_runningSince w \<Longrightarrow>
   w_reportedUntil v = w_reportedUntil w \<Longrightarrow> w_records v = w_records w \<Longrightarrow>
   windowBilled md5 recs v = windowBilled md5 recs w"
  by (simp add: windowBilled_def)

lemma ledger_okD:
  "ledger_ok md5 recs s \<Longrightarrow> map_of s u = Some w \<Longrightarrow> w_uuid w = u \<and> window_ok w \<and> windowBilled md5 recs w"
  using windowStore_okD [of s u w] map_of_SomeD [of s u w] by (auto simp: ledger_ok_def list_all_iff)

lemma ledger_okI:
  assumes "gomap_ok s"
    "\<And>u w. map_of s u = Some w \<Longrightarrow> w_uuid w = u \<and> window_ok w \<and> windowBilled md5 recs w"
  shows "ledger_ok md5 recs s"
  using assms by (auto simp: ledger_ok_def list_all_iff gomap_ok_def intro: windowStore_okI)

lemma ledger_ok_new [simp]: "ledger_ok md5 recs newWindowStore"
  by (rule ledger_okI) (auto simp: newWindowStore_def)

lemma ledger_ok_store: "ledger_ok md5 recs s \<Longrightarrow> windowStore_ok s"
  by (simp add: ledger_ok_def)

lemma ledger_ok_put:
  "ledger_ok md5 recs s \<Longrightarrow> window_ok w \<Longrightarrow> windowBilled md5 recs w \<Longrightarrow> ledger_ok md5 recs (putWindow s w)"
  by (rule ledger_okI)
    (auto simp: putWindow_def dest: ledger_okD ledger_ok_store split: if_splits)

text \<open>Closing a window keeps the ledger of the others, whatever was reported for it.\<close>

lemma ledger_ok_close:
  assumes "ledger_ok md5 recs s" "\<And>r. r \<in> set rs \<Longrightarrow> u_UUID r = u"
  shows "ledger_ok md5 (recs @ rs) (deleteWindow s u)"
proof (rule ledger_okI)
  show "gomap_ok (deleteWindow s u)" using assms by (auto simp: deleteWindow_def dest: ledger_ok_store)
  show "w_uuid w = v \<and> window_ok w \<and> windowBilled md5 (recs @ rs) w"
    if "map_of (deleteWindow s u) v = Some w" for v w
  proof -
    from that have "map_of s v = Some w" "v \<noteq> u" by (auto simp: deleteWindow_def split: if_splits)
    with assms show ?thesis using windowBilled_others [of rs w md5 recs] by (auto dest: ledger_okD)
  qed
qed

text \<open>
  What an event does to the windows: nothing, open one, or report and close one.
\<close>

lemma HandleEvent_cases:
  obtains (same) "pr_windows (HandleEvent D now now2 ev p) = pr_windows p"
      "pr_out (HandleEvent D now now2 ev p) = pr_out p"
      "windowsOpened (pr_stats (HandleEvent D now now2 ev p)) = windowsOpened (pr_stats p)"
      "windowsClosed (pr_stats (HandleEvent D now now2 ev p)) = windowsClosed (pr_stats p)"
      "eventsReceived (pr_stats (HandleEvent D now now2 ev p)) = eventsReceived (pr_stats p)"
      "decodeErrors (pr_stats (HandleEvent D now now2 ev p)) = decodeErrors (pr_stats p)"
  | (opened) u t w st where "getWindow (pr_windows p) u = None"
      "resolveWindow D (freshWindow u t) st = (w, pr_stats (HandleEvent D now now2 ev p))"
      "pr_windows (HandleEvent D now now2 ev p) =
         putWindow (AList.update u (freshWindow u t) (pr_windows p)) w"
      "pr_out (HandleEvent D now now2 ev p) = pr_out p"
      "windowsOpened st = windowsOpened (pr_stats p) + 1"
      "windowsClosed st = windowsClosed (pr_stats p)"
      "eventsReceived st = eventsReceived (pr_stats p)" "decodeErrors st = decodeErrors (pr_stats p)"
  | (closed) u t w w' st' where "getWindow (pr_windows p) u = Some w"
      "emitWindow D w t (pr_stats p, pr_out p) = (w', st', pr_out (HandleEvent D now now2 ev p))"
      "pr_windows (HandleEvent D now now2 ev p) = deleteWindow (pr_windows p) u"
      "pr_stats (HandleEvent D now now2 ev p) = st'\<lparr>windowsClosed := windowsClosed st' + 1\<rparr>"
proof -
  let ?q = "HandleEvent D now now2 ev p"
  let ?ts = "eventTime now ev"
  obtain u os ns where x: "extractTransition ev = (u, os, ns)" by (metis prod_cases3)
  show thesis
  proof (cases "(ev_Type ev \<noteq> '''' \<and> ev_Type ev \<noteq> ''vm.state_change'') \<or> u = '''' \<or> ns = ''''")
    case True
    with x show thesis by (intro same) (auto simp: HandleEvent_def Let_def)
  next
    case live: False
    show thesis
    proof (cases "ns = onState")
      case True
      show thesis
      proof (cases "getWindow (pr_windows p) u")
        case None
        define st where "st = (let st = (pr_stats p)\<lparr>windowsOpened := windowsOpened (pr_stats p) + 1\<rparr>
          in if timeSub now2 ?ts > maxEventSkew then st\<lparr>staleEvents := staleEvents st + 1\<rparr> else st)"
        obtain w st2 where r: "resolveWindow D (freshWindow u ?ts) st = (w, st2)" by (metis surj_pair)
        have "?q = p\<lparr>pr_windows := putWindow (AList.update u (freshWindow u ?ts) (pr_windows p)) w, pr_stats := st2\<rparr>"
          using live True x r getOrOpen_absent [OF None, of ?ts]
          by (auto simp: HandleEvent_def st_def Let_def)
        with None r show thesis by (intro opened [of u ?ts st w]) (simp_all add: st_def Let_def)
      next
        case (Some w)
        with live True x show thesis
          by (intro same) (auto simp: HandleEvent_def Let_def getOrOpen_present)
      qed
    next
      case False
      show thesis
      proof (cases "getWindow (pr_windows p) u")
        case None
        with live False x show thesis by (intro same) (auto simp: HandleEvent_def Let_def)
      next
        case (Some w)
        obtain w' st' out' where e: "emitWindow D w ?ts (pr_stats p, pr_out p) = (w', st', out')"
          by (metis prod_cases3)
        have "?q = p\<lparr>pr_windows := deleteWindow (pr_windows p) u, pr_out := out',
                    pr_stats := st'\<lparr>windowsClosed := windowsClosed st' + 1\<rparr>\<rparr>"
          using live False x Some e by (auto simp: HandleEvent_def Let_def)
        with Some e show thesis by (intro closed [of u w ?ts w' st']) simp_all
      qed
    qed
  qed
qed

context record_writer
begin

lemma emitWindow_spec:
  assumes "dp_out D = W" "emitWindow D w end (st, out) = (w', st', out')"
  shows "\<exists>rs. written out' = written out @ rs \<and> emitted (dp_md5hex D) w end w' rs"
proof (cases "end \<le> w_reportedUntil w")
  case True
  with assms have "w' = w" "out' = out" by (auto simp: emitWindow_def Let_def split: if_splits)
  then show ?thesis by (auto simp: emitted_def)
next
  case False
  obtain rec w1 st1 where rf: "recordFor D w end st = (rec, w1, st1)" by (metis prod_cases3)
  obtain ok out1 where ap: "rw_append W rec out = (ok, out1)" by fastforce
  have cov: "covers (dp_md5hex D) (w_uuid w) (w_reportedUntil w) end rec"
    and rw: "resolveWindow D w st = (w1, st1)"
    using recordFor_spec [OF rf] False by auto
  note fr = resolveWindow_frame [OF rw]
  show ?thesis
  proof (cases ok)
    case True
    have "written out' = written out1"
      using assms rf ap False True
        rotate_written [of "st1\<lparr>recordsWritten := recordsWritten st1 + 1\<rparr>" out1]
      by (auto simp: emitWindow_def)
    also have "\<dots> = written out @ [rec]" using ap True append_acked by simp
    moreover have "emitted (dp_md5hex D) w end w' [rec]"
      using assms rf ap False True cov fr
      by (auto simp: emitWindow_def emitted_def split: prod.splits)
    ultimately show ?thesis by metis
  next
    case failed: False
    with assms rf ap False have "w' = w1" "out' = out1" by (auto simp: emitWindow_def)
    with fr ap failed append_refused show ?thesis by (auto simp: emitted_def)
  qed
qed

lemma emitWindow_stats:
  assumes "dp_out D = W" "emitWindow D w end (st, out) = (w', st', out')"
  shows "windowsOpened st' = windowsOpened st \<and> windowsClosed st' = windowsClosed st \<and>
    eventsReceived st' = eventsReceived st \<and> decodeErrors st' = decodeErrors st"
proof (cases "end \<le> w_reportedUntil w")
  case True
  with assms show ?thesis by (auto simp: emitWindow_def Let_def split: if_splits)
next
  case False
  obtain rec w1 st1 where rf: "recordFor D w end st = (rec, w1, st1)" by (metis prod_cases3)
  obtain ok out1 where ap: "rw_append W rec out = (ok, out1)" by fastforce
  let ?st2 = "st1\<lparr>recordsWritten := recordsWritten st1 + 1\<rparr>"
  have "st' = (if ok then fst (rw_rotateIfNeeded W (?st2, out1))
               else st1\<lparr>writeErrors := writeErrors st1 + 1\<rparr>)"
    using assms rf ap False by (auto simp: emitWindow_def split: if_splits)
  then show ?thesis
    using recordFor_stats [OF rf] rotate_stats [of ?st2 out1] by (auto simp: sameBilling_def)
qed

lemma flushLoop_spec:
  assumes "dp_out D = W" "flushLoop D now thr ws so = (ws', so')" "gomap_ok ws"
    and "\<And>u w. (u, w) \<in> set ws \<Longrightarrow> w_uuid w = u \<and> window_ok w \<and> windowBilled (dp_md5hex D) (written (snd so)) w"
  shows "map fst ws' = map fst ws \<and>
    (\<forall>(u, w) \<in> set ws'. w_uuid w = u \<and> window_ok w \<and> windowBilled (dp_md5hex D) (written (snd so')) w) \<and>
    (\<exists>rs. written (snd so') = written (snd so) @ rs \<and> (\<forall>r \<in> set rs. u_UUID r \<in> fst ` set ws))"
  using assms(2-)
proof (induction ws arbitrary: so ws' so')
  case Nil
  then show ?case by auto
next
  case (Cons p ws)
  obtain u w where p: "p = (u, w)" by (cases p)
  let ?md5 = "dp_md5hex D"
  have w: "w_uuid w = u" "window_ok w" "windowBilled ?md5 (written (snd so)) w"
    using Cons.prems(3) [of u w] p by auto
  obtain w1 so1 where e: "(if timeSub now (w_reportedUntil w) < thr then (w, so) else emitWindow D w now so) = (w1, so1)"
    by (metis surj_pair)
  obtain ws1 where f: "flushLoop D now thr ws so1 = (ws1, so')" and ws': "ws' = (u, w1) # ws1"
    using Cons.prems(1) e p by (auto split: prod.splits)
  have "\<exists>rs. written (snd so1) = written (snd so) @ rs \<and> emitted ?md5 w now w1 rs"
    using e emitWindow_spec [OF assms(1), of w now "fst so" "snd so" w1 "fst so1" "snd so1"]
    by (auto simp: emitted_def split: if_splits)
  then obtain rs where rs: "written (snd so1) = written (snd so) @ rs" "emitted ?md5 w now w1 rs" by blast
  have fresh: "u \<notin> fst ` set ws" and gok: "gomap_ok ws" using Cons.prems(2) p by (auto simp: gomap_ok_def)
  have "w_uuid v = k \<and> window_ok v \<and> windowBilled ?md5 (written (snd so1)) v" if "(k, v) \<in> set ws" for k v
  proof -
    have "k \<noteq> u" using that fresh by force
    with that Cons.prems(3) [of k v] show ?thesis
      using windowBilled_others [of rs v ?md5 "written (snd so)"] emitted_uuid [OF rs(2)] rs(1) w(1) by auto
  qed
  note IH = Cons.IH [OF f gok this]
  then obtain ts where ts: "written (snd so') = written (snd so1) @ ts" "\<forall>r \<in> set ts. u_UUID r \<in> fst ` set ws"
    by blast
  have w1: "w_uuid w1 = u" "window_ok w1" "windowBilled ?md5 (written (snd so1)) w1"
    using emitted_ok [OF rs(2)] emitted_billed [OF rs(2) w(3)] rs w by (auto simp: emitted_def)
  then have "windowBilled ?md5 (written (snd so')) w1"
    using windowBilled_others [of ts w1 ?md5 "written (snd so1)"] ts fresh by metis
  with IH w1 ws' p show ?case
    using rs ts emitted_uuid [OF rs(2)] w(1) by auto
qed

lemma periodicFlush_ledger:
  assumes "dp_out D = W" "ledger_ok (dp_md5hex D) (written (pr_out p)) (pr_windows p)"
  shows "ledger_ok (dp_md5hex D) (written (pr_out (periodicFlush D now p))) (pr_windows (periodicFlush D now p))"
    and "map fst (pr_windows (periodicFlush D now p)) = map fst (pr_windows p)"
proof -
  obtain ws so where f: "flushLoop D now (flushSkipThreshold (pr_interval p)) (pr_windows p) (pr_stats p, pr_out p) = (ws, so)"
    by (metis surj_pair)
  have ok: "gomap_ok (pr_windows p)" using assms(2) by (auto dest: ledger_ok_store)
  have spec: "map fst ws = map fst (pr_windows p)"
    "\<forall>(u, w) \<in> set ws. w_uuid w = u \<and> window_ok w \<and> windowBilled (dp_md5hex D) (written (snd so)) w"
    using flushLoop_spec [OF assms(1) f ok] assms(2)
    by (auto simp: ledger_ok_def windowStore_ok_def list_all_iff)
  have pw: "pr_windows (periodicFlush D now p) = ws"
    and po: "written (pr_out (periodicFlush D now p)) = written (snd so)"
    using f assms(1) cleanup_written [of "fst so" "snd so"] by (auto simp: periodicFlush_def split: prod.splits)
  show "map fst (pr_windows (periodicFlush D now p)) = map fst (pr_windows p)" using spec pw by simp
  show "ledger_ok (dp_md5hex D) (written (pr_out (periodicFlush D now p))) (pr_windows (periodicFlush D now p))"
    unfolding pw po
  proof (rule ledger_okI)
    show "gomap_ok ws" using spec(1) ok by (simp add: gomap_ok_def)
  qed (use spec(2) in \<open>auto dest: map_of_SomeD\<close>)
qed

lemma HandleEvent_ledger:
  assumes "dp_out D = W" "ledger_ok (dp_md5hex D) (written (pr_out p)) (pr_windows p)"
  shows "ledger_ok (dp_md5hex D) (written (pr_out (HandleEvent D now now2 ev p))) (pr_windows (HandleEvent D now now2 ev p))"
proof -
  let ?md5 = "dp_md5hex D" and ?p = "HandleEvent D now now2 ev p"
  show ?thesis
  proof (cases rule: HandleEvent_cases [of D now now2 ev p])
    case same
    with assms show ?thesis by simp
  next
    case (opened u t w st)
    have "ledger_ok ?md5 (written (pr_out p)) (putWindow (pr_windows p) (freshWindow u t))"
      using assms(2) by (rule ledger_ok_put) simp_all
    then show ?thesis
      using opened resolveWindow_frame [OF opened(2)] windowBilled_cong [of w "freshWindow u t"]
      by (auto intro!: ledger_ok_put simp: putWindow_def [of _ "freshWindow u t"] window_ok_def)
  next
    case (closed u t w w' st')
    obtain rs where rs: "written (pr_out ?p) = written (pr_out p) @ rs" "emitted ?md5 w t w' rs"
      using emitWindow_spec [OF assms(1) closed(2)] by blast
    have "w_uuid w = u" using ledger_okD [OF assms(2)] closed(1) by (simp add: getWindow_def)
    then show ?thesis
      using ledger_ok_close [OF assms(2)] emitted_uuid [OF rs(2)] closed(3) rs(1) by metis
  qed
qed

end

text \<open>The counters an event moves, and that it leaves those of the source alone.\<close>

context record_writer
begin

lemma HandleEvent_source_counters:
  assumes "dp_out D = W"
  shows "eventsReceived (pr_stats (HandleEvent D now now2 ev p)) = eventsReceived (pr_stats p)"
    and "decodeErrors (pr_stats (HandleEvent D now now2 ev p)) = decodeErrors (pr_stats p)"
proof -
  have "eventsReceived (pr_stats (HandleEvent D now now2 ev p)) = eventsReceived (pr_stats p) \<and>
    decodeErrors (pr_stats (HandleEvent D now now2 ev p)) = decodeErrors (pr_stats p)"
  proof (cases rule: HandleEvent_cases [of D now now2 ev p])
    case (opened u t w st)
    then show ?thesis using resolveWindow_stats [OF opened(2)] by auto
  next
    case (closed u t w w' st')
    then show ?thesis using emitWindow_stats [OF assms closed(2)] by simp
  qed simp
  then show "eventsReceived (pr_stats (HandleEvent D now now2 ev p)) = eventsReceived (pr_stats p)"
    and "decodeErrors (pr_stats (HandleEvent D now now2 ev p)) = decodeErrors (pr_stats p)" by simp_all
qed

lemma HandleEvent_gauge:
  assumes "dp_out D = W" "gomap_ok (pr_windows p)"
  shows "windowsOpened (pr_stats (HandleEvent D now now2 ev p)) - windowsClosed (pr_stats (HandleEvent D now now2 ev p))
      - int (openWindows (HandleEvent D now now2 ev p)) =
    windowsOpened (pr_stats p) - windowsClosed (pr_stats p) - int (openWindows p)"
proof (cases rule: HandleEvent_cases [of D now now2 ev p])
  case (opened u t w st)
  have "w_uuid w = u" using resolveWindow_frame [OF opened(2)] by simp
  then have "lenWindows (pr_windows (HandleEvent D now now2 ev p)) = Suc (lenWindows (pr_windows p))"
    using opened(1,3)
    by (simp add: lenWindows_def putWindow_def getWindow_def length_update_fresh length_update_present)
  then show ?thesis using resolveWindow_stats [OF opened(2)] opened by (auto simp: openWindows_def)
next
  case (closed u t w w' st')
  have "Suc (lenWindows (pr_windows (HandleEvent D now now2 ev p))) = lenWindows (pr_windows p)"
    using closed(1,3) assms(2) by (simp add: lenWindows_def deleteWindow_def getWindow_def length_delete_present)
  then show ?thesis using emitWindow_stats [OF assms(1) closed(2)] closed by (simp add: openWindows_def)
qed (simp add: openWindows_def)

end

interpretation ph: event_handler "procHandler (fileDeps res md5) now now2" pr_stats
  by unfold_locales
    (simp_all add: procHandler_def lrw.HandleEvent_source_counters fileDeps_def)

section \<open>The flush on a working disk\<close>

context reliable_writer
begin

lemma emitWindow_healthy:
  assumes "dp_out D = W" "healthy out" "emitWindow D w end (st, out) = (w', st', out')"
  shows "healthy out' \<and> w_reportedUntil w' = max end (w_reportedUntil w) \<and>
    (w_reportedUntil w < end \<longrightarrow>
      (\<exists>r. written out' = written out @ [r] \<and> covers (dp_md5hex D) (w_uuid w) (w_reportedUntil w) end r \<and>
           r = fst (recordFor D w end st)))"
proof (cases "end \<le> w_reportedUntil w")
  case True
  with assms have "w' = w" "out' = out" by (auto simp: emitWindow_def Let_def split: if_splits)
  with assms True show ?thesis by auto
next
  case False
  obtain rec w1 st1 where rf: "recordFor D w end st = (rec, w1, st1)" by (metis prod_cases3)
  obtain ok out1 where ap: "rw_append W rec out = (ok, out1)" by fastforce
  have ok: "ok" "healthy out1" "written out1 = written out @ [rec]"
    using healthy_append [OF assms(2) ap] append_acked ap by auto
  let ?st2 = "st1\<lparr>recordsWritten := recordsWritten st1 + 1\<rparr>"
  have "out' = snd (rw_rotateIfNeeded W (?st2, out1))" "w_reportedUntil w' = end"
    using assms(1,3) rf ap False ok(1) by (auto simp: emitWindow_def)
  then show ?thesis
    using ok healthy_rotate [OF ok(2), of ?st2] rotate_written [of ?st2 out1] recordFor_spec [OF rf]
      False rf by auto
qed

lemma flushLoop_healthy:
  assumes "dp_out D = W" "0 < thr" "healthy (snd so)" "flushLoop D now thr ws so = (ws', so')"
  shows "healthy (snd so') \<and> (\<forall>(u, w) \<in> set ws'. timeSub now (w_reportedUntil w) < thr)"
  using assms(3,4)
proof (induction ws arbitrary: so ws')
  case Nil
  then show ?case by simp
next
  case (Cons p ws)
  obtain u w where p: "p = (u, w)" by (cases p)
  obtain w1 so1 where e: "(if timeSub now (w_reportedUntil w) < thr then (w, so) else emitWindow D w now so) = (w1, so1)"
    by (metis surj_pair)
  obtain ws1 where f: "flushLoop D now thr ws so1 = (ws1, so')" and ws': "ws' = (u, w1) # ws1"
    using Cons.prems(2) e p by (auto split: prod.splits)
  have "healthy (snd so1) \<and> timeSub now (w_reportedUntil w1) < thr"
  proof (cases "timeSub now (w_reportedUntil w) < thr")
    case True
    with e Cons.prems(1) show ?thesis by simp
  next
    case False
    then have em: "emitWindow D w now (fst so, snd so) = (w1, fst so1, snd so1)" using e by simp
    have "timeSub now (max now (w_reportedUntil w)) \<le> 0" by (auto simp: timeSub_def max_def)
    then show ?thesis using emitWindow_healthy [OF assms(1) Cons.prems(1) em] assms(2) by auto
  qed
  with Cons.IH [OF _ f] ws' show ?case by auto
qed

lemma periodicFlush_healthy:
  assumes "dp_out D = W" "0 < flushSkipThreshold (pr_interval p)" "healthy (pr_out p)"
    and "(u, w) \<in> set (pr_windows (periodicFlush D now p))"
  shows "timeSub now (w_reportedUntil w) < flushSkipThreshold (pr_interval p)"
proof -
  obtain ws so where f: "flushLoop D now (flushSkipThreshold (pr_interval p)) (pr_windows p) (pr_stats p, pr_out p) = (ws, so)"
    by (metis surj_pair)
  have "pr_windows (periodicFlush D now p) = ws" using f by (simp add: periodicFlush_def split: prod.splits)
  then show ?thesis using flushLoop_healthy [OF assms(1,2) _ f] assms(3,4) by auto
qed

end

section \<open>Threshold and attribution\<close>

lemma flushSkipThreshold_eq:
  assumes "0 < interval" "interval \<le> maxInt64"
  shows "flushSkipThreshold interval = interval - min second (interval div 10)"
    and "0 \<le> min second (interval div 10)" "min second (interval div 10) < interval"
proof -
  have q: "quot interval 10 = interval div 10" using assms by (simp add: quot_nonneg)
  have d: "10 * (interval div 10) \<le> interval" "0 \<le> interval div 10" using assms by auto
  show b: "0 \<le> min second (interval div 10)" "min second (interval div 10) < interval"
    using assms d by (auto simp: second_def min_def)
  have "flushSkipThreshold interval = wrap64 (interval - min second (interval div 10))"
    using q by (simp add: flushSkipThreshold_def flushSkipTolerance_def Let_def min_def)
  then show "flushSkipThreshold interval = interval - min second (interval div 10)"
    using assms b wrap64_id [of "interval - min second (interval div 10)"] unfolding int64_def by linarith
qed

lemma flushSkipThreshold_range:
  assumes "0 < interval" "interval \<le> maxInt64"
  shows "0 < flushSkipThreshold interval" "flushSkipThreshold interval \<le> interval"
  using flushSkipThreshold_eq [OF assms] by linarith+

lemma flushLoop_keys: "map fst (fst (flushLoop D now thr ws so)) = map fst ws"
  by (induction D now thr ws so rule: flushLoop.induct) (auto simp: Let_def split: prod.splits)

lemma periodicFlush_keys: "map fst (pr_windows (periodicFlush D now p)) = map fst (pr_windows p)"
  using flushLoop_keys [of D now "flushSkipThreshold (pr_interval p)" "pr_windows p" "(pr_stats p, pr_out p)"]
  by (auto simp: periodicFlush_def Let_def split: prod.splits)

lemma recordFor_attribution:
  "attributedTo (case w_resolved w of None \<Rightarrow> fst (dp_resolve D (w_uuid w)) | Some i \<Rightarrow> Some i)
     (fst (recordFor D w end st))"
proof -
  obtain w1 st1 where r: "resolveWindow D w st = (w1, st1)" by (metis surj_pair)
  show ?thesis
    using resolveWindow_attribution [OF r] r
    by (auto simp: recordFor_def attributedTo_def Let_def split: option.splits)
qed

section \<open>One event\<close>

lemma HandleEvent_closes:
  assumes "dp_out D = loggedRecordWriter" "diskOk (fst (pr_out p))"
    and "ev_Type ev = '''' \<or> ev_Type ev = ''vm.state_change''"
    and "extractTransition ev = (u, old, new)" "u \<noteq> ''''" "new \<noteq> ''''" "new \<noteq> onState"
    and "getWindow (pr_windows p) u = Some w" "w_uuid w = u" "w_reportedUntil w < eventTime now ev"
  shows "let q = HandleEvent D now now2 ev p
    in (\<exists>r. snd (pr_out q) = snd (pr_out p) @ [r] \<and>
          covers (dp_md5hex D) u (w_reportedUntil w) (eventTime now ev) r \<and>
          attributedTo (case w_resolved w of None \<Rightarrow> fst (dp_resolve D u) | Some i \<Rightarrow> Some i) r) \<and>
       getWindow (pr_windows q) v = (if v = u then None else getWindow (pr_windows p) v)"
proof -
  let ?t = "eventTime now ev"
  obtain w' st' out' where e: "emitWindow D w ?t (pr_stats p, pr_out p) = (w', st', out')"
    by (metis prod_cases3)
  have q: "HandleEvent D now now2 ev p = p\<lparr>pr_windows := deleteWindow (pr_windows p) u, pr_out := out',
             pr_stats := st'\<lparr>windowsClosed := windowsClosed st' + 1\<rparr>\<rparr>"
    using assms(3-8) e by (auto simp: HandleEvent_def Let_def)
  obtain r where "snd out' = snd (pr_out p) @ [r]" "covers (dp_md5hex D) u (w_reportedUntil w) ?t r"
      "r = fst (recordFor D w ?t (pr_stats p))"
    using lrw.emitWindow_healthy [OF assms(1) _ e] assms(2,9,10) by auto
  then show ?thesis
    using q recordFor_attribution [of D w ?t "pr_stats p"] assms(9) by (auto simp: Let_def)
qed

lemma HandleEvent_opens:
  assumes "ev_Type ev = '''' \<or> ev_Type ev = ''vm.state_change''"
    and "extractTransition ev = (u, old, onState)" "u \<noteq> ''''" "getWindow (pr_windows p) u = None"
  shows "\<exists>w. getWindow (pr_windows (HandleEvent D now now2 ev p)) u = Some w \<and> w_uuid w = u \<and>
      w_runningSince w = eventTime now ev \<and> w_reportedUntil w = eventTime now ev \<and>
      w_records w = 0 \<and> w_resolved w = fst (dp_resolve D u)"
    and "v \<noteq> u \<Longrightarrow> getWindow (pr_windows (HandleEvent D now now2 ev p)) v = getWindow (pr_windows p) v"
    and "pr_out (HandleEvent D now now2 ev p) = pr_out p"
proof -
  let ?t = "eventTime now ev"
  define st where "st = (let st = (pr_stats p)\<lparr>windowsOpened := windowsOpened (pr_stats p) + 1\<rparr>
    in if timeSub now2 ?t > maxEventSkew then st\<lparr>staleEvents := staleEvents st + 1\<rparr> else st)"
  obtain w st2 where r: "resolveWindow D (freshWindow u ?t) st = (w, st2)" by (metis surj_pair)
  have on: "onState \<noteq> ''''" by (simp add: onState_def)
  have q: "HandleEvent D now now2 ev p =
      p\<lparr>pr_windows := putWindow (AList.update u (freshWindow u ?t) (pr_windows p)) w, pr_stats := st2\<rparr>"
    using assms(1-3) on r getOrOpen_absent [OF assms(4), of ?t]
    by (auto simp: HandleEvent_def st_def Let_def)
  note fr = resolveWindow_frame [OF r] resolveWindow_attribution [OF r]
  show "\<exists>w. getWindow (pr_windows (HandleEvent D now now2 ev p)) u = Some w \<and> w_uuid w = u \<and>
      w_runningSince w = ?t \<and> w_reportedUntil w = ?t \<and> w_records w = 0 \<and> w_resolved w = fst (dp_resolve D u)"
    using q fr by (simp add: getWindow_def putWindow_def)
  show "v \<noteq> u \<Longrightarrow> getWindow (pr_windows (HandleEvent D now now2 ev p)) v = getWindow (pr_windows p) v"
    using q fr by (simp add: getWindow_def putWindow_def)
  show "pr_out (HandleEvent D now now2 ev p) = pr_out p" using q by simp
qed

section \<open>Properties\<close>

text \<open>
  The tolerance of the flush never makes the threshold meaningless: for every positive
  interval the threshold is positive, at most the interval, and short of it by at most one
  second and at most a tenth.
\<close>

theorem flushSkipThreshold_bounds:
  assumes "0 < interval" "interval \<le> maxInt64"
  shows "0 < flushSkipThreshold interval \<and> flushSkipThreshold interval \<le> interval \<and>
    interval - flushSkipThreshold interval = min second (interval div 10)"
  using flushSkipThreshold_eq [OF assms] by linarith

theorem flushSkipThreshold_bounds_witness:
  "0 < flushSkipThreshold (60 * second) \<and> flushSkipThreshold (60 * second) \<le> 60 * second \<and>
    60 * second - flushSkipThreshold (60 * second) = min second (60 * second div 10)"
  using flushSkipThreshold_bounds [of "60 * second"] by (simp add: second_def)

text \<open>
  C19. After one flush on a working disk no open window is behind by the threshold or more:
  whatever was unreported before, every window is now billed up to less than one threshold
  before the time of the flush.
\<close>

theorem periodicFlush_catches_up:
  assumes "dp_out D = loggedRecordWriter" "diskOk (fst (pr_out p))"
    and "0 < pr_interval p" "pr_interval p \<le> maxInt64"
    and "getWindow (pr_windows (periodicFlush D now p)) u = Some w"
  shows "now - w_reportedUntil w < flushSkipThreshold (pr_interval p)"
proof -
  note thr = flushSkipThreshold_range [OF assms(3,4)]
  have "(u, w) \<in> set (pr_windows (periodicFlush D now p))"
    using assms(5) by (auto simp: getWindow_def dest: map_of_SomeD)
  from lrw.periodicFlush_healthy [OF assms(1) thr(1) assms(2) this] thr assms(4) show ?thesis
    by (simp add: timeSub_less_iff)
qed

text \<open>
  C12. A tenant is billed for exactly the time between two transitions: an event that takes an
  open window out of \<open>running\<close> at a time after its watermark writes one record, from the
  watermark to the event, with the attribution of the window, and removes the window; the
  windows of other instances stay.
\<close>

theorem HandleEvent_close:
  assumes "dp_out D = loggedRecordWriter" "diskOk (fst (pr_out p))"
    and "ev_Type ev = '''' \<or> ev_Type ev = ''vm.state_change''"
    and "extractTransition ev = (u, old, new)" "u \<noteq> ''''" "new \<noteq> ''''" "new \<noteq> onState"
    and "getWindow (pr_windows p) u = Some w" "w_uuid w = u" "w_reportedUntil w < eventTime now ev"
  shows "let q = HandleEvent D now now2 ev p
    in (\<exists>r. snd (pr_out q) = snd (pr_out p) @ [r] \<and>
          covers (dp_md5hex D) u (w_reportedUntil w) (eventTime now ev) r \<and>
          attributedTo (case w_resolved w of None \<Rightarrow> fst (dp_resolve D u) | Some i \<Rightarrow> Some i) r) \<and>
       getWindow (pr_windows q) v = (if v = u then None else getWindow (pr_windows p) v)"
  using assms by (rule HandleEvent_closes)

theorem HandleEvent_close_witness:
  "let q = HandleEvent demoDeps 0 0 demoStop (demoProcessor [(demoUUID, demoWindow)])
   in (\<exists>r. snd (pr_out q) = [r] \<and>
          covers (dp_md5hex demoDeps) demoUUID (60 * second) (1767225600 * second) r \<and>
          attributedTo (Some demoInfo) r) \<and> getWindow (pr_windows q) demoUUID = None"
proof -
  have x: "extractTransition demoStop = (demoUUID, ''running'', ''stopped'')"
    and t: "eventTime 0 demoStop = 1767225600 * second" by code_simp+
  show ?thesis
    using HandleEvent_close [of demoDeps "demoProcessor [(demoUUID, demoWindow)]" demoStop demoUUID
        "''running''" "''stopped''" demoWindow 0 0 demoUUID] x t
    by (simp add: demo_defs onState_def diskOk_def getWindow_def Let_def second_def)
qed

theorem periodicFlush_catches_up_witness:
  "\<exists>w. getWindow (pr_windows (periodicFlush demoDeps (600 * second) (demoProcessor [(demoUUID, demoWindow)]))) demoUUID = Some w \<and>
     600 * second - w_reportedUntil w < flushSkipThreshold (60 * second)"
proof -
  let ?p = "demoProcessor [(demoUUID, demoWindow)]"
  have "getWindow (pr_windows (periodicFlush demoDeps (600 * second) ?p)) demoUUID \<noteq> None"
    using periodicFlush_keys [of demoDeps "600 * second" ?p]
    by (simp add: getWindow_def map_of_eq_None_iff flip: set_map) (simp add: demoProcessor_def)
  then obtain w where w: "getWindow (pr_windows (periodicFlush demoDeps (600 * second) ?p)) demoUUID = Some w" by blast
  have "pr_interval ?p = 60 * second" by (simp add: demo_defs)
  with w periodicFlush_catches_up [OF _ _ _ _ w] show ?thesis
    by (simp add: demo_defs diskOk_def second_def)
qed

end
