(* ===== verification/Service.thy ===== *)
theory Service
  imports Processor Namespace_Index
begin

text \<open>
  src/internal/stateprojector/watch.go and service.go: the handlers of the two informers, the
  wiring of the components, and the goroutines of \<open>Service.Run\<close> as a step relation: lines of
  the events file, ticks of the flush, and informer notifications interleave in every order
  the locks allow.
\<close>

section \<open>The informers\<close>

text \<open>
  What an informer passes to a handler: a Pod or Namespace, a tombstone
  (\<open>DeletedFinalStateUnknown\<close>) around anything, or something else.
\<close>

datatype watchObj =
  WPod pod | WNamespace namespaceObj | WDeletedFinalStateUnknown watchObj | WOther

definition toPod :: "watchObj \<Rightarrow> pod option" where
  "toPod obj =
     (case obj of
        WPod t \<Rightarrow> Some t
      | WDeletedFinalStateUnknown inner \<Rightarrow> (case inner of WPod p \<Rightarrow> Some p | _ \<Rightarrow> None)
      | _ \<Rightarrow> None)"

definition toNamespace :: "watchObj \<Rightarrow> namespaceObj option" where
  "toNamespace obj =
     (case obj of
        WNamespace t \<Rightarrow> Some t
      | WDeletedFinalStateUnknown inner \<Rightarrow> (case inner of WNamespace n \<Rightarrow> Some n | _ \<Rightarrow> None)
      | _ \<Rightarrow> None)"

section \<open>The service\<close>

record config =
  cfg_EventsPath :: string
  cfg_OutputPath :: string
  cfg_FlushInterval :: duration
  cfg_StatsInterval :: duration
  cfg_KubeconfigPath :: string
  cfg_Debug :: bool
  cfg_RotateSizeBytes :: int
  cfg_RotateMaxAge :: duration

text \<open>
  The running service. \<open>sv_flushing\<close> is the flush in progress, which holds the windows lock:
  its time and the uuids it has still to visit.
\<close>

record projector =
  sv_namespaces :: namespaceIndex
  sv_pods :: podIndex
  sv_proc :: "(outputWriter \<times> usageRecord list) processor"
  sv_flushing :: "(time \<times> string list) option"
  sv_source :: fileSource

text \<open>
  \<open>New\<close>: the two client constructors may fail; otherwise everything starts empty, over the
  files already on disk. \<open>disk\<close> carries those files and the scripts of the environment.
\<close>

definition newOutputWriter :: "outputWriter \<Rightarrow> string \<Rightarrow> int \<Rightarrow> duration \<Rightarrow> outputWriter" where
  "newOutputWriter disk path rotateSizeBytes rotateMaxAge =
     disk\<lparr>ow_path := path, ow_rotateSizeBytes := rotateSizeBytes, ow_rotateMaxAge := rotateMaxAge\<rparr>"

definition newService ::
  "bool \<Rightarrow> bool \<Rightarrow> config \<Rightarrow> outputWriter \<times> usageRecord list \<Rightarrow> string + projector" where
  "newService restConfigOk clientOk cfg disk =
     (if \<not> restConfigOk then Inl ''k8s config''
      else if \<not> clientOk then Inl ''k8s client''
      else (let st = zeroStats;
                namespaces = newNamespaceIndex;
                pods = newPodIndex;
                out = (newOutputWriter (fst disk) (cfg_OutputPath cfg) (cfg_RotateSizeBytes cfg)
                         (cfg_RotateMaxAge cfg), snd disk);
                proc = newProcessor out st (cfg_FlushInterval cfg);
                source = newFileSource (cfg_EventsPath cfg)
            in Inr \<lparr>sv_namespaces = namespaces, sv_pods = pods, sv_proc = proc, sv_flushing = None, sv_source = source\<rparr>))"

text \<open>
  Which client configuration is used: the kubeconfig when one is given, and otherwise that of the
  cluster the projector runs in. The two loaders of client-go are arguments.
\<close>

definition k8sClientConfig :: "(string \<Rightarrow> 'c option) \<Rightarrow> 'c option \<Rightarrow> string \<Rightarrow> 'c option" where
  "k8sClientConfig buildConfigFromFlags inClusterConfig kubeconfig =
     (if kubeconfig \<noteq> '''' then buildConfigFromFlags kubeconfig else inClusterConfig)"

definition New ::
  "(string \<Rightarrow> 'c option) \<Rightarrow> 'c option \<Rightarrow> ('c \<Rightarrow> bool) \<Rightarrow> config \<Rightarrow> outputWriter \<times> usageRecord list \<Rightarrow> string + projector" where
  "New buildConfigFromFlags inClusterConfig newForConfigOk cfg disk =
     (case k8sClientConfig buildConfigFromFlags inClusterConfig (cfg_KubeconfigPath cfg) of
        None \<Rightarrow> newService False False cfg disk
      | Some c \<Rightarrow> newService True (newForConfigOk c) cfg disk)"

lemma New_kubeconfig_wins:
  "cfg_KubeconfigPath cfg \<noteq> '''' \<Longrightarrow> New b inCluster ok cfg disk = New b None ok cfg disk"
  by (simp add: New_def k8sClientConfig_def)

definition svDeps :: "(string \<Rightarrow> string) \<Rightarrow> projector \<Rightarrow> (outputWriter \<times> usageRecord list) procDeps" where
  "svDeps md5 s = fileDeps (resolvePod (sv_pods s)) md5"

text \<open>The handlers of \<open>watchCluster\<close>. The pod index bumps counters of the shared set.\<close>

definition podAdded :: "watchObj \<Rightarrow> projector \<Rightarrow> projector" where
  "podAdded obj s =
     (let (st, pods) = upsertPod (project (sv_namespaces s)) (toPod obj) (pr_stats (sv_proc s), sv_pods s)
      in s\<lparr>sv_pods := pods, sv_proc := (sv_proc s)\<lparr>pr_stats := st\<rparr>\<rparr>)"

definition podDeleted :: "watchObj \<Rightarrow> projector \<Rightarrow> projector" where
  "podDeleted obj s = s\<lparr>sv_pods := deletePod (toPod obj) (sv_pods s)\<rparr>"

definition namespaceAdded :: "watchObj \<Rightarrow> projector \<Rightarrow> projector" where
  "namespaceAdded obj s = s\<lparr>sv_namespaces := upsertNamespace (sv_namespaces s) (toNamespace obj)\<rparr>"

definition namespaceDeleted :: "watchObj \<Rightarrow> projector \<Rightarrow> projector" where
  "namespaceDeleted obj s = s\<lparr>sv_namespaces := deleteNamespace (sv_namespaces s) (toNamespace obj)\<rparr>"

definition watchError :: "projector \<Rightarrow> projector" where
  "watchError s =
     s\<lparr>sv_proc := (sv_proc s)\<lparr>pr_stats := (pr_stats (sv_proc s))\<lparr>watchErrors := watchErrors (pr_stats (sv_proc s)) + 1\<rparr>\<rparr>\<rparr>"

text \<open>
  The start of \<open>watchCluster\<close>: the calls it makes on the two informers in order, given which of them
  succeed. An error handler that cannot be set is only logged; a handler that cannot be added ends
  the process.
\<close>

datatype informer = PodInformer | NamespaceInformer

datatype watchCall = SetWatchErrorHandler informer | AddEventHandler informer | StartFactory | Fatal

definition watchResync :: duration where "watchResync = 30 * second"

definition watchCluster :: "(watchCall \<Rightarrow> bool) \<Rightarrow> watchCall list" where
  "watchCluster ok =
     [SetWatchErrorHandler PodInformer, SetWatchErrorHandler NamespaceInformer, AddEventHandler PodInformer] @
     (if \<not> ok (AddEventHandler PodInformer) then [Fatal]
      else [AddEventHandler NamespaceInformer] @
        (if \<not> ok (AddEventHandler NamespaceInformer) then [Fatal] else [StartFactory]))"

text \<open>No notification is missed: the informers start only once both indexes listen, or not at all.\<close>

lemma watchCluster_listens_first:
  "watchCluster ok = xs @ StartFactory # ys \<Longrightarrow>
   AddEventHandler i \<in> set xs \<and> ok (AddEventHandler i) \<and> ys = [] \<and> Fatal \<notin> set (watchCluster ok)"
  by (cases i) (auto simp: watchCluster_def Cons_eq_append_conv split: if_splits)

lemma watchCluster_ends: "last (watchCluster ok) = StartFactory \<longleftrightarrow> ok (AddEventHandler PodInformer) \<and> ok (AddEventHandler NamespaceInformer)"
  by (simp add: watchCluster_def)

text \<open>One line of the events file.\<close>

definition lineRead :: "(string \<Rightarrow> string) \<Rightarrow> decoder \<Rightarrow> time \<Rightarrow> time \<Rightarrow> string \<Rightarrow> projector \<Rightarrow> projector" where
  "lineRead md5 U now now2 line s =
     s\<lparr>sv_proc := decodeAndHandle U (procHandler (svDeps md5 s) now now2) line (sv_proc s)\<rparr>"

text \<open>
  The body of the flush loop for one window. Between two of them the indexes may change, since
  the informers take other locks.
\<close>

definition flushOne ::
  "'o procDeps \<Rightarrow> time \<Rightarrow> string \<Rightarrow> 'o processor \<Rightarrow> 'o processor" where
  "flushOne D now u p =
     (case getWindow (pr_windows p) u of
        None \<Rightarrow> p
      | Some w \<Rightarrow>
          if timeSub now (w_reportedUntil w) < flushSkipThreshold (pr_interval p) then p
          else (let (w, st, out) = emitWindow D w now (pr_stats p, pr_out p)
                in p\<lparr>pr_windows := putWindow (pr_windows p) w, pr_stats := st, pr_out := out\<rparr>))"

definition cleanup :: "projector \<Rightarrow> projector" where
  "cleanup s =
     (let (st, out) = rw_cleanupOldRotations loggedRecordWriter (pr_stats (sv_proc s), pr_out (sv_proc s))
      in s\<lparr>sv_proc := (sv_proc s)\<lparr>pr_stats := st, pr_out := out\<rparr>\<rparr>)"

text \<open>
  The steps of the goroutines. A flush takes the lock for its whole loop, so no line is
  handled meanwhile (what a dropped line does before the lock is to bump counters that no
  flush reads); it visits the windows in any order, as Go ranges over maps. Informer
  notifications come at any time. A crash loses the memory and keeps the files.
\<close>

inductive step :: "(string \<Rightarrow> string) \<Rightarrow> decoder \<Rightarrow> config \<Rightarrow> projector \<Rightarrow> projector \<Rightarrow> bool"
  for md5 U cfg where
  line: "sv_flushing s = None \<Longrightarrow> step md5 U cfg s (lineRead md5 U now now2 l s)"
| flush_start:
    "sv_flushing s = None \<Longrightarrow> distinct us \<Longrightarrow> set us = fst ` set (pr_windows (sv_proc s)) \<Longrightarrow>
     step md5 U cfg s (s\<lparr>sv_flushing := Some (now, us)\<rparr>)"
| flush_window:
    "sv_flushing s = Some (now, u # us) \<Longrightarrow>
     step md5 U cfg s (s\<lparr>sv_proc := flushOne (svDeps md5 s) now u (sv_proc s), sv_flushing := Some (now, us)\<rparr>)"
| flush_end: "sv_flushing s = Some (now, []) \<Longrightarrow> step md5 U cfg s (s\<lparr>sv_flushing := None\<rparr>)"
| cleanup: "step md5 U cfg s (cleanup s)"
| pod_added: "step md5 U cfg s (podAdded obj s)"
| pod_deleted: "step md5 U cfg s (podDeleted obj s)"
| namespace_added: "step md5 U cfg s (namespaceAdded obj s)"
| namespace_deleted: "step md5 U cfg s (namespaceDeleted obj s)"
| watch_error: "step md5 U cfg s (watchError s)"
| restart: "newService True True cfg (pr_out (sv_proc s)) = Inr s' \<Longrightarrow> step md5 U cfg s s'"

inductive reachable :: "(string \<Rightarrow> string) \<Rightarrow> decoder \<Rightarrow> config \<Rightarrow> projector \<Rightarrow> bool" for md5 U cfg where
  boot: "newService True True cfg (disk, []) = Inr s \<Longrightarrow> reachable md5 U cfg s"
| move: "reachable md5 U cfg s \<Longrightarrow> step md5 U cfg s s' \<Longrightarrow> reachable md5 U cfg s'"

section \<open>The invariant\<close>

text \<open>
  The ledger agrees with the windows, the gauge of open windows is the difference of the two
  counters, and every acknowledged record bills a span of positive length.
\<close>

definition records_ok :: "(string \<Rightarrow> string) \<Rightarrow> usageRecord list \<Rightarrow> bool" where
  "records_ok md5 rs \<longleftrightarrow> (\<forall>r \<in> set rs. \<exists>a b. a < b \<and> covers md5 (u_UUID r) a b r)"

definition proc_ok :: "(string \<Rightarrow> string) \<Rightarrow> (outputWriter \<times> usageRecord list) processor \<Rightarrow> bool" where
  "proc_ok md5 p \<longleftrightarrow>
     ledger_ok md5 (snd (pr_out p)) (pr_windows p) \<and>
     windowsOpened (pr_stats p) - windowsClosed (pr_stats p) = int (openWindows p) \<and>
     records_ok md5 (snd (pr_out p))"

section \<open>Every step keeps the invariant\<close>

lemma records_ok_Nil [simp]: "records_ok md5 []"
  by (simp add: records_ok_def)

lemma records_ok_append [simp]: "records_ok md5 (rs @ ts) \<longleftrightarrow> records_ok md5 rs \<and> records_ok md5 ts"
  by (auto simp: records_ok_def)

lemma emitted_records: "emitted md5 w end w' rs \<Longrightarrow> records_ok md5 rs"
  by (auto simp: emitted_def records_ok_def) (metis covers_def)

lemma svDeps_simps [simp]: "dp_out (svDeps md5 s) = loggedRecordWriter" "dp_md5hex (svDeps md5 s) = md5"
  by (simp_all add: svDeps_def fileDeps_def)

lemma proc_ok_stats:
  "proc_ok md5 p \<Longrightarrow> windowsOpened st = windowsOpened (pr_stats p) \<Longrightarrow> windowsClosed st = windowsClosed (pr_stats p) \<Longrightarrow>
   proc_ok md5 (p\<lparr>pr_stats := st\<rparr>)"
  by (simp add: proc_ok_def openWindows_def)

lemma HandleEvent_records:
  assumes "dp_out D = loggedRecordWriter" "records_ok (dp_md5hex D) (snd (pr_out p))"
  shows "records_ok (dp_md5hex D) (snd (pr_out (HandleEvent D now now2 ev p)))"
proof (cases rule: HandleEvent_cases [of D now now2 ev p])
  case (closed u t w w' st')
  then show ?thesis
    using lrw.emitWindow_spec [OF assms(1) closed(2)] assms(2) by (auto dest: emitted_records)
qed (use assms in simp_all)

lemma HandleEvent_proc_ok:
  assumes "dp_out D = loggedRecordWriter" "dp_md5hex D = md5" "proc_ok md5 p"
  shows "proc_ok md5 (HandleEvent D now now2 ev p)"
proof -
  have l: "ledger_ok (dp_md5hex D) (snd (pr_out p)) (pr_windows p)" and g: "gomap_ok (pr_windows p)"
    using assms(2,3) by (auto simp: proc_ok_def dest: ledger_ok_store)
  show ?thesis
    using lrw.HandleEvent_ledger [OF assms(1) l, of now now2 ev] lrw.HandleEvent_gauge [OF assms(1) g, of now now2 ev]
      HandleEvent_records [OF assms(1), of p now now2 ev] assms(2,3)
    by (simp add: proc_ok_def)
qed

lemma decodeAndHandle_proc_ok:
  assumes "dp_out D = loggedRecordWriter" "dp_md5hex D = md5" "proc_ok md5 p"
  shows "proc_ok md5 (decodeAndHandle U (procHandler D now now2) l p)"
proof -
  let ?p = "p\<lparr>pr_stats := (pr_stats p)\<lparr>eventsReceived := eventsReceived (pr_stats p) + 1\<rparr>\<rparr>"
  have "proc_ok md5 ?p" by (rule proc_ok_stats [OF assms(3)]) simp_all
  from HandleEvent_proc_ok [OF assms(1,2) this] show ?thesis
    using proc_ok_stats [OF assms(3)]
    by (auto simp: decodeAndHandle_def procHandler_def Let_def split: option.splits)
qed

lemma ledger_ok_more:
  assumes "ledger_ok md5 recs s" "map_of s u = Some w" "emitted md5 w end w' rs"
  shows "ledger_ok md5 (recs @ rs) (putWindow s w')"
proof (rule ledger_okI)
  have u: "w_uuid w' = u" "w_uuid w = u" "window_ok w" "windowBilled md5 recs w"
    using ledger_okD [OF assms(1,2)] assms(3) by (auto simp: emitted_def)
  show "gomap_ok (putWindow s w')" using assms(1) by (auto simp: putWindow_def dest: ledger_ok_store)
  show "w_uuid v = k \<and> window_ok v \<and> windowBilled md5 (recs @ rs) v"
    if "map_of (putWindow s w') k = Some v" for k v
  proof (cases "k = u")
    case True
    then have "v = w'" using that u by (simp add: putWindow_def)
    then show ?thesis using True u emitted_ok [OF assms(3)] emitted_billed [OF assms(3)] by simp
  next
    case False
    then have k: "map_of s k = Some v" using that u by (simp add: putWindow_def)
    have "u_UUID r \<noteq> w_uuid v" if "r \<in> set rs" for r
      using emitted_uuid [OF assms(3) that] ledger_okD [OF assms(1) k] False u by simp
    then show ?thesis using ledger_okD [OF assms(1) k] windowBilled_others [of rs v md5 recs] by simp
  qed
qed

lemma flushOne_proc_ok:
  assumes "dp_out D = loggedRecordWriter" "dp_md5hex D = md5" "proc_ok md5 p"
  shows "proc_ok md5 (flushOne D now u p)"
proof (cases "flushOne D now u p = p")
  case True
  with assms show ?thesis by simp
next
  case False
  then obtain w where w: "getWindow (pr_windows p) u = Some w"
    by (auto simp: flushOne_def split: option.splits)
  obtain w' st' out' where e: "emitWindow D w now (pr_stats p, pr_out p) = (w', st', out')"
    by (metis prod_cases3)
  have q: "flushOne D now u p = p\<lparr>pr_windows := putWindow (pr_windows p) w', pr_stats := st', pr_out := out'\<rparr>"
    using False w e by (auto simp: flushOne_def split: if_splits)
  obtain rs where rs: "snd out' = snd (pr_out p) @ rs" "emitted md5 w now w' rs"
    using lrw.emitWindow_spec [OF assms(1) e] assms(2) by auto
  have l: "ledger_ok md5 (snd (pr_out p)) (pr_windows p)" using assms(3) by (simp add: proc_ok_def)
  have m: "map_of (pr_windows p) u = Some w" using w by (simp add: getWindow_def)
  have "w_uuid w' = u" using rs(2) ledger_okD [OF l m] by (simp add: emitted_def)
  then have "length (putWindow (pr_windows p) w') = length (pr_windows p)"
    using m by (simp add: putWindow_def length_update_present)
  then show ?thesis
    using ledger_ok_more [OF l m rs(2)] lrw.emitWindow_stats [OF assms(1) e] assms(3) rs emitted_records [OF rs(2)]
    by (simp add: proc_ok_def q openWindows_def lenWindows_def)
qed

lemma newService_proc_ok:
  "newService a b cfg disk = Inr s \<Longrightarrow> records_ok md5 (snd disk) \<Longrightarrow> proc_ok md5 (sv_proc s)"
  by (auto simp: newService_def newProcessor_def proc_ok_def openWindows_def lenWindows_def newWindowStore_def
      zeroStats_def Let_def ledger_ok_new [unfolded newWindowStore_def] split: if_splits)

lemma upsertPod_counters:
  "windowsOpened (fst (upsertPod rp o1 (st, pods))) = windowsOpened st \<and>
   windowsClosed (fst (upsertPod rp o1 (st, pods))) = windowsClosed st"
  by (auto simp: upsertPod_def Let_def split: option.splits prod.splits)

lemma step_proc_ok: "step md5 U cfg s s' \<Longrightarrow> proc_ok md5 (sv_proc s) \<Longrightarrow> proc_ok md5 (sv_proc s')"
proof (induction rule: step.induct)
  case (line s now now2 l)
  then show ?case by (simp add: lineRead_def decodeAndHandle_proc_ok)
next
  case (flush_window s now u us)
  then show ?case by (simp add: flushOne_proc_ok)
next
  case (cleanup s)
  let ?c = "rw_cleanupOldRotations loggedRecordWriter (pr_stats (sv_proc s), pr_out (sv_proc s))"
  have "sameBilling (pr_stats (sv_proc s)) (fst ?c)" "snd (snd ?c) = snd (pr_out (sv_proc s))"
    using lrw.cleanup_stats lrw.cleanup_written by blast+
  with cleanup show ?case
    by (auto simp: cleanup_def proc_ok_def sameBilling_def openWindows_def split: prod.splits)
next
  case (pod_added s obj)
  then show ?case
    using upsertPod_counters [of "project (sv_namespaces s)" "toPod obj" "pr_stats (sv_proc s)" "sv_pods s"]
    by (auto simp: podAdded_def intro!: proc_ok_stats split: prod.splits)
next
  case (watch_error s)
  then show ?case by (auto simp: watchError_def intro!: proc_ok_stats)
next
  case (restart s s')
  then show ?case by (auto simp: proc_ok_def [of md5 "sv_proc s"] intro!: newService_proc_ok)
qed (simp_all add: podDeleted_def namespaceAdded_def namespaceDeleted_def)

lemma reachable_proc_ok: "reachable md5 U cfg s \<Longrightarrow> proc_ok md5 (sv_proc s)"
  by (induction rule: reachable.induct) (auto intro: step_proc_ok newService_proc_ok)

section \<open>The flush as steps\<close>






section \<open>Properties\<close>

text \<open>
  C1. Billing conserves time. In every reachable state of the service (lines, flushes, informer
  notifications and crashes interleaved in any order, any disk failures) the acknowledged
  records of an open window tile the span from when the instance entered \<open>running\<close> to the
  window's watermark: consecutive, without gap or overlap, none of them empty.
\<close>

theorem service_ledger:
  assumes "reachable md5 U cfg s" "getWindow (pr_windows (sv_proc s)) u = Some w"
  shows "w_uuid w = u \<and> w_records w \<le> length (billedTo u (snd (pr_out (sv_proc s)))) \<and>
    tiles md5 u (w_runningSince w) (lastN (w_records w) (billedTo u (snd (pr_out (sv_proc s))))) (w_reportedUntil w)"
  using ledger_okD [of md5 "snd (pr_out (sv_proc s))" "pr_windows (sv_proc s)" u w] reachable_proc_ok [OF assms(1)] assms(2)
  by (auto simp: proc_ok_def getWindow_def windowBilled_def)


text \<open>
  C18. No empty or negative record is ever written: in every reachable state each acknowledged
  record bills a span of positive length, and its id, start, end and duration are those of the
  same span.
\<close>

theorem service_records_positive:
  assumes "reachable md5 U cfg s" "r \<in> set (snd (pr_out (sv_proc s)))"
  shows "0 < u_Duration r \<and> (\<exists>a b. a < b \<and> covers md5 (u_UUID r) a b r)"
proof -
  obtain a b where "a < b" "covers md5 (u_UUID r) a b r"
    using reachable_proc_ok [OF assms(1)] assms(2) by (auto simp: proc_ok_def records_ok_def)
  then show ?thesis using timeSub_pos [of a b] by (auto simp: covers_def)
qed

text \<open>
  The heartbeat's gauges agree: in every reachable state the windows opened less the windows
  closed are the open windows.
\<close>

theorem service_gauge:
  assumes "reachable md5 U cfg s"
  shows "windowsOpened (pr_stats (sv_proc s)) - windowsClosed (pr_stats (sv_proc s)) = int (openWindows (sv_proc s))"
  using reachable_proc_ok [OF assms] by (simp add: proc_ok_def)


text \<open>
  C39. A restart forgets what is running: the new process starts without windows, so the stop of
  an instance that was running across the restart writes no record at all. The time between
  its last watermark and the stop is never billed (the events file is read on from the
  checkpoint, past the event that opened the window).
\<close>

theorem restart_forgets_windows:
  assumes "newService True True cfg (pr_out (sv_proc s)) = Inr s'"
    and "extractTransition ev = (u, old, new)" "new \<noteq> onState"
  shows "openWindows (sv_proc s') = 0 \<and>
    snd (pr_out (HandleEvent (svDeps md5 s') now now2 ev (sv_proc s'))) = snd (pr_out (sv_proc s)) \<and>
    snd (pr_out (flushOne (svDeps md5 s') now u (sv_proc s'))) = snd (pr_out (sv_proc s))"
proof -
  have w: "pr_windows (sv_proc s') = []" and out: "snd (pr_out (sv_proc s')) = snd (pr_out (sv_proc s))"
    using assms(1) by (auto simp: newService_def newProcessor_def newWindowStore_def Let_def)
  have "pr_out (HandleEvent D now now2 ev (sv_proc s')) = pr_out (sv_proc s')" for D
    using assms(2,3) w by (auto simp: HandleEvent_def getWindow_def Let_def)
  then show ?thesis using w out by (simp add: openWindows_def lenWindows_def flushOne_def getWindow_def)
qed

text \<open>The two events of a running span, on one processor: what the record of the span says.\<close>

lemma start_stop_billed:
  assumes "dp_out D2 = loggedRecordWriter" "u \<noteq> ''''" "fst (dp_resolve D1 u) = Some i"
    and "diskOk (fst (pr_out p))" "getWindow (pr_windows p) u = None"
    and "ev_Type start = '''' \<or> ev_Type start = ''vm.state_change''"
    and "extractTransition start = (u, old, onState)"
    and "ev_Type stop = '''' \<or> ev_Type stop = ''vm.state_change''"
    and "extractTransition stop = (u, old2, new)" "new \<noteq> ''''" "new \<noteq> onState"
    and "eventTime now start < eventTime now' stop"
    and "pr_windows p2 = pr_windows (HandleEvent D1 now now2 start p)" "pr_out p2 = pr_out p"
  shows "\<exists>r. snd (pr_out (HandleEvent D2 now' now2' stop p2)) = snd (pr_out p) @ [r] \<and>
    covers (dp_md5hex D2) u (eventTime now start) (eventTime now' stop) r \<and> attributedTo (Some i) r"
proof -
  obtain w where w: "getWindow (pr_windows p2) u = Some w" "w_uuid w = u"
      "w_reportedUntil w = eventTime now start" "w_resolved w = Some i"
    using HandleEvent_opens(1) [OF assms(6,7,2,5), of D1 now now2] assms(3,13) by auto
  then show ?thesis
    using HandleEvent_closes [of D2 p2 stop u old2 new w now' now2' u] assms(1,2,4,8-12,14) by (auto simp: Let_def)
qed

text \<open>
  Attribution end to end: once the informers have delivered the namespace and the Pod, an
  instance that starts and stops is billed in one record that names the project decoded from
  the namespace label, the instance from the Pod label, and the largest CPU and memory over
  the Pod's containers, even if the Pod and the namespace disappear in between.
\<close>

theorem attribution_end_to_end:
  assumes "u \<in> set (containerIDs pod)" "u \<noteq> ''''"
    and "project (sv_namespaces s) (pod_Namespace pod) = Some pid" "pid \<noteq> ''''"
    and "sv_flushing s = None" "diskOk (fst (pr_out (sv_proc s)))"
    and "getWindow (pr_windows (sv_proc s)) u = None"
    and "ev_Type start = '''' \<or> ev_Type start = ''vm.state_change''"
    and "extractTransition start = (u, old, onState)"
    and "ev_Type stop = '''' \<or> ev_Type stop = ''vm.state_change''"
    and "extractTransition stop = (u, old2, new)" "new \<noteq> ''''" "new \<noteq> onState"
    and "eventTime now start < eventTime now' stop"
    and "s1 = podAdded (WPod pod) s"
    and "p2 = HandleEvent (svDeps md5 s1) now now2 start (sv_proc s1)"
    and "s2 = namespaceDeleted ns (podDeleted (WPod pod) (s1\<lparr>sv_proc := p2\<rparr>))"
  shows "\<exists>r. snd (pr_out (HandleEvent (svDeps md5 s2) now' now2' stop (sv_proc s2))) =
      snd (pr_out (sv_proc s)) @ [r] \<and>
    covers md5 u (eventTime now start) (eventTime now' stop) r \<and>
    u_Project r = pid \<and> u_Instance r = strAt (pod_Labels pod) upstreamInstanceLabel \<and>
    u_VcpuMilli r = fold max (map containerVcpu (ps_Containers (pod_Spec pod))) 0 \<and>
    u_MemoryBytes r = fold max (map containerMemory (ps_Containers (pod_Spec pod))) 0"
proof -
  let ?i = "fst (podInfo (project (sv_namespaces s)) pod)" and ?p1 = "sv_proc s1"
  have out1: "pr_out ?p1 = pr_out (sv_proc s)" and w1: "pr_windows ?p1 = pr_windows (sv_proc s)"
    and pods1: "sv_pods s1 = indexPod (project (sv_namespaces s)) pod (sv_pods s)"
    using assms(15) indexPod_upsert [of "project (sv_namespaces s)" pod "pr_stats (sv_proc s)" "sv_pods s"]
    by (auto simp: podAdded_def toPod_def split: prod.splits)
  have res: "fst (dp_resolve (svDeps md5 s1) u) = Some ?i"
    using pods1 assms(1) by (simp add: svDeps_def fileDeps_def pix.see_res)
  have out2: "pr_out p2 = pr_out ?p1"
    using HandleEvent_opens(3) [OF assms(8,9,2), of ?p1] assms(7,16) w1 by simp
  have p2: "sv_proc s2 = p2" using assms(17) by (simp add: namespaceDeleted_def podDeleted_def)
  obtain r where "snd (pr_out (HandleEvent (svDeps md5 s2) now' now2' stop p2)) = snd (pr_out ?p1) @ [r]"
      "covers md5 u (eventTime now start) (eventTime now' stop) r" "attributedTo (Some ?i) r"
    using start_stop_billed [of "svDeps md5 s2" u "svDeps md5 s1" ?i ?p1 start old stop old2 new now now' p2 now2 now2']
      assms(2,6-14,16) res out1 out2 w1 by (auto simp: svDeps_def fileDeps_def)
  then show ?thesis
    using p2 out1 assms(3,4)
    by (auto simp: attributedTo_def podInfo_def fold_foldContainer_resources)
qed

text \<open>
  A window that opens after its Pod is indexed but before its namespace is keeps the
  unknown project for life: the attribution is cached although its project is empty, so
  delivering the namespace and the Pod again afterwards does not change the record.
\<close>

theorem empty_project_is_cached:
  assumes "getWindow (pr_windows (sv_proc s)) u = Some w" "w_resolved w = Some i" "i_project i = ''''"
    and "s' = podAdded obj (namespaceAdded ns s)"
  shows "getWindow (pr_windows (sv_proc s')) u = Some w \<and>
    u_Project (fst (recordFor (svDeps md5 s') w end st)) = ''-''"
proof -
  have "pr_windows (sv_proc s') = pr_windows (sv_proc s)"
    using assms(4) by (simp add: podAdded_def namespaceAdded_def split: prod.splits)
  then show ?thesis
    using assms(1-3) recordFor_attribution [of "svDeps md5 s'" w "end" st] by (simp add: attributedTo_def)
qed

text \<open>
  C38. A write error on close loses the span: the window is removed although the record was
  refused, so no later flush can retry it.
\<close>

theorem close_write_error_drops_span:
  assumes "ev_Type ev = '''' \<or> ev_Type ev = ''vm.state_change''"
    and "extractTransition ev = (u, old, new)" "u \<noteq> ''''" "new \<noteq> ''''" "new \<noteq> onState"
    and "getWindow (pr_windows p) u = Some w" "w_reportedUntil w < eventTime now ev"
    and "dp_out D = loggedRecordWriter" "ow_io (fst (pr_out p)) (ow_ioNext (fst (pr_out p))) = IoFail"
  shows "let q = HandleEvent D now now2 ev p
    in snd (pr_out q) = snd (pr_out p) \<and> writeErrors (pr_stats q) = writeErrors (pr_stats p) + 1 \<and>
       getWindow (pr_windows q) u = None"
proof -
  let ?t = "eventTime now ev"
  obtain rec w1 st1 where rf: "recordFor D w ?t (pr_stats p) = (rec, w1, st1)" by (metis prod_cases3)
  have ap: "rw_append loggedRecordWriter rec (pr_out p) = (False, snd (ioStep (fst (pr_out p))), snd (pr_out p))"
    using assms(9)
    by (simp add: loggedRecordWriter_def loggedAppend_def appendRecord_def case_prod_unfold Let_def)
  have "emitWindow D w ?t (pr_stats p, pr_out p) =
      (w1, st1\<lparr>writeErrors := writeErrors st1 + 1\<rparr>, snd (ioStep (fst (pr_out p))), snd (pr_out p))"
    using assms(7,8) rf ap by (simp add: emitWindow_def Let_def)
  then show ?thesis
    using assms(1-6) recordFor_stats [OF rf] by (auto simp: HandleEvent_def Let_def)
qed

section \<open>Witnesses\<close>

definition demoStart :: stateChange where
  "demoStart =
     \<lparr>ev_Timestamp = ''2025-12-31T23:59:00Z'', ev_Type = ''vm.state_change'',
      ev_Data = [(''new'', JStr ''running'')], ev_ObjectUUID = demoUUID, ev_Raw = ''{}''\<rparr>"

definition demoUnmarshal :: decoder where
  "demoUnmarshal line = (if line = ''start'' then Some demoStart else if line = ''stop'' then Some demoStop else None)"

definition demoConfig :: config where
  "demoConfig =
     \<lparr>cfg_EventsPath = ''/in'', cfg_OutputPath = ''/out'', cfg_FlushInterval = 300 * second,
      cfg_StatsInterval = minute, cfg_KubeconfigPath = '''', cfg_Debug = False,
      cfg_RotateSizeBytes = 0, cfg_RotateMaxAge = 0\<rparr>"

definition demoBoot :: projector where
  "demoBoot = (case newService True True demoConfig (demoWriter, []) of Inr s \<Rightarrow> s | Inl e \<Rightarrow> undefined)"

definition demoRunning :: projector where
  "demoRunning = lineRead (\<lambda>t. t) demoUnmarshal 0 0 ''start'' demoBoot"

definition demoStopped :: projector where
  "demoStopped = lineRead (\<lambda>t. t) demoUnmarshal 0 0 ''stop'' demoRunning"

lemma demoBoot_new: "newService True True demoConfig (demoWriter, []) = Inr demoBoot"
  by (simp add: demoBoot_def newService_def Let_def)

lemma lineRead_flushing [simp]: "sv_flushing (lineRead md5 U now now2 l s) = sv_flushing s"
  by (simp add: lineRead_def)

lemma demoBoot_idle [simp]: "sv_flushing demoBoot = None"
  by (simp add: demoBoot_def newService_def Let_def)

lemma demoRunning_reachable: "reachable (\<lambda>t. t) demoUnmarshal demoConfig demoRunning"
  unfolding demoRunning_def
  by (rule reachable.move [OF reachable.boot [OF demoBoot_new] step.line]) simp

lemma demoStopped_reachable: "reachable (\<lambda>t. t) demoUnmarshal demoConfig demoStopped"
  unfolding demoStopped_def
  by (rule reachable.move [OF demoRunning_reachable step.line]) (simp add: demoRunning_def)

lemma demoRunning_window:
  "getWindow (pr_windows (sv_proc demoRunning)) demoUUID =
     Some ((freshWindow demoUUID (1767225540 * second))\<lparr>w_lastResolveLog := ''pod_not_indexed''\<rparr>)"
  by code_simp

lemma demoStopped_record: "map u_Duration (snd (pr_out (sv_proc demoStopped))) = [60 * second]"
  by code_simp

definition demoFlushed :: projector where
  "demoFlushed = demoRunning
     \<lparr>sv_proc := flushOne (svDeps (\<lambda>t. t) demoRunning) (1767225940 * second) demoUUID (sv_proc demoRunning),
      sv_flushing := Some (1767225940 * second, [])\<rparr>"

lemma demoRunning_keys: "map fst (pr_windows (sv_proc demoRunning)) = [demoUUID]"
  by code_simp

lemma demoFlushed_reachable: "reachable (\<lambda>t. t) demoUnmarshal demoConfig demoFlushed"
proof -
  let ?s = "demoRunning\<lparr>sv_flushing := Some (1767225940 * second, [demoUUID])\<rparr>"
  have "set [demoUUID] = fst ` set (pr_windows (sv_proc demoRunning))"
    using demoRunning_keys by (metis list.set_map)
  then have "step (\<lambda>t. t) demoUnmarshal demoConfig demoRunning ?s"
    by (intro step.flush_start) (simp_all add: demoRunning_def)
  then have "reachable (\<lambda>t. t) demoUnmarshal demoConfig ?s"
    by (rule reachable.move [OF demoRunning_reachable])
  moreover have "step (\<lambda>t. t) demoUnmarshal demoConfig ?s demoFlushed"
    using step.flush_window [of ?s "1767225940 * second" demoUUID "[]" "\<lambda>t. t" demoUnmarshal demoConfig]
    by (simp add: demoFlushed_def svDeps_def)
  ultimately show ?thesis by (rule reachable.move)
qed

lemma demoFlushed_window:
  "getWindow (pr_windows (sv_proc demoFlushed)) demoUUID =
     Some ((freshWindow demoUUID (1767225540 * second))
       \<lparr>w_reportedUntil := 1767225940 * second, w_records := 1, w_lastResolveLog := ''pod_not_indexed''\<rparr>)"
  by code_simp

theorem service_ledger_witness:
  "tiles (\<lambda>t. t) demoUUID (1767225540 * second)
     (lastN 1 (billedTo demoUUID (snd (pr_out (sv_proc demoFlushed))))) (1767225940 * second)"
  using service_ledger [OF demoFlushed_reachable demoFlushed_window] by simp


theorem service_records_positive_witness:
  "\<exists>r. snd (pr_out (sv_proc demoStopped)) = [r] \<and> 0 < u_Duration r"
proof -
  obtain r where r: "snd (pr_out (sv_proc demoStopped)) = [r]" using demoStopped_record by auto
  then show ?thesis using service_records_positive [OF demoStopped_reachable, of r] by simp
qed

theorem service_gauge_witness:
  "windowsOpened (pr_stats (sv_proc demoRunning)) - windowsClosed (pr_stats (sv_proc demoRunning)) =
     int (openWindows (sv_proc demoRunning))"
  using service_gauge [OF demoRunning_reachable] .


theorem restart_forgets_windows_witness:
  "openWindows (sv_proc demoRunning) = 1 \<and>
   (\<exists>s'. newService True True demoConfig (pr_out (sv_proc demoRunning)) = Inr s' \<and>
     openWindows (sv_proc s') = 0 \<and>
     snd (pr_out (HandleEvent (svDeps (\<lambda>t. t) s') 0 0 demoStop (sv_proc s'))) = snd (pr_out (sv_proc demoRunning)))"
proof -
  obtain s' where s': "newService True True demoConfig (pr_out (sv_proc demoRunning)) = Inr s'"
    by (simp add: newService_def Let_def)
  have x: "extractTransition demoStop = (demoUUID, ''running'', ''stopped'')" and n: "''stopped'' \<noteq> onState"
    and o1: "openWindows (sv_proc demoRunning) = 1" by code_simp+
  show ?thesis using restart_forgets_windows [OF s' x n, of "\<lambda>t. t" 0 0] s' o1 by auto
qed

definition demoPod :: pod where
  "demoPod = demoIndexed demoUUID"

theorem attribution_end_to_end_witness:
  "\<exists>r s2. snd (pr_out (HandleEvent (svDeps (\<lambda>t. t) s2) 0 0 demoStop (sv_proc s2))) = [r] \<and> u_Project r = ''p/1''"
proof -
  let ?s = "demoBoot\<lparr>sv_namespaces := [(''ns-1'', ''p/1'')]\<rparr>"
  have u: "demoUUID \<in> set (containerIDs demoPod)" "demoUUID \<noteq> ''''"
    and x: "extractTransition demoStart = (demoUUID, '''', onState)"
      "extractTransition demoStop = (demoUUID, ''running'', ''stopped'')"
    and t: "eventTime 0 demoStart < eventTime 0 demoStop"
    and n: "''stopped'' \<noteq> onState"
    and pr: "project (sv_namespaces ?s) (pod_Namespace demoPod) = Some ''p/1''"
    and ty: "ev_Type demoStart = '''' \<or> ev_Type demoStart = ''vm.state_change''"
      "ev_Type demoStop = '''' \<or> ev_Type demoStop = ''vm.state_change''"
    by code_simp+
  have i: "sv_flushing ?s = None" "diskOk (fst (pr_out (sv_proc ?s)))"
    "getWindow (pr_windows (sv_proc ?s)) demoUUID = None" "snd (pr_out (sv_proc ?s)) = []"
    by (simp_all add: demoBoot_def newService_def newProcessor_def Let_def diskOk_def newOutputWriter_def
        demoWriter_def)
  note att = attribution_end_to_end [where ?md5.0 = "\<lambda>t. t" and now2' = 0 and ns = WOther,
      OF u pr _ i(1-3) ty(1) x(1) ty(2) x(2) _ n t refl refl refl, unfolded i(4) append_Nil]
  from att show ?thesis by (rule exE) (simp, blast)+
qed

theorem empty_project_is_cached_witness:
  "u_Project (fst (recordFor (svDeps (\<lambda>t. t) (podAdded (WPod demoPod) (namespaceAdded WOther demoRunning)))
     (demoWindow\<lparr>w_resolved := Some (demoInfo\<lparr>i_project := ''''\<rparr>)\<rparr>) 0 zeroStats)) = ''-''"
proof -
  let ?w = "demoWindow\<lparr>w_resolved := Some (demoInfo\<lparr>i_project := ''''\<rparr>)\<rparr>"
  let ?s = "demoRunning\<lparr>sv_proc := (sv_proc demoRunning)\<lparr>pr_windows := [(demoUUID, ?w)]\<rparr>\<rparr>"
  have "svDeps (\<lambda>t. t) (podAdded (WPod demoPod) (namespaceAdded WOther ?s)) =
      svDeps (\<lambda>t. t) (podAdded (WPod demoPod) (namespaceAdded WOther demoRunning))"
    by (simp add: svDeps_def podAdded_def namespaceAdded_def split: prod.splits)
  then show ?thesis
    using empty_project_is_cached [of ?s demoUUID ?w _ _ "WPod demoPod" WOther "\<lambda>t. t" 0 zeroStats, OF _ _ _ refl]
    by (simp add: getWindow_def)
qed

theorem close_write_error_drops_span_witness:
  "let p = (demoProcessor [(demoUUID, demoWindow)])\<lparr>pr_out := (demoWriter\<lparr>ow_io := (\<lambda>n. IoFail)\<rparr>, [])\<rparr>;
       q = HandleEvent demoDeps 0 0 demoStop p
   in snd (pr_out q) = [] \<and> writeErrors (pr_stats q) = 1 \<and> getWindow (pr_windows q) demoUUID = None"
proof -
  let ?p = "(demoProcessor [(demoUUID, demoWindow)])\<lparr>pr_out := (demoWriter\<lparr>ow_io := (\<lambda>n. IoFail)\<rparr>, [])\<rparr>"
  have x: "extractTransition demoStop = (demoUUID, ''running'', ''stopped'')" and n: "''stopped'' \<noteq> onState"
    and u: "demoUUID \<noteq> ''''" and t: "w_reportedUntil demoWindow < eventTime 0 demoStop"
    and ty: "ev_Type demoStop = '''' \<or> ev_Type demoStop = ''vm.state_change''" by code_simp+
  show ?thesis
    using close_write_error_drops_span [OF ty x u _ n _ t, of ?p demoDeps 0]
    by (simp add: demoProcessor_def demoDeps_def getWindow_def zeroStats_def Let_def)
qed

end
