(* ===== verification/Client.thy ===== *)
theory Client
  imports Kube "HOL-Library.Monad_Syntax"
begin

text \<open>
  The world of the controller. A reconcile is a program that talks to the API server through
  the controller-runtime client; what the server and the other controllers answer is not under
  its control, so a program is a tree of calls with a continuation per answer, and a run of it
  is the list of calls with the answers they got. The helper functions of controller-runtime,
  apimachinery and go.datum.net/compute are the record \<open>kubeLib\<close>; what the code relies on of
  them is the locale \<open>kube_lib\<close>.
\<close>

section \<open>Errors\<close>

text \<open>An error of the API, a plain error, or one wrapped with a message (\<open>%w\<close>).\<close>

datatype apiError = NotFound | NoMatch | Conflict | ApiOther string

datatype goErr = Api apiError | Msg string | Wrapped string goErr

fun rootErr :: "goErr \<Rightarrow> goErr" where
  "rootErr (Wrapped m e) = rootErr e"
| "rootErr e = e"

definition isNotFound :: "goErr \<Rightarrow> bool" where "isNotFound e \<longleftrightarrow> rootErr e = Api NotFound"
definition isConflict :: "goErr \<Rightarrow> bool" where "isConflict e \<longleftrightarrow> rootErr e = Api Conflict"
definition isNoMatch :: "goErr \<Rightarrow> bool" where "isNoMatch e \<longleftrightarrow> rootErr e = Api NoMatch"

lemma isErr_simps [simp]:
  "isNotFound (Wrapped m e) = isNotFound e" "isConflict (Wrapped m e) = isConflict e"
  "isNotFound (Api a) = (a = NotFound)" "isConflict (Api a) = (a = Conflict)"
  "isNoMatch (Api a) = (a = NoMatch)" "\<not> isNotFound (Msg m)" "\<not> isConflict (Msg m)" "\<not> isNoMatch (Msg m)"
  by (simp_all add: isNotFound_def isConflict_def isNoMatch_def)

section \<open>Calls\<close>

type_synonym objKey = "string \<times> string"

record location =
  loc_GCP :: bool
  loc_ClassName :: string

text \<open>
  The calls the sources make. \<open>DeletePod\<close> may carry a UID precondition; a patch carries the
  object before and after. The creations and the patch of a Service are made by
  \<open>controllerutil.CreateOrPatch\<close> on behalf of the sources.
\<close>

datatype request =
    GetInstance objKey | GetPod objKey | GetService objKey | GetNode string
  | GetInstanceType string | GetLocationObj string
  | DeletePod objKey "string option" | DeleteService objKey
  | UpdateInstance instanceObj
  | PatchPod pod pod
  | PatchInstanceStatus instanceObj instanceObj
  | CreatePod pod
  | CreateService service | PatchService service service
  | ListPods "(string \<times> string) list"

datatype response =
    RErr goErr | ROk | RInstance instanceObj | RPod pod | RService service | RNode node
  | RInstanceType instanceTypeObj | RLocation location | RPods "pod list"

datatype 'a prog = Ret 'a | Call request "response \<Rightarrow> 'a prog"

primrec bindP :: "'a prog \<Rightarrow> ('a \<Rightarrow> 'b prog) \<Rightarrow> 'b prog" where
  "bindP (Ret x) f = f x"
| "bindP (Call q k) f = Call q (\<lambda>a. bindP (k a) f)"

text \<open>
  Results with an error: \<open>Inl\<close> is a non-nil error. \<open>bindE\<close> is the early return on an error.
\<close>

type_synonym 'a result = "goErr + 'a"

definition bindE :: "'a result prog \<Rightarrow> ('a \<Rightarrow> 'b result prog) \<Rightarrow> 'b result prog" where
  "bindE p f = bindP p (\<lambda>r. case r of Inl e \<Rightarrow> Ret (Inl e) | Inr x \<Rightarrow> f x)"

definition mapErr :: "(goErr \<Rightarrow> goErr) \<Rightarrow> 'a result \<Rightarrow> 'a result" where
  "mapErr f r = (case r of Inl e \<Rightarrow> Inl (f e) | Inr x \<Rightarrow> Inr x)"

definition wrapP :: "string \<Rightarrow> 'a result prog \<Rightarrow> 'a result prog" where
  "wrapP m p = bindP p (\<lambda>r. Ret (mapErr (Wrapped m) r))"

text \<open>The idiom \<open>if err := ...; err != nil && !IsNotFound(err)\<close>: not finding the object is no error.\<close>

definition ignoreNotFound :: "string \<Rightarrow> unit result prog \<Rightarrow> unit result prog" where
  "ignoreNotFound m p =
     bindP p (\<lambda>r. Ret (case r of
                         Inl err \<Rightarrow> if isNotFound err then Inr () else Inl (Wrapped m err)
                       | Inr u \<Rightarrow> Inr ()))"

lemma bindE_simps [simp]:
  "bindE (Call q k) f = Call q (\<lambda>a. bindE (k a) f)" "bindE (Ret (Inl e)) f = Ret (Inl e)"
  "bindE (Ret (Inr x)) f = f x"
  by (simp_all add: bindE_def)

lemma wrapP_simps [simp]:
  "wrapP m (Call q k) = Call q (\<lambda>a. wrapP m (k a))" "wrapP m (Ret (Inl e)) = Ret (Inl (Wrapped m e))"
  "wrapP m (Ret (Inr x)) = Ret (Inr x)"
  by (simp_all add: wrapP_def mapErr_def)

lemma Call_eqI: "(\<And>a. k a = l a) \<Longrightarrow> Call q k = Call q l"
  by (auto intro: ext)

lemma bindP_assoc: "bindP (bindP p f) g = bindP p (\<lambda>x. bindP (f x) g)"
  by (induction p) (auto intro: ext)

lemma bindP_Ret [simp]: "bindP p Ret = p"
  by (induction p) (auto intro: ext)

text \<open>
  Typed calls. An answer of another kind than the call's cannot come from the client; it is an
  error here.
\<close>

definition badAnswer :: goErr where "badAnswer = Msg ''unexpected object''"

definition getInstance :: "objKey \<Rightarrow> instanceObj result prog" where
  "getInstance k = Call (GetInstance k)
     (\<lambda>a. Ret (case a of RInstance i \<Rightarrow> Inr i | RErr e \<Rightarrow> Inl e | _ \<Rightarrow> Inl badAnswer))"

definition getPod :: "objKey \<Rightarrow> pod result prog" where
  "getPod k = Call (GetPod k) (\<lambda>a. Ret (case a of RPod p \<Rightarrow> Inr p | RErr e \<Rightarrow> Inl e | _ \<Rightarrow> Inl badAnswer))"

definition getService :: "objKey \<Rightarrow> service result prog" where
  "getService k = Call (GetService k)
     (\<lambda>a. Ret (case a of RService s \<Rightarrow> Inr s | RErr e \<Rightarrow> Inl e | _ \<Rightarrow> Inl badAnswer))"

definition getNode :: "string \<Rightarrow> node result prog" where
  "getNode n = Call (GetNode n) (\<lambda>a. Ret (case a of RNode x \<Rightarrow> Inr x | RErr e \<Rightarrow> Inl e | _ \<Rightarrow> Inl badAnswer))"

definition getInstanceType :: "string \<Rightarrow> instanceTypeObj result prog" where
  "getInstanceType n = Call (GetInstanceType n)
     (\<lambda>a. Ret (case a of RInstanceType t \<Rightarrow> Inr t | RErr e \<Rightarrow> Inl e | _ \<Rightarrow> Inl badAnswer))"

definition getLocationObj :: "string \<Rightarrow> location result prog" where
  "getLocationObj n = Call (GetLocationObj n)
     (\<lambda>a. Ret (case a of RLocation l \<Rightarrow> Inr l | RErr e \<Rightarrow> Inl e | _ \<Rightarrow> Inl badAnswer))"

definition okAnswer :: "response \<Rightarrow> unit result" where
  "okAnswer a = (case a of ROk \<Rightarrow> Inr () | RErr e \<Rightarrow> Inl e | _ \<Rightarrow> Inl badAnswer)"

definition deletePodReq :: "objKey \<Rightarrow> string option \<Rightarrow> unit result prog" where
  "deletePodReq k uid = Call (DeletePod k uid) (\<lambda>a. Ret (okAnswer a))"

definition deleteServiceReq :: "objKey \<Rightarrow> unit result prog" where
  "deleteServiceReq k = Call (DeleteService k) (\<lambda>a. Ret (okAnswer a))"

definition updateInstance :: "instanceObj \<Rightarrow> instanceObj result prog" where
  "updateInstance i = Call (UpdateInstance i)
     (\<lambda>a. Ret (case a of RInstance i' \<Rightarrow> Inr i' | RErr e \<Rightarrow> Inl e | _ \<Rightarrow> Inl badAnswer))"

definition patchPod :: "pod \<Rightarrow> pod \<Rightarrow> pod result prog" where
  "patchPod base p = Call (PatchPod base p)
     (\<lambda>a. Ret (case a of RPod p' \<Rightarrow> Inr p' | RErr e \<Rightarrow> Inl e | _ \<Rightarrow> Inl badAnswer))"

definition patchInstanceStatus :: "instanceObj \<Rightarrow> instanceObj \<Rightarrow> unit result prog" where
  "patchInstanceStatus base i = Call (PatchInstanceStatus base i) (\<lambda>a. Ret (okAnswer a))"

definition listPods :: "(string \<times> string) list \<Rightarrow> pod list result prog" where
  "listPods sel = Call (ListPods sel)
     (\<lambda>a. Ret (case a of RPods ps \<Rightarrow> Inr ps | RErr e \<Rightarrow> Inl e | _ \<Rightarrow> Inl badAnswer))"

lemmas client_calls = getInstance_def getPod_def getService_def getNode_def getInstanceType_def
  getLocationObj_def deletePodReq_def deleteServiceReq_def updateInstance_def patchPod_def
  patchInstanceStatus_def listPods_def

section \<open>Runs\<close>

type_synonym trace = "(request \<times> response) list"

text \<open>\<open>runs p tr x\<close>: with the answers of \<open>tr\<close> the program makes exactly these calls and returns \<open>x\<close>.\<close>

primrec runs :: "'a prog \<Rightarrow> trace \<Rightarrow> 'a \<Rightarrow> bool" where
  "runs (Ret x) = (\<lambda>tr y. tr = [] \<and> x = y)"
| "runs (Call q k) =
     (\<lambda>tr y. case tr of [] \<Rightarrow> False | (q', a) # tr' \<Rightarrow> q' = q \<and> runs (k a) tr' y)"

lemma runs_Call: "runs (Call q k) tr y \<longleftrightarrow> (\<exists>a tr'. tr = (q, a) # tr' \<and> runs (k a) tr' y)"
  by (auto split: list.splits)

declare runs.simps(2) [simp del]
declare runs_Call [simp]

text \<open>The program against a server that answers every call by a function: always a result.\<close>

primrec answer :: "(request \<Rightarrow> response) \<Rightarrow> 'a prog \<Rightarrow> 'a" where
  "answer env (Ret x) = x"
| "answer env (Call q k) = answer env (k (env q))"

primrec callsOf :: "(request \<Rightarrow> response) \<Rightarrow> 'a prog \<Rightarrow> trace" where
  "callsOf env (Ret x) = []"
| "callsOf env (Call q k) = (q, env q) # callsOf env (k (env q))"

lemma runs_bindP: "runs (bindP p f) tr y \<longleftrightarrow> (\<exists>tr1 tr2 x. tr = tr1 @ tr2 \<and> runs p tr1 x \<and> runs (f x) tr2 y)"
proof (induction p arbitrary: tr)
  case (Ret x)
  then show ?case by auto
next
  case (Call q k)
  have "runs (bindP (Call q k) f) tr y \<longleftrightarrow> (\<exists>a tr'. tr = (q, a) # tr' \<and>
      (\<exists>tr1 tr2 x. tr' = tr1 @ tr2 \<and> runs (k a) tr1 x \<and> runs (f x) tr2 y))"
    using Call by auto
  also have "\<dots> \<longleftrightarrow> (\<exists>tr1 tr2 x. tr = tr1 @ tr2 \<and> runs (Call q k) tr1 x \<and> runs (f x) tr2 y)"
    by (auto simp: Cons_eq_append_conv) (metis append_Cons)+
  finally show ?case .
qed

lemma runs_callsOf: "runs p (callsOf env p) (answer env p)"
  by (induction p) auto

text \<open>A run exists for every behaviour of the server: the programs always return.\<close>

lemma runs_total: "\<exists>tr x. runs p tr x \<and> (\<forall>(q, a) \<in> set tr. a = env q)"
proof -
  have "\<forall>(q, a) \<in> set (callsOf env p). a = env q" by (induction p) auto
  then show ?thesis using runs_callsOf by blast
qed

lemma runs_bindE:
  "runs (bindE p f) tr y \<longleftrightarrow>
     (\<exists>e. runs p tr (Inl e) \<and> y = Inl e) \<or> (\<exists>tr1 tr2 x. tr = tr1 @ tr2 \<and> runs p tr1 (Inr x) \<and> runs (f x) tr2 y)"
  unfolding bindE_def runs_bindP
proof (intro iffI)
  assume "\<exists>tr1 tr2 r. tr = tr1 @ tr2 \<and> runs p tr1 r \<and> runs (case r of Inl e \<Rightarrow> Ret (Inl e) | Inr x \<Rightarrow> f x) tr2 y"
  then obtain tr1 tr2 r where r: "tr = tr1 @ tr2" "runs p tr1 r"
      "runs (case r of Inl e \<Rightarrow> Ret (Inl e) | Inr x \<Rightarrow> f x) tr2 y" by blast
  then show "(\<exists>e. runs p tr (Inl e) \<and> y = Inl e) \<or> (\<exists>tr1 tr2 x. tr = tr1 @ tr2 \<and> runs p tr1 (Inr x) \<and> runs (f x) tr2 y)"
    by (cases r) auto
next
  assume "(\<exists>e. runs p tr (Inl e) \<and> y = Inl e) \<or> (\<exists>tr1 tr2 x. tr = tr1 @ tr2 \<and> runs p tr1 (Inr x) \<and> runs (f x) tr2 y)"
  then show "\<exists>tr1 tr2 r. tr = tr1 @ tr2 \<and> runs p tr1 r \<and> runs (case r of Inl e \<Rightarrow> Ret (Inl e) | Inr x \<Rightarrow> f x) tr2 y"
  proof
    assume "\<exists>e. runs p tr (Inl e) \<and> y = Inl e"
    then obtain e where "runs p tr (Inl e)" "y = Inl e" by blast
    then show ?thesis by (intro exI [of _ tr] exI [of _ "[]"] exI [of _ "Inl e"]) simp
  next
    assume "\<exists>tr1 tr2 x. tr = tr1 @ tr2 \<and> runs p tr1 (Inr x) \<and> runs (f x) tr2 y"
    then obtain tr1 tr2 x where "tr = tr1 @ tr2" "runs p tr1 (Inr x)" "runs (f x) tr2 y" by blast
    then show ?thesis by (intro exI [of _ tr1] exI [of _ tr2] exI [of _ "Inr x"]) simp
  qed
qed

lemma runs_wrapP: "runs (wrapP m p) tr y \<longleftrightarrow> (\<exists>r. runs p tr r \<and> y = mapErr (Wrapped m) r)"
  by (auto simp: wrapP_def runs_bindP)

lemma runs_bindP_result:
  "runs (bindP p f) tr y \<longleftrightarrow>
     (\<exists>tr1 tr2 e. tr = tr1 @ tr2 \<and> runs p tr1 (Inl e) \<and> runs (f (Inl e)) tr2 y) \<or>
     (\<exists>tr1 tr2 x. tr = tr1 @ tr2 \<and> runs p tr1 (Inr x) \<and> runs (f (Inr x)) tr2 y)"
  unfolding runs_bindP by (metis sum.exhaust)

lemmas runs_simps = runs_bindP runs_bindE runs_wrapP

text \<open>A typed call that succeeds got an object of its kind; one that fails got an error or a foreign object.\<close>

lemma answer_ok:
  "(case a of RInstance x \<Rightarrow> Inr x | RErr e \<Rightarrow> Inl e | _ \<Rightarrow> Inl badAnswer) = Inr yIn \<longleftrightarrow> a = RInstance yIn"
  "(case a of RPod x \<Rightarrow> Inr x | RErr e \<Rightarrow> Inl e | _ \<Rightarrow> Inl badAnswer) = Inr yPo \<longleftrightarrow> a = RPod yPo"
  "(case a of RService x \<Rightarrow> Inr x | RErr e \<Rightarrow> Inl e | _ \<Rightarrow> Inl badAnswer) = Inr ySe \<longleftrightarrow> a = RService ySe"
  "(case a of RNode x \<Rightarrow> Inr x | RErr e \<Rightarrow> Inl e | _ \<Rightarrow> Inl badAnswer) = Inr yNo \<longleftrightarrow> a = RNode yNo"
  "okAnswer a = Inr u \<longleftrightarrow> a = ROk"
  by (cases a, simp_all add: okAnswer_def)+

lemma answer_err:
  "(case a of RInstance x \<Rightarrow> Inr x | RErr e \<Rightarrow> Inl e | _ \<Rightarrow> Inl badAnswer) = Inl err \<Longrightarrow> a = RErr err \<or> err = badAnswer"
  "(case a of RPod x \<Rightarrow> Inr x | RErr e \<Rightarrow> Inl e | _ \<Rightarrow> Inl badAnswer) = Inl err \<Longrightarrow> a = RErr err \<or> err = badAnswer"
  "(case a of RService x \<Rightarrow> Inr x | RErr e \<Rightarrow> Inl e | _ \<Rightarrow> Inl badAnswer) = Inl err \<Longrightarrow> a = RErr err \<or> err = badAnswer"
  "(case a of RNode x \<Rightarrow> Inr x | RErr e \<Rightarrow> Inl e | _ \<Rightarrow> Inl badAnswer) = Inl err \<Longrightarrow> a = RErr err \<or> err = badAnswer"
  "okAnswer a = Inl err \<Longrightarrow> a = RErr err \<or> err = badAnswer"
  by (cases a, simp_all add: okAnswer_def)+

lemma runs_client_ok [simp]:
  "runs (getInstance k) tr (Inr i) \<longleftrightarrow> tr = [(GetInstance k, RInstance i)]"
  "runs (getPod k) tr (Inr p) \<longleftrightarrow> tr = [(GetPod k, RPod p)]"
  "runs (getService k) tr (Inr s) \<longleftrightarrow> tr = [(GetService k, RService s)]"
  "runs (getNode n) tr (Inr nd) \<longleftrightarrow> tr = [(GetNode n, RNode nd)]"
  "runs (updateInstance i) tr (Inr i') \<longleftrightarrow> tr = [(UpdateInstance i, RInstance i')]"
  "runs (patchPod p p') tr (Inr p'') \<longleftrightarrow> tr = [(PatchPod p p', RPod p'')]"
  "runs (patchInstanceStatus i i') tr (Inr u) \<longleftrightarrow> tr = [(PatchInstanceStatus i i', ROk)]"
  "runs (deletePodReq k uid) tr (Inr u) \<longleftrightarrow> tr = [(DeletePod k uid, ROk)]"
  "runs (deleteServiceReq k) tr (Inr u) \<longleftrightarrow> tr = [(DeleteService k, ROk)]"
  by (auto simp: client_calls answer_ok)

lemma runs_client_err:
  "runs (getInstance k) tr (Inl e) \<Longrightarrow> \<exists>a. tr = [(GetInstance k, a)] \<and> (a = RErr e \<or> e = badAnswer)"
  "runs (getPod k) tr (Inl e) \<Longrightarrow> \<exists>a. tr = [(GetPod k, a)] \<and> (a = RErr e \<or> e = badAnswer)"
  "runs (getService k) tr (Inl e) \<Longrightarrow> \<exists>a. tr = [(GetService k, a)] \<and> (a = RErr e \<or> e = badAnswer)"
  "runs (getNode n) tr (Inl e) \<Longrightarrow> \<exists>a. tr = [(GetNode n, a)] \<and> (a = RErr e \<or> e = badAnswer)"
  "runs (updateInstance i) tr (Inl e) \<Longrightarrow> \<exists>a. tr = [(UpdateInstance i, a)] \<and> (a = RErr e \<or> e = badAnswer)"
  "runs (patchPod p p') tr (Inl e) \<Longrightarrow> \<exists>a. tr = [(PatchPod p p', a)] \<and> (a = RErr e \<or> e = badAnswer)"
  "runs (patchInstanceStatus i i') tr (Inl e) \<Longrightarrow> \<exists>a. tr = [(PatchInstanceStatus i i', a)] \<and> (a = RErr e \<or> e = badAnswer)"
  "runs (deletePodReq k uid) tr (Inl e) \<Longrightarrow> \<exists>a. tr = [(DeletePod k uid, a)] \<and> (a = RErr e \<or> e = badAnswer)"
  "runs (deleteServiceReq k) tr (Inl e) \<Longrightarrow> \<exists>a. tr = [(DeleteService k, a)] \<and> (a = RErr e \<or> e = badAnswer)"
  by (auto simp: client_calls dest!: answer_err)

lemma badAnswer_simps [simp]: "\<not> isNotFound badAnswer" "\<not> isConflict badAnswer" "\<not> isNoMatch badAnswer"
  by (simp_all add: badAnswer_def)

lemma runs_wrapP_Inr [simp]: "runs (wrapP m p) tr (Inr x) \<longleftrightarrow> runs p tr (Inr x)"
proof -
  have "Inr x = mapErr (Wrapped m) r \<longleftrightarrow> r = Inr x" for r :: "'a result" by (cases r) (auto simp: mapErr_def)
  then show ?thesis by (simp add: runs_wrapP)
qed

section \<open>Which calls a program can make\<close>

definition onlyCalls :: "(request \<Rightarrow> bool) \<Rightarrow> 'a prog \<Rightarrow> bool" where
  "onlyCalls Q p \<longleftrightarrow> (\<forall>tr x. runs p tr x \<longrightarrow> (\<forall>c \<in> set tr. Q (fst c)))"

lemma onlyCallsD: "onlyCalls Q p \<Longrightarrow> runs p tr x \<Longrightarrow> (q, a) \<in> set tr \<Longrightarrow> Q q"
  by (force simp: onlyCalls_def)

lemma onlyCalls_Ret [simp]: "onlyCalls Q (Ret x)"
  by (simp add: onlyCalls_def)

lemma onlyCalls_Call [simp]: "onlyCalls Q (Call q k) \<longleftrightarrow> Q q \<and> (\<forall>a. onlyCalls Q (k a))"
proof
  assume o: "onlyCalls Q (Call q k)"
  have r: "runs (Call q k) ((q, a) # tr) x" if "runs (k a) tr x" for a tr x using that by simp
  have "Q q"
  proof -
    obtain tr x where "runs (k ROk) tr x" using runs_callsOf [of "k ROk" "\<lambda>q. ROk"] by blast
    then show ?thesis using r [of ROk tr x] o by (force simp: onlyCalls_def)
  qed
  moreover have "onlyCalls Q (k a)" for a
    using o r [of a] unfolding onlyCalls_def by (metis list.set_intros(2))
  ultimately show "Q q \<and> (\<forall>a. onlyCalls Q (k a))" by blast
qed (force simp: onlyCalls_def)

lemma onlyCalls_bindP [intro]: "onlyCalls Q p \<Longrightarrow> (\<And>x. onlyCalls Q (f x)) \<Longrightarrow> onlyCalls Q (bindP p f)"
  unfolding onlyCalls_def runs_bindP by (metis Un_iff set_append)

lemma onlyCalls_bindE [intro]: "onlyCalls Q p \<Longrightarrow> (\<And>x. onlyCalls Q (f x)) \<Longrightarrow> onlyCalls Q (bindE p f)"
  unfolding bindE_def by (intro onlyCalls_bindP) (simp_all split: sum.split)

lemma onlyCalls_wrapP [intro]: "onlyCalls Q p \<Longrightarrow> onlyCalls Q (wrapP m p)"
  unfolding wrapP_def by (intro onlyCalls_bindP) simp_all

lemma onlyCalls_ignoreNotFound [intro]: "onlyCalls Q p \<Longrightarrow> onlyCalls Q (ignoreNotFound m p)"
  unfolding ignoreNotFound_def by (intro onlyCalls_bindP) simp_all

lemma onlyCalls_mono: "onlyCalls Q p \<Longrightarrow> (\<And>q. Q q \<Longrightarrow> R q) \<Longrightarrow> onlyCalls R p"
  by (simp add: onlyCalls_def)

lemma onlyCalls_if [intro]: "(b \<Longrightarrow> onlyCalls Q p) \<Longrightarrow> (\<not> b \<Longrightarrow> onlyCalls Q p') \<Longrightarrow> onlyCalls Q (if b then p else p')"
  by simp

lemma onlyCalls_client [simp]:
  "onlyCalls Q (getInstance k) \<longleftrightarrow> Q (GetInstance k)" "onlyCalls Q (getPod k) \<longleftrightarrow> Q (GetPod k)"
  "onlyCalls Q (getService k) \<longleftrightarrow> Q (GetService k)" "onlyCalls Q (getNode n) \<longleftrightarrow> Q (GetNode n)"
  "onlyCalls Q (getInstanceType n) \<longleftrightarrow> Q (GetInstanceType n)" "onlyCalls Q (getLocationObj n) \<longleftrightarrow> Q (GetLocationObj n)"
  "onlyCalls Q (deletePodReq k u) \<longleftrightarrow> Q (DeletePod k u)" "onlyCalls Q (deleteServiceReq k) \<longleftrightarrow> Q (DeleteService k)"
  "onlyCalls Q (updateInstance i) \<longleftrightarrow> Q (UpdateInstance i)" "onlyCalls Q (patchPod p p') \<longleftrightarrow> Q (PatchPod p p')"
  "onlyCalls Q (patchInstanceStatus i i') \<longleftrightarrow> Q (PatchInstanceStatus i i')" "onlyCalls Q (listPods s) \<longleftrightarrow> Q (ListPods s)"
  by (simp_all add: client_calls)

text \<open>A program against a server that is a function of the request.\<close>

lemma answer_bindP: "answer env (bindP p f) = answer env (f (answer env p))"
  by (induction p) simp_all

lemma callsOf_bindP: "callsOf env (bindP p f) = callsOf env p @ callsOf env (f (answer env p))"
  by (induction p) simp_all

lemma answer_bindE: "answer env (bindE p f) = (case answer env p of Inl e \<Rightarrow> Inl e | Inr x \<Rightarrow> answer env (f x))"
  by (simp add: bindE_def answer_bindP split: sum.split)

lemma callsOf_bindE:
  "callsOf env (bindE p f) = callsOf env p @ (case answer env p of Inl e \<Rightarrow> [] | Inr x \<Rightarrow> callsOf env (f x))"
  by (simp add: bindE_def callsOf_bindP split: sum.split)

lemma answer_wrapP: "answer env (wrapP m p) = mapErr (Wrapped m) (answer env p)" "callsOf env (wrapP m p) = callsOf env p"
  by (simp_all add: wrapP_def answer_bindP callsOf_bindP)

lemmas answer_simps = answer_bindP callsOf_bindP answer_bindE callsOf_bindE answer_wrapP

text \<open>How many calls a program makes at most.\<close>

definition maxCalls :: "nat \<Rightarrow> 'a prog \<Rightarrow> bool" where
  "maxCalls n p \<longleftrightarrow> (\<forall>tr x. runs p tr x \<longrightarrow> length tr \<le> n)"

lemma maxCalls_Ret [simp]: "maxCalls n (Ret x)"
  by (simp add: maxCalls_def)

lemma maxCalls_Call [intro]: "(\<And>a. maxCalls n (k a)) \<Longrightarrow> maxCalls (Suc n) (Call q k)"
  unfolding maxCalls_def by force

lemma maxCalls_mono: "maxCalls n p \<Longrightarrow> n \<le> m \<Longrightarrow> maxCalls m p"
  unfolding maxCalls_def by (meson order_trans)

lemma maxCalls_bindP: "maxCalls n p \<Longrightarrow> (\<And>x. maxCalls m (f x)) \<Longrightarrow> maxCalls (n + m) (bindP p f)"
  unfolding maxCalls_def runs_bindP by (metis add_mono length_append)

lemma maxCalls_bindE: "maxCalls n p \<Longrightarrow> (\<And>x. maxCalls m (f x)) \<Longrightarrow> maxCalls (n + m) (bindE p f)"
  unfolding bindE_def by (intro maxCalls_bindP) (simp_all split: sum.split)

lemma maxCalls_wrapP: "maxCalls n p \<Longrightarrow> maxCalls n (wrapP m p)"
  unfolding wrapP_def by (rule maxCalls_bindP [of n p 0, simplified]) simp_all

lemma maxCalls_ignoreNotFound: "maxCalls n p \<Longrightarrow> maxCalls n (ignoreNotFound m p)"
  unfolding ignoreNotFound_def by (rule maxCalls_bindP [of n p 0, simplified]) simp_all

lemma maxCalls_client:
  "maxCalls 1 (getInstance k)" "maxCalls 1 (getPod k)" "maxCalls 1 (getService k)" "maxCalls 1 (getNode n)"
  "maxCalls 1 (getInstanceType n)" "maxCalls 1 (deletePodReq k u)" "maxCalls 1 (deleteServiceReq k)"
  "maxCalls 1 (updateInstance i)" "maxCalls 1 (patchPod p p')" "maxCalls 1 (patchInstanceStatus i i')"
  by (auto simp: client_calls maxCalls_def)

section \<open>CreateOrPatch\<close>

text \<open>
  What \<open>controllerutil.CreateOrPatch\<close> documents, for a kind of object given by its requests:
  the object is read; it is handed to the callback as it was found, or as the caller passed it
  when it does not exist; an error of the callback ends it; a callback that renames the object
  is an error; then the object is created, or patched unless nothing changed, and the caller
  sees what the server answered.
\<close>

record 'o crud =
  cr_obj :: "response \<Rightarrow> 'o result"
  cr_key :: "'o \<Rightarrow> objKey"
  cr_get :: "objKey \<Rightarrow> request"
  cr_create :: "'o \<Rightarrow> request"
  cr_patch :: "'o \<Rightarrow> 'o \<Rightarrow> request"

definition podCrud :: "pod crud" where
  "podCrud = \<lparr>cr_obj = (\<lambda>a. case a of RPod p \<Rightarrow> Inr p | RErr e \<Rightarrow> Inl e | _ \<Rightarrow> Inl badAnswer),
     cr_key = (\<lambda>p. (pod_Namespace p, pod_Name p)), cr_get = GetPod, cr_create = CreatePod, cr_patch = PatchPod\<rparr>"

definition serviceCrud :: "service crud" where
  "serviceCrud = \<lparr>cr_obj = (\<lambda>a. case a of RService s \<Rightarrow> Inr s | RErr e \<Rightarrow> Inl e | _ \<Rightarrow> Inl badAnswer),
     cr_key = (\<lambda>s. (m_Namespace (svc_Meta s), m_Name (svc_Meta s))), cr_get = GetService,
     cr_create = CreateService, cr_patch = PatchService\<rparr>"

definition writeRun ::
  "'o crud \<Rightarrow> 'o option \<Rightarrow> 'o \<Rightarrow> ('o \<Rightarrow> 'o result prog) \<Rightarrow> trace \<Rightarrow> trace \<Rightarrow> 'o result \<Rightarrow> bool" where
  "writeRun C found new f trf trw r \<longleftrightarrow>
     (\<exists>m. runs (f (case found of Some ob \<Rightarrow> ob | None \<Rightarrow> new)) trf m \<and>
       (case m of
          Inl e \<Rightarrow> trw = [] \<and> r = Inl e
        | Inr ob' \<Rightarrow>
            if cr_key C ob' \<noteq> cr_key C new then trw = [] \<and> (\<exists>e. r = Inl e)
            else (found = Some ob' \<and> trw = [] \<and> r = Inr ob') \<or>
                 (\<exists>b. trw = [(case found of Some ob \<Rightarrow> cr_patch C ob ob' | None \<Rightarrow> cr_create C ob', b)] \<and> r = cr_obj C b)))"

definition createOrPatchRun ::
  "'o crud \<Rightarrow> 'o \<Rightarrow> ('o \<Rightarrow> 'o result prog) \<Rightarrow> trace \<Rightarrow> 'o result \<Rightarrow> bool" where
  "createOrPatchRun C new f tr r \<longleftrightarrow>
     (\<exists>a trf trw. tr = (cr_get C (cr_key C new), a) # trf @ trw \<and>
       (case cr_obj C a of
          Inl e \<Rightarrow> if isNotFound e then writeRun C None new f trf trw r else trf = [] \<and> trw = [] \<and> r = Inl e
        | Inr ob \<Rightarrow> writeRun C (Some ob) new f trf trw r))"

lemma createOrPatchRun_calls:
  assumes "createOrPatchRun C new f tr r" "(q, a) \<in> set tr"
  obtains (get) "q = cr_get C (cr_key C new)"
    | (callback) ob tr' m where "runs (f ob) tr' m" "(q, a) \<in> set tr'"
    | (create) ob' tr' where "runs (f new) tr' (Inr ob')" "q = cr_create C ob'"
    | (patch) b ob ob' tr' where "(cr_get C (cr_key C new), b) \<in> set tr" "cr_obj C b = Inr ob"
        "runs (f ob) tr' (Inr ob')" "q = cr_patch C ob ob'"
proof -
  obtain b trf trw where tr: "tr = (cr_get C (cr_key C new), b) # trf @ trw"
    and w: "case cr_obj C b of
          Inl e \<Rightarrow> if isNotFound e then writeRun C None new f trf trw r else trf = [] \<and> trw = [] \<and> r = Inl e
        | Inr ob \<Rightarrow> writeRun C (Some ob) new f trf trw r"
    using assms(1) unfolding createOrPatchRun_def by blast
  consider "q = cr_get C (cr_key C new)" | (in_f) "(q, a) \<in> set trf" | (in_w) "(q, a) \<in> set trw"
    using assms(2) tr by auto
  then show thesis
  proof cases
    case 1
    then show thesis by (rule get)
  next
    case in_f
    then show thesis using w callback by (cases "cr_obj C b") (auto simp: writeRun_def split: if_splits)
  next
    case in_w
    show thesis
    proof (cases "cr_obj C b")
      case (Inl e)
      then show thesis using w in_w create by (auto simp: writeRun_def split: if_splits sum.splits)
    next
      case (Inr ob)
      then show thesis using w in_w patch [of b ob] tr by (auto simp: writeRun_def split: if_splits sum.splits)
    qed
  qed
qed

lemma createOrPatchRun_length:
  assumes "createOrPatchRun C new f tr r" "\<And>ob. maxCalls n (f ob)"
  shows "length tr \<le> n + 2"
proof -
  have w: "length trf \<le> n \<and> length trw \<le> 1" if "writeRun C found new f trf trw r" for found trf trw
    using that assms(2) by (fastforce simp: writeRun_def maxCalls_def split: if_splits sum.splits)
  obtain b trf trw where tr: "tr = (cr_get C (cr_key C new), b) # trf @ trw"
    and "case cr_obj C b of
          Inl e \<Rightarrow> if isNotFound e then writeRun C None new f trf trw r else trf = [] \<and> trw = [] \<and> r = Inl e
        | Inr ob \<Rightarrow> writeRun C (Some ob) new f trf trw r"
    using assms(1) unfolding createOrPatchRun_def by blast
  then have "length trf \<le> n \<and> length trw \<le> 1"
    using w by (cases "cr_obj C b") (auto split: if_splits)
  then show ?thesis using tr by simp
qed

section \<open>The libraries\<close>

text \<open>
  The functions of controllerutil (finalizers, owner reference, CreateOrPatch), of api/meta (conditions) and of
  resource (quantities), and the constants of go.datum.net/compute the sources name.
\<close>

record kubeLib =
  kl_ContainsFinalizer :: "string list \<Rightarrow> string \<Rightarrow> bool"
  kl_AddFinalizer :: "string list \<Rightarrow> string \<Rightarrow> string list"
  kl_RemoveFinalizer :: "string list \<Rightarrow> string \<Rightarrow> string list"
  kl_SetControllerReference :: "objectMeta \<Rightarrow> objectMeta \<Rightarrow> objectMeta result"
  kl_CreateOrPatchPod :: "pod \<Rightarrow> (pod \<Rightarrow> pod result prog) \<Rightarrow> pod result prog"
  kl_CreateOrPatchService :: "service \<Rightarrow> (service \<Rightarrow> service result prog) \<Rightarrow> service result prog"
  kl_SetStatusCondition :: "condition list \<Rightarrow> condition \<Rightarrow> bool \<times> condition list"
  kl_NewQuantity :: "int \<Rightarrow> quantity"
  kl_NewMilliQuantity :: "int \<Rightarrow> quantity"
  kl_zeroQuantity :: quantity
  kl_WorkloadUIDLabel :: string
  kl_WorkloadDeploymentUIDLabel :: string
  kl_WorkloadDeploymentNameLabel :: string
  kl_WorkloadNameLabel :: string
  kl_PlacementNameLabel :: string
  kl_LocationLabel :: string
  kl_InstanceIndexLabel :: string
  kl_InstanceAvailable :: string
  kl_InstanceProgrammed :: string
  kl_ReasonAvailable :: string
  kl_ReasonStopping :: string
  kl_ReasonProgrammed :: string
  kl_ReasonProgrammingInProgress :: string
  kl_ReasonImageUnavailable :: string
  kl_ReasonInstanceCrashing :: string
  kl_ReasonConfigurationError :: string

text \<open>The first condition of a type, as \<open>meta.FindStatusCondition\<close>.\<close>

definition findCondition :: "condition list \<Rightarrow> string \<Rightarrow> condition option" where
  "findCondition cs t = List.find (\<lambda>c. cond_Type c = t) cs"

locale kube_lib =
  fixes L :: kubeLib
  assumes contains_finalizer: "kl_ContainsFinalizer L fs f \<longleftrightarrow> f \<in> set fs"
    and add_finalizer: "set (kl_AddFinalizer L fs f) = insert f (set fs)"
    and remove_finalizer: "set (kl_RemoveFinalizer L fs f) = set fs - {f}"
    and owner_frame: "kl_SetControllerReference L own m = Inr m' \<Longrightarrow>
      m' = m\<lparr>m_Owner := Some (m_UID own)\<rparr>"
    and create_or_patch_pod: "runs (kl_CreateOrPatchPod L p mutate) tr rp \<Longrightarrow> createOrPatchRun podCrud p mutate tr rp"
    and create_or_patch_service: "runs (kl_CreateOrPatchService L s mutateS) tr rs \<Longrightarrow> createOrPatchRun serviceCrud s mutateS tr rs"
    and set_condition: "kl_SetStatusCondition L cs c = (changed, cs') \<Longrightarrow>
      findCondition cs' (cond_Type c) = Some c \<and>
      (\<forall>t. t \<noteq> cond_Type c \<longrightarrow> findCondition cs' t = findCondition cs t)"
    and set_condition_unchanged: "kl_SetStatusCondition L cs c = (False, cs') \<Longrightarrow> cs' = cs"
    and set_condition_same: "findCondition cs (cond_Type c) = Some c \<Longrightarrow> kl_SetStatusCondition L cs c = (False, cs)"
    and quantity_value: "q_Value (kl_NewQuantity L n) = n" "q_IsZero (kl_NewQuantity L n) \<longleftrightarrow> n = 0"
    and quantity_milli: "q_MilliValue (kl_NewMilliQuantity L n) = n" "q_IsZero (kl_NewMilliQuantity L n) \<longleftrightarrow> n = 0"
    and quantity_zero: "q_IsZero (kl_zeroQuantity L)" "q_Value (kl_zeroQuantity L) = 0"
      "q_MilliValue (kl_zeroQuantity L) = 0"
    and types_distinct: "kl_InstanceAvailable L \<noteq> kl_InstanceProgrammed L"
begin

lemma removed_finalizer: "\<not> kl_ContainsFinalizer L (kl_RemoveFinalizer L fs f) f"
  by (simp add: contains_finalizer remove_finalizer)

lemma added_finalizer: "kl_ContainsFinalizer L (kl_AddFinalizer L fs f) f"
  by (simp add: contains_finalizer add_finalizer)

text \<open>Setting the two conditions of this provider leaves those of the others alone.\<close>

lemma set_two_conditions:
  assumes "kl_SetStatusCondition L cs a = (x, cs1)" "kl_SetStatusCondition L cs1 b = (y, cs2)"
    and "cond_Type a \<noteq> cond_Type b"
  shows "findCondition cs2 (cond_Type a) = Some a" "findCondition cs2 (cond_Type b) = Some b"
    "t \<noteq> cond_Type a \<Longrightarrow> t \<noteq> cond_Type b \<Longrightarrow> findCondition cs2 t = findCondition cs t"
  using set_condition [OF assms(1)] set_condition [OF assms(2)] assms(3) by auto

end

section \<open>A standard library\<close>

text \<open>Functions that satisfy the laws, for the inputs the witnesses evaluate on.\<close>

fun stdSetCondition :: "condition list \<Rightarrow> condition \<Rightarrow> bool \<times> condition list" where
  "stdSetCondition [] c = (True, [c])"
| "stdSetCondition (d # ds) c =
     (if cond_Type d = cond_Type c then (d \<noteq> c, c # ds)
      else (let (ch, ds') = stdSetCondition ds c in (ch, d # ds')))"

definition stdWrite :: "'o crud \<Rightarrow> 'o option \<Rightarrow> 'o \<Rightarrow> ('o \<Rightarrow> 'o result prog) \<Rightarrow> 'o result prog" where
  "stdWrite C found new f =
     bindE (f (case found of Some ob \<Rightarrow> ob | None \<Rightarrow> new))
       (\<lambda>ob'. if cr_key C ob' \<noteq> cr_key C new then Ret (Inl (Msg ''MutateFn cannot mutate object name and/or object namespace''))
              else Call (case found of Some ob \<Rightarrow> cr_patch C ob ob' | None \<Rightarrow> cr_create C ob')
                     (\<lambda>b. Ret (cr_obj C b)))"

definition stdCreateOrPatch :: "'o crud \<Rightarrow> 'o \<Rightarrow> ('o \<Rightarrow> 'o result prog) \<Rightarrow> 'o result prog" where
  "stdCreateOrPatch C new f =
     Call (cr_get C (cr_key C new))
       (\<lambda>a. case cr_obj C a of
              Inl e \<Rightarrow> if isNotFound e then stdWrite C None new f else Ret (Inl e)
            | Inr ob \<Rightarrow> stdWrite C (Some ob) new f)"

definition stdLib :: kubeLib where
  "stdLib =
     \<lparr>kl_ContainsFinalizer = (\<lambda>fs f. f \<in> set fs),
      kl_AddFinalizer = (\<lambda>fs f. if f \<in> set fs then fs else fs @ [f]),
      kl_RemoveFinalizer = (\<lambda>fs f. filter (\<lambda>g. g \<noteq> f) fs),
      kl_SetControllerReference = (\<lambda>own m. Inr (m\<lparr>m_Owner := Some (m_UID own)\<rparr>)),
      kl_CreateOrPatchPod = stdCreateOrPatch podCrud,
      kl_CreateOrPatchService = stdCreateOrPatch serviceCrud,
      kl_SetStatusCondition = stdSetCondition,
      kl_NewQuantity = (\<lambda>n. \<lparr>q_IsZero = (n = 0), q_Value = n, q_MilliValue = n * 1000\<rparr>),
      kl_NewMilliQuantity = (\<lambda>n. \<lparr>q_IsZero = (n = 0), q_Value = - (- n div 1000), q_MilliValue = n\<rparr>),
      kl_zeroQuantity = \<lparr>q_IsZero = True, q_Value = 0, q_MilliValue = 0\<rparr>,
      kl_WorkloadUIDLabel = ''workload-uid'', kl_WorkloadDeploymentUIDLabel = ''deployment-uid'',
      kl_WorkloadDeploymentNameLabel = ''deployment-name'', kl_WorkloadNameLabel = ''workload-name'',
      kl_PlacementNameLabel = ''placement-name'', kl_LocationLabel = ''location'',
      kl_InstanceIndexLabel = ''instance-index'',
      kl_InstanceAvailable = ''Available'', kl_InstanceProgrammed = ''Programmed'',
      kl_ReasonAvailable = ''Available'', kl_ReasonStopping = ''Stopping'',
      kl_ReasonProgrammed = ''Programmed'', kl_ReasonProgrammingInProgress = ''ProgrammingInProgress'',
      kl_ReasonImageUnavailable = ''ImageUnavailable'', kl_ReasonInstanceCrashing = ''InstanceCrashing'',
      kl_ReasonConfigurationError = ''ConfigurationError''\<rparr>"

lemma stdSetCondition_find:
  "stdSetCondition cs c = (ch, cs') \<Longrightarrow>
   findCondition cs' (cond_Type c) = Some c \<and> (\<forall>t. t \<noteq> cond_Type c \<longrightarrow> findCondition cs' t = findCondition cs t)"
  by (induction cs arbitrary: ch cs') (auto simp: findCondition_def split: if_splits prod.splits)

lemma stdSetCondition_same: "findCondition cs (cond_Type c) = Some c \<Longrightarrow> stdSetCondition cs c = (False, cs)"
  by (induction cs) (auto simp: findCondition_def split: if_splits)

lemma stdSetCondition_unchanged: "stdSetCondition cs c = (False, cs') \<Longrightarrow> cs' = cs"
  by (induction cs arbitrary: cs') (auto split: if_splits prod.splits)

lemma stdWrite_run:
  assumes "runs (stdWrite C found new f) tr r"
  shows "\<exists>trf trw. tr = trf @ trw \<and> writeRun C found new f trf trw r"
proof -
  from assms consider
      (err) e where "runs (f (case found of Some ob \<Rightarrow> ob | None \<Rightarrow> new)) tr (Inl e)" "r = Inl e"
    | (ok) trf trw ob' where "tr = trf @ trw" "runs (f (case found of Some ob \<Rightarrow> ob | None \<Rightarrow> new)) trf (Inr ob')"
        "runs (if cr_key C ob' \<noteq> cr_key C new then Ret (Inl (Msg ''MutateFn cannot mutate object name and/or object namespace''))
              else Call (case found of Some ob \<Rightarrow> cr_patch C ob ob' | None \<Rightarrow> cr_create C ob')
                     (\<lambda>b. Ret (cr_obj C b))) trw r"
    unfolding stdWrite_def runs_bindE by blast
  then show ?thesis
  proof cases
    case err
    then show ?thesis by (intro exI [of _ tr] exI [of _ "[]"]) (auto simp: writeRun_def intro: exI [of _ "Inl e"])
  next
    case ok
    then show ?thesis
      by (intro exI [of _ trf] exI [of _ trw]) (auto simp: writeRun_def split: if_splits intro!: exI [of _ "Inr ob'"])
  qed
qed

lemma stdCreateOrPatch_run:
  assumes "runs (stdCreateOrPatch C new f) tr r"
  shows "createOrPatchRun C new f tr r"
proof -
  obtain a tr' where tr: "tr = (cr_get C (cr_key C new), a) # tr'"
    and k: "runs (case cr_obj C a of Inl e \<Rightarrow> if isNotFound e then stdWrite C None new f else Ret (Inl e)
            | Inr ob \<Rightarrow> stdWrite C (Some ob) new f) tr' r"
    using assms unfolding stdCreateOrPatch_def by auto
  show ?thesis
  proof (cases "cr_obj C a")
    case (Inl e)
    then show ?thesis
      using tr k stdWrite_run [of C None new f tr' r] by (cases "isNotFound e") (auto simp: createOrPatchRun_def split: sum.split dest: sym)
  next
    case (Inr ob)
    then show ?thesis
      using tr k stdWrite_run [of C "Some ob" new f tr' r] by (auto simp: createOrPatchRun_def)
  qed
qed

interpretation std: kube_lib stdLib
proof unfold_locales
  show "createOrPatchRun podCrud p f tr r" if "runs (kl_CreateOrPatchPod stdLib p f) tr r" for p f tr r
    using that by (simp add: stdLib_def stdCreateOrPatch_run)
  show "createOrPatchRun serviceCrud s g tr r" if "runs (kl_CreateOrPatchService stdLib s g) tr r" for s g tr r
    using that by (simp add: stdLib_def stdCreateOrPatch_run)
  show "findCondition cs' (cond_Type c) = Some c \<and> (\<forall>t. t \<noteq> cond_Type c \<longrightarrow> findCondition cs' t = findCondition cs t)"
    if "kl_SetStatusCondition stdLib cs c = (changed, cs')" for cs c changed cs'
    using that by (simp add: stdLib_def stdSetCondition_find)
  show "kl_SetStatusCondition stdLib cs c = (False, cs)" if "findCondition cs (cond_Type c) = Some c" for cs c
    using that by (simp add: stdLib_def stdSetCondition_same)
  show "cs' = cs" if "kl_SetStatusCondition stdLib cs c = (False, cs')" for cs c cs'
    using that by (simp add: stdLib_def stdSetCondition_unchanged)
qed (auto simp: stdLib_def)

end
