(* ===== verification/Instance_Mapper.thy ===== *)
theory Instance_Mapper
  imports Client
begin

text \<open>
  src/internal/controller/instancetype_catalog.go and instance_mapper.go: the sizing of a
  container (explicit limits, published InstanceType, fallback catalog, legacy default), and
  the translation of container states into reasons and messages of the Instance.
\<close>

section \<open>The catalog\<close>

definition d1Standard2InstanceType :: string where
  "d1Standard2InstanceType = ''datumcloud-d1-standard-2''"

definition legacyD1Standard2InstanceType :: string where
  "legacyD1Standard2InstanceType = ''datumcloud/d1-standard-2''"

definition instanceTypeAliases :: "(string, string) gomap" where
  "instanceTypeAliases = [(legacyD1Standard2InstanceType, d1Standard2InstanceType)]"

record instanceTypeSizing =
  sz_cpuMillicores :: int
  sz_memoryMiB :: int

definition hardcodedInstanceTypeCatalog :: "(string, instanceTypeSizing) gomap" where
  "hardcodedInstanceTypeCatalog =
     [(d1Standard2InstanceType, \<lparr>sz_cpuMillicores = 1000, sz_memoryMiB = 2048\<rparr>)]"

definition canonicalInstanceTypeName :: "string \<Rightarrow> string" where
  "canonicalInstanceTypeName name =
     (case map_of instanceTypeAliases name of Some canonical \<Rightarrow> canonical | None \<Rightarrow> name)"

definition lookupHardcodedInstanceType :: "string \<Rightarrow> instanceTypeSizing option" where
  "lookupHardcodedInstanceType name =
     map_of hardcodedInstanceTypeCatalog (canonicalInstanceTypeName name)"

section \<open>Quoting\<close>

text \<open>
  \<open>strconv.Quote\<close> (and \<open>%q\<close>) of text in ASCII, which object names and image references are;
  bytes from 0x80 up are copied.
\<close>

definition hexDigitLower :: "nat \<Rightarrow> char" where
  "hexDigitLower d = (if d < 10 then char_of (48 + d) else char_of (87 + d))"

definition quoteByte :: "char \<Rightarrow> string" where
  "quoteByte c =
     (if c = CHR 0x22 \<or> c = CHR 0x5C then [CHR 0x5C, c]
      else if c = CHR 0x07 then [CHR 0x5C, CHR ''a'']
      else if c = CHR 0x08 then [CHR 0x5C, CHR ''b'']
      else if c = CHR 0x0C then [CHR 0x5C, CHR ''f'']
      else if c = CHR 0x0A then [CHR 0x5C, CHR ''n'']
      else if c = CHR 0x0D then [CHR 0x5C, CHR ''r'']
      else if c = CHR 0x09 then [CHR 0x5C, CHR ''t'']
      else if c = CHR 0x0B then [CHR 0x5C, CHR ''v'']
      else if (of_char c :: nat) < 32 \<or> c = CHR 0x7F
      then [CHR 0x5C, CHR ''x'', hexDigitLower (of_char c div 16), hexDigitLower (of_char c mod 16)]
      else [c])"

definition quoteGo :: "string \<Rightarrow> string" where
  "quoteGo s = [CHR 0x22] @ concat (map quoteByte s) @ [CHR 0x22]"

section \<open>Sizing\<close>

definition defaultInstanceMemoryMB :: int where "defaultInstanceMemoryMB = 1024"

definition bytesToRoundedMiB :: "int \<Rightarrow> int" where
  "bytesToRoundedMiB bytes = quot (wrap64 (wrap64 (bytes + 1024 * 1024) - 1)) (1024 * 1024)"

text \<open>An \<open>instanceTypeReader\<close>; nil is \<open>None\<close>, a type that is not found \<open>Inr None\<close>.\<close>

type_synonym instanceTypeReader = "string \<Rightarrow> instanceTypeObj option result prog"

definition instanceTypeReaderFromClient :: instanceTypeReader where
  "instanceTypeReaderFromClient name =
     bindP (getInstanceType name)
       (\<lambda>r. Ret (case r of
                   Inl err \<Rightarrow> if isNotFound err \<or> isNoMatch err then Inr None else Inl err
                 | Inr t \<Rightarrow> Inr (Some t)))"

text \<open>The explicit limits of the container, 0 when a dimension has none.\<close>

definition explicitLimits :: "sandboxContainer option \<Rightarrow> int \<times> int" where
  "explicitLimits container =
     (case container of
        None \<Rightarrow> (0, 0)
      | Some c \<Rightarrow>
          (case sc_Limits c of
             None \<Rightarrow> (0, 0)
           | Some limits \<Rightarrow>
               ((case map_of limits resourceCPU of
                   Some cpu \<Rightarrow> if q_IsZero cpu then 0 else q_MilliValue cpu | None \<Rightarrow> 0),
                (case map_of limits resourceMemory of
                   Some mem \<Rightarrow> if q_IsZero mem then 0 else bytesToRoundedMiB (q_Value mem) | None \<Rightarrow> 0))))"

text \<open>The published type: CPU, memory and whether it resolved; no type leaves zeros.\<close>

definition typeSizing :: "instanceTypeObj option \<Rightarrow> int \<times> int \<times> bool" where
  "typeSizing t =
     (case t of
        None \<Rightarrow> (0, 0, False)
      | Some t \<Rightarrow>
          (let cpu = q_MilliValue (it_CPU t); mem = bytesToRoundedMiB (q_Value (it_Memory t))
           in (cpu, mem, cpu > 0 \<and> mem > 0)))"

definition publishedSizing ::
  "instanceObj option \<Rightarrow> instanceTypeReader option \<Rightarrow> (int \<times> int \<times> bool) result prog" where
  "publishedSizing inst reader =
     (case (reader, inst) of
        (Some read, Some i) \<Rightarrow>
          if in_InstanceType i \<noteq> '''' then
            bindE (wrapP (''reading InstanceType '' @ quoteGo (in_InstanceType i))
                     (read (canonicalInstanceTypeName (in_InstanceType i))))
              (\<lambda>t. Ret (Inr (typeSizing t)))
          else Ret (Inr (0, 0, False))
      | _ \<Rightarrow> Ret (Inr (0, 0, False)))"

text \<open>The fallback catalog, consulted when the published type did not resolve.\<close>

definition fallbackSizing :: "instanceObj option \<Rightarrow> int \<times> int \<times> bool \<Rightarrow> (int \<times> int \<times> bool) result" where
  "fallbackSizing inst published =
     (let (cpu, mem, resolved) = published
      in if resolved then Inr published
         else (case inst of
                 None \<Rightarrow> Inr published
               | Some i \<Rightarrow>
                   if in_InstanceType i = '''' then Inr published
                   else (case lookupHardcodedInstanceType (in_InstanceType i) of
                           Some sizing \<Rightarrow> Inr (sz_cpuMillicores sizing, sz_memoryMiB sizing, True)
                         | None \<Rightarrow> Inl (Msg (''instance type '' @ quoteGo (in_InstanceType i) @
                             '' not found in published or fallback catalog'')))))"

text \<open>The merge: an explicit limit wins, the catalog fills gaps, memory has a default.\<close>

definition mergeResources :: "int \<Rightarrow> int \<Rightarrow> int \<times> int \<times> bool \<Rightarrow> int \<times> int" where
  "mergeResources explicitCPU explicitMem catalog =
     (let (catalogCPU, catalogMem, resolved) = catalog;
          resolvedCPU = (if explicitCPU = 0 then catalogCPU else explicitCPU);
          resolvedMem = (if explicitMem = 0
                         then (if resolved then catalogMem else defaultInstanceMemoryMB)
                         else explicitMem)
      in (resolvedCPU, resolvedMem))"

definition resolveContainerResources ::
  "instanceObj option \<Rightarrow> sandboxContainer option \<Rightarrow> instanceTypeReader option \<Rightarrow> (int \<times> int) result prog" where
  "resolveContainerResources inst container reader =
     (let (explicitCPU, explicitMem) = explicitLimits container
      in if explicitCPU > 0 \<and> explicitMem > 0 then Ret (Inr (explicitCPU, explicitMem))
         else bindE (publishedSizing inst reader)
           (\<lambda>published. bindE (Ret (fallbackSizing inst published))
             (\<lambda>catalog. Ret (Inr (mergeResources explicitCPU explicitMem catalog)))))"

section \<open>Reasons and messages\<close>

definition translateWaitingReason :: "string \<Rightarrow> string \<times> string" where
  "translateWaitingReason k8sReason =
     (if k8sReason \<in> {''ImagePullBackOff'', ''ErrImagePull'', ''ImageInspectError'',
                      ''InvalidImageName'', ''RegistryUnavailable''}
      then (''ImageUnavailable'', ''The instance image could not be pulled'')
      else if k8sReason = ''CrashLoopBackOff''
      then (''InstanceCrashing'', ''The instance is repeatedly failing to start'')
      else if k8sReason \<in> {''CreateContainerError'', ''CreateContainerConfigError''}
      then (''ConfigurationError'', ''The instance could not be started due to a configuration error'')
      else (''Provisioning'', ''Instance is provisioning''))"

definition runtimeImagePullFailed :: string where "runtimeImagePullFailed = ''image pull failed''"

text \<open>The image of the last container with that name, else the status' own.\<close>

definition imageOf :: "sandboxContainer list \<Rightarrow> containerStatus \<Rightarrow> string" where
  "imageOf cs st = fold (\<lambda>c image. if sc_Name c = cs_Name st then sc_Image c else image) cs (cs_Image st)"

definition imagePullFailure :: "instanceObj \<Rightarrow> containerStatus \<Rightarrow> string" where
  "imagePullFailure inst cs =
     (let image = (case in_Sandbox inst of None \<Rightarrow> cs_Image cs | Some sb \<Rightarrow> imageOf (sb_Containers sb) cs);
          secrets = (case in_Sandbox inst of None \<Rightarrow> [] | Some sb \<Rightarrow> map quoteGo (sb_ImagePullSecrets sb));
          message = ''Image '' @ quoteGo image @ '' for container '' @ quoteGo (cs_Name cs) @ '' could not be pulled''
      in if secrets = [] then message @ '' anonymously''
         else message @ '' using credentials from '' @ joinWith '', '' secrets)"

text \<open>The first container that is failing to start: reason and message.\<close>

fun startFailureIn :: "kubeLib \<Rightarrow> instanceObj \<Rightarrow> containerStatus list \<Rightarrow> (string \<times> string) option" where
  "startFailureIn L inst [] = None"
| "startFailureIn L inst (cs # css) =
     (if (case cs_Terminated cs of Some t \<Rightarrow> contains (tm_Message t) runtimeImagePullFailed | None \<Rightarrow> False)
      then Some (kl_ReasonImageUnavailable L, imagePullFailure inst cs)
      else (case cs_Waiting cs of
              None \<Rightarrow> startFailureIn L inst css
            | Some w \<Rightarrow>
                (let reason = fst (translateWaitingReason (wt_Reason w))
                 in if reason = kl_ReasonImageUnavailable L then Some (reason, imagePullFailure inst cs)
                    else if reason = kl_ReasonInstanceCrashing L
                    then Some (reason,
                      ''Container '' @ quoteGo (cs_Name cs) @ '' keeps exiting'' @
                      (case cs_LastTerminated cs of
                         Some t \<Rightarrow> '' (last exit code '' @ formatInt (tm_ExitCode t) @ '')''
                       | None \<Rightarrow> '''') @ ''; restarting'')
                    else if reason = kl_ReasonConfigurationError L
                    then Some (reason,
                      ''Container '' @ quoteGo (cs_Name cs) @
                      '' could not be started due to a configuration error; retrying'')
                    else startFailureIn L inst css)))"

definition containerStartFailure :: "kubeLib \<Rightarrow> instanceObj \<Rightarrow> pod \<Rightarrow> (string \<times> string) option" where
  "containerStartFailure L inst p = startFailureIn L inst (pod_ContainerStatuses p)"

section \<open>Lemmas\<close>

lemma bytesToRoundedMiB_exact:
  assumes "0 \<le> b" "b \<le> maxInt64 - 1048575"
  shows "bytesToRoundedMiB b = (b + 1048575) div 1048576"
proof -
  have "wrap64 (wrap64 (b + 1048576) - 1) = wrap64 (b + 1048575)"
    using wrap64_wrap64_add [of "b + 1048576" "- 1"] by (simp add: add.commute)
  also have "\<dots> = b + 1048575" using assms by (intro wrap64_id) (simp add: int64_def)
  finally show ?thesis using assms by (simp add: bytesToRoundedMiB_def quot_nonneg)
qed

definition sized :: "instanceObj \<Rightarrow> int \<Rightarrow> int \<Rightarrow> instanceTypeObj option \<Rightarrow> (int \<times> int) result" where
  "sized i ec em t = map_sum id (mergeResources ec em) (fallbackSizing (Some i) (typeSizing t))"

text \<open>A sizing that needs the catalog is one Get of the type and a function of its answer.\<close>

lemma resolve_typed:
  assumes "in_InstanceType i \<noteq> ''''" "explicitLimits c = (ec, em)" "\<not> (ec > 0 \<and> em > 0)"
  shows "resolveContainerResources (Some i) c (Some instanceTypeReaderFromClient) =
    Call (GetInstanceType (canonicalInstanceTypeName (in_InstanceType i)))
      (\<lambda>a. Ret (case a of RInstanceType t \<Rightarrow> sized i ec em (Some t)
            | RErr e \<Rightarrow> if isNotFound e \<or> isNoMatch e then sized i ec em None
                        else Inl (Wrapped (''reading InstanceType '' @ quoteGo (in_InstanceType i)) e)
            | _ \<Rightarrow> Inl (Wrapped (''reading InstanceType '' @ quoteGo (in_InstanceType i)) badAnswer)))"
proof -
  let ?m = "''reading InstanceType '' @ quoteGo (in_InstanceType i)"
  let ?k = "\<lambda>published. bindE (Ret (fallbackSizing (Some i) published))
             (\<lambda>catalog. Ret (Inr (mergeResources ec em catalog)))"
  have k: "?k (typeSizing t) = Ret (sized i ec em t)" for t
    by (cases "fallbackSizing (Some i) (typeSizing t)") (simp_all add: sized_def bindE_def)
  have r: "resolveContainerResources (Some i) c (Some instanceTypeReaderFromClient) =
      bindE (bindE (wrapP ?m (instanceTypeReaderFromClient (canonicalInstanceTypeName (in_InstanceType i))))
               (\<lambda>t. Ret (Inr (typeSizing t)))) ?k"
    using assms by (auto simp: resolveContainerResources_def publishedSizing_def)
  have nb: "\<not> isNotFound badAnswer" "\<not> isNoMatch badAnswer" by (simp_all add: badAnswer_def)
  show ?thesis
    unfolding r instanceTypeReaderFromClient_def getInstanceType_def
    by (simp only: bindP.simps bindE_simps wrapP_simps, intro Call_eqI) (simp add: k nb split: response.split)
qed

section \<open>Properties\<close>

text \<open>
  C33. Memory is never under-sized by rounding: for every size up to the last mebibyte of the
  int64 range the result is the smallest number of mebibytes that holds the bytes.
\<close>

theorem bytesToRoundedMiB_ceiling:
  assumes "0 \<le> b" "b \<le> maxInt64 - 1048575"
  shows "b \<le> bytesToRoundedMiB b * 1048576 \<and> (bytesToRoundedMiB b - 1) * 1048576 < b"
proof -
  let ?q = "(b + 1048575) div 1048576" and ?r = "(b + 1048575) mod 1048576"
  have "?q * 1048576 + ?r = b + 1048575" "0 \<le> ?r" "?r < 1048576" by simp_all
  moreover have "(?q - 1) * 1048576 = ?q * 1048576 - 1048576" by (simp add: left_diff_distrib)
  ultimately show ?thesis unfolding bytesToRoundedMiB_exact [OF assms] by (intro conjI) linarith+
qed

theorem bytesToRoundedMiB_ceiling_witness:
  "1000000000 \<le> bytesToRoundedMiB 1000000000 * 1048576"
  using bytesToRoundedMiB_ceiling [of 1000000000] by simp

text \<open>
  Close to the top of the int64 range the rounding overflows: the size of a container with
  a memory limit in the last mebibyte comes out negative.
\<close>

theorem bytesToRoundedMiB_overflow:
  assumes "maxInt64 - 1048575 < b" "b \<le> maxInt64"
  shows "bytesToRoundedMiB b < 0"
proof -
  let ?x = "b + 1048575 - 2 ^ 64"
  have "wrap64 (wrap64 (b + 1048576) - 1) = wrap64 (b + 1048575)"
    using wrap64_wrap64_add [of "b + 1048576" "- 1"] by (simp add: add.commute)
  also have "\<dots> = wrap64 ?x" by (rule wrap64_minus [symmetric])
  also have "\<dots> = ?x" using assms by (intro wrap64_id) (simp add: int64_def)
  finally have e: "bytesToRoundedMiB b = quot ?x 1048576" by (simp add: bytesToRoundedMiB_def)
  have "?x < 0" "1048576 \<le> \<bar>?x\<bar>" using assms by auto
  then have "0 < \<bar>?x\<bar> div 1048576" by (simp add: pos_imp_zdiv_pos_iff)
  then show ?thesis using e \<open>?x < 0\<close> by (simp add: quot_def)
qed

theorem bytesToRoundedMiB_overflow_witness: "bytesToRoundedMiB maxInt64 < 0"
  using bytesToRoundedMiB_overflow [of maxInt64] by simp

text \<open>
  C22. The Pod runs at the size that was billed: with both limits explicit nothing is read; else
  the type is read once, under its canonical name. A valid published type gives each dimension
  without an explicit limit; a type that is not published (or a cluster without the kind) falls
  back to the built-in catalog, and is an error if that does not know it; every other failure
  of the read is an error, never a smaller size.
\<close>

theorem sizing_precedence:
  assumes "in_InstanceType i \<noteq> ''''" "explicitLimits c = (ec, em)"
    and "runs (resolveContainerResources (Some i) c (Some instanceTypeReaderFromClient)) tr r"
  shows "(ec > 0 \<and> em > 0 \<longrightarrow> tr = [] \<and> r = Inr (ec, em)) \<and>
    (\<not> (ec > 0 \<and> em > 0) \<longrightarrow>
      (\<exists>a. tr = [(GetInstanceType (canonicalInstanceTypeName (in_InstanceType i)), a)] \<and>
        (\<forall>t. a = RInstanceType t \<longrightarrow> 0 < q_MilliValue (it_CPU t) \<longrightarrow> 0 < bytesToRoundedMiB (q_Value (it_Memory t)) \<longrightarrow>
           r = Inr (if ec = 0 then q_MilliValue (it_CPU t) else ec,
                    if em = 0 then bytesToRoundedMiB (q_Value (it_Memory t)) else em)) \<and>
        (\<forall>e. a = RErr e \<longrightarrow> isNotFound e \<or> isNoMatch e \<longrightarrow>
           (case lookupHardcodedInstanceType (in_InstanceType i) of
              Some z \<Rightarrow> r = Inr (if ec = 0 then sz_cpuMillicores z else ec, if em = 0 then sz_memoryMiB z else em)
            | None \<Rightarrow> \<exists>m. r = Inl (Msg m))) \<and>
        (\<forall>e. a = RErr e \<longrightarrow> \<not> isNotFound e \<longrightarrow> \<not> isNoMatch e \<longrightarrow> (\<exists>m. r = Inl (Wrapped m e)))))"
proof (cases "ec > 0 \<and> em > 0")
  case True
  then show ?thesis using assms(2,3) by (simp add: resolveContainerResources_def)
next
  case False
  obtain a where a: "tr = [(GetInstanceType (canonicalInstanceTypeName (in_InstanceType i)), a)]"
      "r = (case a of RInstanceType t \<Rightarrow> sized i ec em (Some t)
            | RErr e \<Rightarrow> if isNotFound e \<or> isNoMatch e then sized i ec em None
                        else Inl (Wrapped (''reading InstanceType '' @ quoteGo (in_InstanceType i)) e)
            | _ \<Rightarrow> Inl (Wrapped (''reading InstanceType '' @ quoteGo (in_InstanceType i)) badAnswer))"
    using assms(3) resolve_typed [OF assms(1,2) False] by (auto simp del: append.simps)
  show ?thesis
    using False a assms(1)
    by (auto simp: sized_def typeSizing_def fallbackSizing_def mergeResources_def Let_def
        simp del: append.simps split: option.splits)
qed

definition demoTyped :: instanceObj where
  "demoTyped =
     \<lparr>in_Meta = blankMeta ''ns'' ''vm'', in_Sandbox = None, in_InstanceType = ''datumcloud/d1-standard-2'',
      in_TerminationGracePeriodSeconds = None, in_Volumes = [], in_NetworkInterfaces = [], in_Controller = None,
      in_Suspended = False, in_Conditions = [], in_ObservedTemplateHash = None, in_StatusInterfaces = []\<rparr>"

theorem sizing_precedence_witness:
  "runs (resolveContainerResources (Some demoTyped) None (Some instanceTypeReaderFromClient))
     [(GetInstanceType ''datumcloud-d1-standard-2'', RErr (Api NotFound))] (Inr (1000, 2048))"
proof -
  let ?p = "resolveContainerResources (Some demoTyped) None (Some instanceTypeReaderFromClient)"
  let ?env = "\<lambda>q. RErr (Api NotFound)"
  have l: "explicitLimits None = (0, 0)" and n: "canonicalInstanceTypeName (in_InstanceType demoTyped) = ''datumcloud-d1-standard-2''"
    and t: "in_InstanceType demoTyped \<noteq> ''''"
    and z: "lookupHardcodedInstanceType (in_InstanceType demoTyped) = Some \<lparr>sz_cpuMillicores = 1000, sz_memoryMiB = 2048\<rparr>"
    and c: "callsOf ?env ?p = [(GetInstanceType ''datumcloud-d1-standard-2'', RErr (Api NotFound))]" by code_simp+
  have r: "runs ?p [(GetInstanceType ''datumcloud-d1-standard-2'', RErr (Api NotFound))] (answer ?env ?p)"
    using runs_callsOf [of ?p ?env] by (simp only: c)
  from sizing_precedence [OF t l r] have "answer ?env ?p = Inr (1000, 2048)" by (auto simp: z n)
  with r show ?thesis by simp
qed

end
