(* ===== verification/Config.thy ===== *)
theory Config
  imports Kube
begin

text \<open>
  src/internal/config: the operator's configuration, its generated defaults, and the
  validation of the instance DNS settings, with the address parser of package net/netip that
  the validation calls. src/internal/controller/runtimeclass.go and vpc_networking.go: the
  settings of the reconciler that only depend on the configuration.
\<close>

section \<open>The configuration\<close>

record webhookServerConfig =
  wh_Host :: string
  wh_Port :: int
  wh_CertDir :: string
  wh_CertName :: string
  wh_KeyName :: string

record metricsServerConfig =
  ms_BindAddress :: string
  ms_SecureServing :: bool
  ms_CertDir :: string
  ms_CertName :: string
  ms_KeyName :: string

record instanceDNSConfig =
  idns_Nameservers :: "string list"
  idns_Searches :: "string list"

record downstreamResourceManagementConfig =
  drm_NodeSelector :: "(string, string) gomap"
  drm_Tolerations :: "toleration list"
  drm_EnableCNI :: bool
  drm_EnableVPCNetworking :: bool
  drm_EnableScaleToZeroStateful :: bool
  drm_ScaleToZeroPolicy :: string
  drm_ScaleToZeroCooldownMS :: "int option"
  drm_ExecPolicy :: string
  drm_InstanceDNS :: "instanceDNSConfig option"

record unikraftProvider =
  up_MetricsServer :: metricsServerConfig
  up_WebhookServer :: webhookServerConfig
  up_Downstream :: downstreamResourceManagementConfig
  up_LocationClassName :: string
  up_RuntimeClassName :: string

text \<open>The options of the two servers; the metrics server is guarded when it serves securely.\<close>

record webhookOptions =
  who_Host :: string
  who_Port :: int
  who_CertDir :: string
  who_CertName :: string
  who_KeyName :: string

definition webhookServerOptions :: "webhookServerConfig \<Rightarrow> webhookOptions" where
  "webhookServerOptions w =
     \<lparr>who_Host = wh_Host w, who_Port = wh_Port w, who_CertDir = wh_CertDir w,
      who_CertName = wh_CertName w, who_KeyName = wh_KeyName w\<rparr>"

record metricsOptions =
  mso_BindAddress :: string
  mso_SecureServing :: bool
  mso_CertDir :: string
  mso_CertName :: string
  mso_KeyName :: string
  mso_FilterProvider :: "string option"

definition metricsServerOptions :: "metricsServerConfig \<Rightarrow> metricsOptions" where
  "metricsServerOptions m =
     (let opts = \<lparr>mso_BindAddress = ms_BindAddress m, mso_SecureServing = ms_SecureServing m,
                  mso_CertDir = ms_CertDir m, mso_CertName = ms_CertName m,
                  mso_KeyName = ms_KeyName m, mso_FilterProvider = None\<rparr>
      in if ms_SecureServing m
         then opts\<lparr>mso_FilterProvider := Some ''WithAuthenticationAndAuthorization''\<rparr> else opts)"

definition SetObjectDefaults_UnikraftProvider :: "unikraftProvider \<Rightarrow> unikraftProvider" where
  "SetObjectDefaults_UnikraftProvider c =
     (let c = (if ms_BindAddress (up_MetricsServer c) = ''''
               then c\<lparr>up_MetricsServer := (up_MetricsServer c)\<lparr>ms_BindAddress := '':8080''\<rparr>\<rparr> else c);
          c = (if wh_Port (up_WebhookServer c) = 0
               then c\<lparr>up_WebhookServer := (up_WebhookServer c)\<lparr>wh_Port := 9443\<rparr>\<rparr> else c);
          c = (if drm_EnableCNI (up_Downstream c) = False
               then c\<lparr>up_Downstream := (up_Downstream c)\<lparr>drm_EnableCNI := True\<rparr>\<rparr> else c);
          c = (if up_LocationClassName c = '''' then c\<lparr>up_LocationClassName := ''self-managed''\<rparr> else c)
      in if up_RuntimeClassName c = '''' then c\<lparr>up_RuntimeClassName := ''unikernel''\<rparr> else c)"

section \<open>netip.ParseAddr\<close>

text \<open>
  The parser of package net/netip up to what the validation reads of its result: \<open>None\<close> is
  an error, \<open>Some zone\<close> an address with that zone. The state of the loop over an IPv4 text is
  the value, the number of digits of the current octet and the octets done.
\<close>

fun parseIPv4Fields :: "string \<Rightarrow> bool \<Rightarrow> nat \<Rightarrow> nat \<Rightarrow> nat \<Rightarrow> bool" where
  "parseIPv4Fields [] afterDot val digLen pos = (pos = 3)"
| "parseIPv4Fields (c # s) afterDot val digLen pos =
     (case digitVal c of
        Some d \<Rightarrow>
          if digLen = 1 \<and> val = 0 then False
          else if val * 10 + d > 255 then False
          else parseIPv4Fields s False (val * 10 + d) (digLen + 1) pos
      | None \<Rightarrow>
          if c = CHR ''.'' then
            (if afterDot \<or> s = [] then False
             else if pos = 3 then False
             else parseIPv4Fields s True 0 0 (pos + 1))
          else False)"

definition parseIPv4 :: "string \<Rightarrow> bool" where
  "parseIPv4 s = parseIPv4Fields s True 0 0 0"

text \<open>The digits of one group and what follows them; a fifth digit fails.\<close>

fun hexGroup :: "string \<Rightarrow> nat \<Rightarrow> (nat \<times> string) option" where
  "hexGroup [] off = Some (off, [])"
| "hexGroup (c # s) off =
     (case hexVal c of
        None \<Rightarrow> Some (off, c # s)
      | Some d \<Rightarrow> if off > 3 then None else hexGroup s (off + 1))"

text \<open>
  The loop over the groups. \<open>i\<close> is the number of bytes filled, \<open>ell\<close> whether an ellipsis was
  seen; eight groups fill the address, so the first argument counts the ones left. The result
  is the loop's \<open>i\<close>, \<open>ell\<close> and rest of the text.
\<close>

fun ipv6Loop :: "nat \<Rightarrow> nat \<Rightarrow> bool \<Rightarrow> string \<Rightarrow> (nat \<times> bool \<times> string) option" where
  "ipv6Loop 0 i ell s = Some (i, ell, s)"
| "ipv6Loop (Suc n) i ell s =
     (case hexGroup s 0 of
        None \<Rightarrow> None
      | Some (off, rest) \<Rightarrow>
          if off = 0 then None
          else if rest \<noteq> [] \<and> hd rest = CHR ''.'' then
            (if \<not> ell \<and> i \<noteq> 12 then None
             else if i + 4 > 16 then None
             else if parseIPv4 s then Some (i + 4, ell, []) else None)
          else if rest = [] then Some (i + 2, ell, [])
          else if hd rest \<noteq> CHR '':'' then None
          else if tl rest = [] then None
          else if hd (tl rest) = CHR '':'' then
            (if ell then None
             else if tl (tl rest) = [] then Some (i + 2, True, [])
             else ipv6Loop n (i + 2) True (tl (tl rest)))
          else ipv6Loop n (i + 2) ell (tl rest))"

definition parseIPv6 :: "string \<Rightarrow> string option" where
  "parseIPv6 text =
     (let s = takeWhile (\<lambda>c. c \<noteq> CHR ''%'') text; rest = dropWhile (\<lambda>c. c \<noteq> CHR ''%'') text;
          zone = tl rest
      in if rest \<noteq> [] \<and> zone = [] then None
         else (let ell = hasPrefix s ''::''; s = (if ell then drop 2 s else s)
               in if ell \<and> s = [] then Some zone
                  else (case ipv6Loop 8 0 ell s of
                          None \<Rightarrow> None
                        | Some (i, ell, s) \<Rightarrow>
                            if s \<noteq> [] then None
                            else if i < 16 then (if ell then Some zone else None)
                            else if ell then None else Some zone)))"

fun parseAddrFrom :: "string \<Rightarrow> string \<Rightarrow> string option" where
  "parseAddrFrom text [] = None"
| "parseAddrFrom text (c # s) =
     (if c = CHR ''.'' then (if parseIPv4 text then Some [] else None)
      else if c = CHR '':'' then parseIPv6 text
      else if c = CHR ''%'' then None
      else parseAddrFrom text s)"

definition parseAddr :: "string \<Rightarrow> string option" where
  "parseAddr s = parseAddrFrom s s"

section \<open>Validate\<close>

definition MaxInstanceDNSNameservers :: nat where "MaxInstanceDNSNameservers = 3"

datatype dnsError =
  NoNameserver | TooManyNameservers nat | BadNameserver string | EmptySearch

definition badNameserver :: "string \<Rightarrow> bool" where
  "badNameserver ns \<longleftrightarrow> (case parseAddr ns of None \<Rightarrow> True | Some zone \<Rightarrow> zone \<noteq> [])"

text \<open>\<open>Validate\<close> of a pointer that may be nil; \<open>None\<close> is the nil error.\<close>

definition Validate :: "instanceDNSConfig option \<Rightarrow> dnsError option" where
  "Validate d =
     (case d of
        None \<Rightarrow> None
      | Some d \<Rightarrow>
          if idns_Nameservers d = [] then Some NoNameserver
          else if length (idns_Nameservers d) > MaxInstanceDNSNameservers
          then Some (TooManyNameservers (length (idns_Nameservers d)))
          else (case List.find badNameserver (idns_Nameservers d) of
                  Some ns \<Rightarrow> Some (BadNameserver ns)
                | None \<Rightarrow>
                    (case List.find (\<lambda>s. s = '''') (idns_Searches d) of
                       Some s \<Rightarrow> Some EmptySearch
                     | None \<Rightarrow> None)))"

section \<open>runtimeclass.go\<close>

definition DefaultRuntimeClassName :: string where "DefaultRuntimeClassName = ''unikernel''"

definition otherRuntimeClasses :: "string list" where "otherRuntimeClasses = [''general-purpose'']"

definition ServedRuntimeClass :: "unikraftProvider option \<Rightarrow> string" where
  "ServedRuntimeClass cfg =
     (case cfg of
        Some c \<Rightarrow> if up_RuntimeClassName c \<noteq> '''' then up_RuntimeClassName c else DefaultRuntimeClassName
      | None \<Rightarrow> DefaultRuntimeClassName)"

text \<open>
  \<open>excluding\<close> is \<open>InstanceExcludingRuntimeClassFieldSelector\<close> of go.datum.net/compute.
\<close>

definition excludedClasses :: "string \<Rightarrow> string list" where
  "excludedClasses servedClass = filter (\<lambda>class. class \<noteq> servedClass) otherRuntimeClasses"

definition InstanceCacheSelector :: "(string list \<Rightarrow> 'sel) \<Rightarrow> string \<Rightarrow> 'sel" where
  "InstanceCacheSelector excluding servedClass = excluding (excludedClasses servedClass)"

text \<open>The cache options: the selector per kind of object.\<close>

definition CacheOptions :: "(string list \<Rightarrow> 'sel) \<Rightarrow> string \<Rightarrow> (string \<times> 'sel) list" where
  "CacheOptions excluding servedClass = [(''Instance'', InstanceCacheSelector excluding servedClass)]"

section \<open>vpc_networking.go\<close>

definition injectInterfacesLabel :: string where
  "injectInterfacesLabel = ''networking.datumapis.com/inject-interfaces''"

definition vpcNetworkingEnabled :: "unikraftProvider option \<Rightarrow> bool" where
  "vpcNetworkingEnabled cfg =
     (case cfg of None \<Rightarrow> False | Some c \<Rightarrow> drm_EnableVPCNetworking (up_Downstream c))"

definition requestsInterfaceInjection :: "unikraftProvider option \<Rightarrow> instanceObj \<Rightarrow> bool" where
  "requestsInterfaceInjection cfg inst \<longleftrightarrow> vpcNetworkingEnabled cfg \<and> length (in_NetworkInterfaces inst) > 0"

fun noInterfaceRef :: "ifaceStatus list \<Rightarrow> bool" where
  "noInterfaceRef [] = True"
| "noInterfaceRef (i # is) = (if if_NetworkInterfaceRef i \<noteq> None then False else noInterfaceRef is)"

definition providerOwnsInterfaceStatus :: "unikraftProvider option \<Rightarrow> instanceObj \<Rightarrow> bool" where
  "providerOwnsInterfaceStatus cfg inst =
     (if vpcNetworkingEnabled cfg then False else noInterfaceRef (in_StatusInterfaces inst))"

section \<open>Lemmas\<close>

lemma digitVal_dot [simp]: "digitVal (CHR ''.'') = None"
  by (simp add: digitVal_def Let_def)

text \<open>Reading the decimal digits of an octet.\<close>

lemma natDec_small: "n < 10 \<Longrightarrow> natDec n = [digitChar n]"
  by (simp add: natDec.simps [of n])

lemma natDec_step: "10 \<le> n \<Longrightarrow> natDec n = natDec (n div 10) @ [digitChar (n mod 10)]"
  by (simp add: natDec.simps [of n])

lemma parseIPv4Fields_digit:
  "d < 10 \<Longrightarrow> \<not> (digLen = 1 \<and> val = 0) \<Longrightarrow> val * 10 + d \<le> 255 \<Longrightarrow>
   parseIPv4Fields (digitChar d # s) b val digLen pos = parseIPv4Fields s False (val * 10 + d) (digLen + 1) pos"
  by (auto simp: digitVal_digitChar)

lemma parseIPv4Fields_octet:
  assumes "n \<le> 255"
  shows "\<exists>k. parseIPv4Fields (natDec n @ s) b 0 0 pos = parseIPv4Fields s False n k pos"
proof -
  consider "n < 10" | "10 \<le> n" "n < 100" | "100 \<le> n" by linarith
  then show ?thesis
  proof cases
    case 1
    then show ?thesis using parseIPv4Fields_digit [of n 0 0 s b pos] by (auto simp: natDec_small)
  next
    case 2
    then have "natDec n = [digitChar (n div 10), digitChar (n mod 10)]"
      by (simp add: natDec_step natDec_small)
    then show ?thesis
      using 2 parseIPv4Fields_digit [of "n div 10" 0 0 "digitChar (n mod 10) # s" b pos]
        parseIPv4Fields_digit [of "n mod 10" 1 "n div 10" s False pos] by auto
  next
    case 3
    have d: "n div 10 div 10 < 10" "n div 10 mod 10 < 10" "n mod 10 < 10" using assms by auto
    have e: "n div 10 div 10 * 10 + n div 10 mod 10 = n div 10" "n div 10 * 10 + n mod 10 = n" by simp_all
    have nz: "n div 10 div 10 \<noteq> 0" "n div 10 \<noteq> 0" "n div 10 \<le> 255" "10 \<le> n div 10" using 3 assms by auto
    have "natDec n = [digitChar (n div 10 div 10), digitChar (n div 10 mod 10), digitChar (n mod 10)]"
      using 3 nz d by (simp add: natDec_step natDec_small)
    then show ?thesis
      using parseIPv4Fields_digit [of "n div 10 div 10" 0 0 "digitChar (n div 10 mod 10) # digitChar (n mod 10) # s" b pos]
        parseIPv4Fields_digit [of "n div 10 mod 10" 1 "n div 10 div 10" "digitChar (n mod 10) # s" False pos]
        parseIPv4Fields_digit [of "n mod 10" 2 "n div 10" s False pos] d e nz assms by auto
  qed
qed

lemma parseIPv4Fields_dot:
  "s \<noteq> [] \<Longrightarrow> pos \<noteq> 3 \<Longrightarrow>
   parseIPv4Fields (CHR ''.'' # s) False v k pos = parseIPv4Fields s True 0 0 (pos + 1)"
  by simp

definition dottedQuad :: "nat \<Rightarrow> nat \<Rightarrow> nat \<Rightarrow> nat \<Rightarrow> string" where
  "dottedQuad a b c d = natDec a @ ''.'' @ natDec b @ ''.'' @ natDec c @ ''.'' @ natDec d"

lemma parseIPv4_dottedQuad:
  assumes "a \<le> 255" "b \<le> 255" "c \<le> 255" "d \<le> 255"
  shows "parseIPv4 (dottedQuad a b c d)"
proof -
  obtain k1 where "parseIPv4 (dottedQuad a b c d) =
      parseIPv4Fields (CHR ''.'' # natDec b @ ''.'' @ natDec c @ ''.'' @ natDec d) False a k1 0"
    using parseIPv4Fields_octet [OF assms(1)] by (fastforce simp: parseIPv4_def dottedQuad_def)
  also have "\<dots> = parseIPv4Fields (natDec b @ ''.'' @ natDec c @ ''.'' @ natDec d) True 0 0 1"
    by (simp add: parseIPv4Fields_dot del: parseIPv4Fields.simps)
  also obtain k2 where "\<dots> = parseIPv4Fields (CHR ''.'' # natDec c @ ''.'' @ natDec d) False b k2 1"
    using parseIPv4Fields_octet [OF assms(2)] by fastforce
  also have "\<dots> = parseIPv4Fields (natDec c @ ''.'' @ natDec d) True 0 0 2"
    by (simp add: parseIPv4Fields_dot numeral_2_eq_2 del: parseIPv4Fields.simps)
  also obtain k3 where "\<dots> = parseIPv4Fields (CHR ''.'' # natDec d) False c k3 2"
    using parseIPv4Fields_octet [OF assms(3)] by fastforce
  also have "\<dots> = parseIPv4Fields (natDec d) True 0 0 3"
    by (simp add: parseIPv4Fields_dot numeral_3_eq_3 del: parseIPv4Fields.simps)
  also obtain k4 where "\<dots> = parseIPv4Fields [] False d k4 3"
    using parseIPv4Fields_octet [OF assms(4), of "[]"] by fastforce
  finally show ?thesis by simp
qed

lemma parseAddrFrom_digits:
  "(\<And>x. x \<in> set p \<Longrightarrow> x \<notin> {CHR ''.'', CHR '':'', CHR ''%''}) \<Longrightarrow>
   parseAddrFrom t (p @ CHR ''.'' # s) = (if parseIPv4 t then Some [] else None)"
  by (induction p) auto

lemma digitChar_not_addr:
  assumes "d < 10"
  shows "digitChar d \<notin> {CHR ''.'', CHR '':'', CHR ''%''}"
proof
  have none: "digitVal x = None" if "x \<in> {CHR ''.'', CHR '':'', CHR ''%''}" for x
    using that by (elim insertE emptyE) (simp_all add: digitVal_def)
  assume "digitChar d \<in> {CHR ''.'', CHR '':'', CHR ''%''}"
  from none [OF this] digitVal_digitChar [OF assms] show False by simp
qed

lemma parseAddr_dottedQuad:
  assumes "a \<le> 255" "b \<le> 255" "c \<le> 255" "d \<le> 255"
  shows "parseAddr (dottedQuad a b c d) = Some []"
proof -
  have "x \<notin> {CHR ''.'', CHR '':'', CHR ''%''}" if x: "x \<in> set (natDec a)" for x
  proof -
    obtain e where e: "e < 10" "x = digitChar e" using natDec_digits [OF x] by auto
    show ?thesis unfolding e(2) by (rule digitChar_not_addr [OF e(1)])
  qed
  from parseAddrFrom_digits [OF this, of "natDec a"] show ?thesis
    using parseIPv4_dottedQuad [OF assms] by (simp add: parseAddr_def dottedQuad_def)
qed

lemma find_None_all: "List.find P xs = None \<longleftrightarrow> (\<forall>x \<in> set xs. \<not> P x)"
  by (auto simp: find_None_iff)

lemma badNameserver_iff: "\<not> badNameserver ns \<longleftrightarrow> parseAddr ns = Some []"
  by (auto simp: badNameserver_def split: option.splits)

lemma Validate_Some:
  "Validate (Some c) = None \<longleftrightarrow>
     idns_Nameservers c \<noteq> [] \<and> length (idns_Nameservers c) \<le> 3 \<and>
     List.find badNameserver (idns_Nameservers c) = None \<and> List.find (\<lambda>s. s = '''') (idns_Searches c) = None"
  by (simp add: Validate_def MaxInstanceDNSNameservers_def not_less split: option.split)

text \<open>The five defaults at once.\<close>

lemma defaults_closed:
  "SetObjectDefaults_UnikraftProvider c = c
     \<lparr>up_MetricsServer := (up_MetricsServer c)
        \<lparr>ms_BindAddress := if ms_BindAddress (up_MetricsServer c) = '''' then '':8080''
                           else ms_BindAddress (up_MetricsServer c)\<rparr>,
      up_WebhookServer := (up_WebhookServer c)
        \<lparr>wh_Port := if wh_Port (up_WebhookServer c) = 0 then 9443 else wh_Port (up_WebhookServer c)\<rparr>,
      up_Downstream := (up_Downstream c)\<lparr>drm_EnableCNI := True\<rparr>,
      up_LocationClassName := if up_LocationClassName c = '''' then ''self-managed'' else up_LocationClassName c,
      up_RuntimeClassName := if up_RuntimeClassName c = '''' then ''unikernel'' else up_RuntimeClassName c\<rparr>"
  unfolding SetObjectDefaults_UnikraftProvider_def
  by (cases c; cases "ms_BindAddress (up_MetricsServer c) = ''''"; cases "wh_Port (up_WebhookServer c) = 0";
      cases "drm_EnableCNI (up_Downstream c)"; cases "up_LocationClassName c = ''''";
      cases "up_RuntimeClassName c = ''''") simp_all

section \<open>Properties\<close>

text \<open>
  C30. The instance DNS settings are accepted exactly when they are absent, or name one to three
  nameservers that are all IP addresses without a zone and no empty search domain.
\<close>

theorem Validate_iff:
  "Validate d = None \<longleftrightarrow>
     (\<forall>c. d = Some c \<longrightarrow>
        1 \<le> length (idns_Nameservers c) \<and> length (idns_Nameservers c) \<le> 3 \<and>
        (\<forall>ns \<in> set (idns_Nameservers c). parseAddr ns = Some []) \<and> '''' \<notin> set (idns_Searches c))"
proof (cases d)
  case None
  then show ?thesis by (simp add: Validate_def)
next
  case (Some c)
  then show ?thesis by (auto simp: Validate_Some find_None_all badNameserver_iff Suc_le_eq)
qed

text \<open>
  Every IPv4 address is accepted: any dotted quad of decimal octets, without leading zeros,
  parses as an address without a zone, so a list of one to three of them validates.
\<close>

theorem dottedQuad_valid:
  assumes "a \<le> 255" "b \<le> 255" "c \<le> 255" "d \<le> 255"
  shows "parseAddr (dottedQuad a b c d) = Some [] \<and>
    Validate (Some \<lparr>idns_Nameservers = [dottedQuad a b c d], idns_Searches = []\<rparr>) = None"
  using parseAddr_dottedQuad [OF assms]
  by (simp add: Validate_def MaxInstanceDNSNameservers_def badNameserver_def)

theorem Validate_iff_witness:
  "Validate (Some \<lparr>idns_Nameservers = [''fd00::53''], idns_Searches = [''svc.local'']\<rparr>) = None"
proof -
  have "parseAddr ''fd00::53'' = Some []" by code_simp
  then show ?thesis
    using Validate_iff [of "Some \<lparr>idns_Nameservers = [''fd00::53''], idns_Searches = [''svc.local'']\<rparr>"] by simp
qed

theorem dottedQuad_valid_witness: "parseAddr (dottedQuad 10 0 0 53) = Some []"
  using dottedQuad_valid [of 10 0 0 53] by simp

text \<open>
  The operator can never be told not to use CNI: after defaulting the setting is on,
  whatever the configuration file says, and defaulting twice is defaulting once.
\<close>

theorem defaults_force_cni:
  "drm_EnableCNI (up_Downstream (SetObjectDefaults_UnikraftProvider c)) \<and>
   SetObjectDefaults_UnikraftProvider (SetObjectDefaults_UnikraftProvider c) = SetObjectDefaults_UnikraftProvider c \<and>
   ServedRuntimeClass (Some (SetObjectDefaults_UnikraftProvider c)) = ServedRuntimeClass (Some c)"
  by (simp add: defaults_closed ServedRuntimeClass_def DefaultRuntimeClassName_def)



end
