(* ===== verification/Pod_Builder.thy ===== *)
theory Pod_Builder
  imports Instance_Mapper Config
begin

text \<open>
  src/internal/controller/instance_controller.go, the objects: the PodSpec built from an
  Instance, the callbacks that bring the Pod and the Service into their desired state, and the
  reconciliation of the Service.
\<close>

section \<open>Names\<close>

definition unikraftAnnotationPrefix :: string where "unikraftAnnotationPrefix = ''cloud.unikraft.v1''"

definition ukcInstanceFqdnsAnnotation :: string where
  "ukcInstanceFqdnsAnnotation = ''cloud.unikraft.v1.instances/fqdns''"

definition ukcCniEnabledAnnotation :: string where
  "ukcCniEnabledAnnotation = ''cloud.unikraft.v1.instances/cni-enabled''"

definition ukcScaleToZeroStatefulAnnotation :: string where
  "ukcScaleToZeroStatefulAnnotation = ''cloud.unikraft.v1.instances/scale_to_zero.stateful''"

definition ukcScaleToZeroPolicyAnnotation :: string where
  "ukcScaleToZeroPolicyAnnotation = ''cloud.unikraft.v1.instances/scale_to_zero.policy''"

definition ukcScaleToZeroCooldownMsAnnotation :: string where
  "ukcScaleToZeroCooldownMsAnnotation = ''cloud.unikraft.v1.instances/scale_to_zero.cooldown_time_ms''"

definition ukcExecEnabledAnnotation :: string where
  "ukcExecEnabledAnnotation = ''cloud.unikraft.v1.instances/enable-exec''"

definition instanceFinalizer :: string where "instanceFinalizer = ''unikraft.datumapis.com/finalizer''"

abbreviation managedByLabel :: string where "managedByLabel \<equiv> ''managed-by''"
abbreviation managedByValue :: string where "managedByValue \<equiv> ''infra-provider-unikraft''"
abbreviation instanceLabel :: string where "instanceLabel \<equiv> ''upstream.instance''"

lemmas annotation_names = unikraftAnnotationPrefix_def ukcInstanceFqdnsAnnotation_def
  ukcCniEnabledAnnotation_def ukcScaleToZeroStatefulAnnotation_def ukcScaleToZeroPolicyAnnotation_def
  ukcScaleToZeroCooldownMsAnnotation_def ukcExecEnabledAnnotation_def

section \<open>Labels and annotations\<close>

definition instancePodLabelKeys :: "kubeLib \<Rightarrow> string list" where
  "instancePodLabelKeys L =
     [kl_WorkloadUIDLabel L, kl_WorkloadDeploymentUIDLabel L, kl_WorkloadDeploymentNameLabel L,
      kl_WorkloadNameLabel L, kl_PlacementNameLabel L, kl_LocationLabel L, kl_InstanceIndexLabel L]"

definition copyLabel ::
  "(string, string) gomap \<Rightarrow> string \<Rightarrow> (string, string) gomap \<Rightarrow> (string, string) gomap" where
  "copyLabel instanceLabels key podLabels =
     (case map_of instanceLabels key of
        None \<Rightarrow> AList.delete key podLabels
      | Some value \<Rightarrow> AList.update key value podLabels)"

definition copyInstancePodLabels ::
  "kubeLib \<Rightarrow> (string, string) gomap \<Rightarrow> (string, string) gomap \<Rightarrow> (string, string) gomap" where
  "copyInstancePodLabels L instanceLabels podLabels =
     fold (copyLabel instanceLabels) (instancePodLabelKeys L) podLabels"

definition tenantAnnotation :: "string \<Rightarrow> bool" where
  "tenantAnnotation k \<longleftrightarrow>
     \<not> (k = ukcCniEnabledAnnotation \<or> k = ukcScaleToZeroStatefulAnnotation \<or>
        k = ukcScaleToZeroPolicyAnnotation \<or> k = ukcScaleToZeroCooldownMsAnnotation) \<and>
     hasPrefix k unikraftAnnotationPrefix"

definition copyUnikraftAnnotations ::
  "(string, string) gomap \<Rightarrow> (string, string) gomap \<Rightarrow> (string, string) gomap" where
  "copyUnikraftAnnotations src dst = copyRange tenantAnnotation src dst"

text \<open>\<open>m[k] = v\<close> under a condition, \<open>delete(m, k)\<close> otherwise.\<close>

definition setOrDelete :: "string \<Rightarrow> string option \<Rightarrow> (string, string) gomap \<Rightarrow> (string, string) gomap" where
  "setOrDelete k v m = (case v of Some x \<Rightarrow> AList.update k x m | None \<Rightarrow> AList.delete k m)"

abbreviation downstream :: "unikraftProvider option \<Rightarrow> downstreamResourceManagementConfig option" where
  "downstream cfg \<equiv> map_option up_Downstream cfg"

definition whenSet :: "bool \<Rightarrow> string option" where
  "whenSet b = (if b then Some ''true'' else None)"

definition podLabels ::
  "kubeLib \<Rightarrow> unikraftProvider option \<Rightarrow> instanceObj \<Rightarrow> (string, string) gomap \<Rightarrow> (string, string) gomap" where
  "podLabels L cfg inst labels =
     (let labels = AList.update managedByLabel managedByValue labels;
          labels = AList.update instanceLabel (in_Name inst) labels;
          labels = copyInstancePodLabels L (m_Labels (in_Meta inst)) labels
      in setOrDelete injectInterfacesLabel (whenSet (requestsInterfaceInjection cfg inst)) labels)"

definition execAnnotation ::
  "unikraftProvider option \<Rightarrow> (string, string) gomap \<Rightarrow> (string, string) gomap" where
  "execAnnotation cfg ann =
     (if (case cfg of Some c \<Rightarrow> drm_ExecPolicy (up_Downstream c) = ''always'' | None \<Rightarrow> False)
      then AList.update ukcExecEnabledAnnotation ''true'' ann
      else if (case cfg of Some c \<Rightarrow> drm_ExecPolicy (up_Downstream c) = ''allowed'' | None \<Rightarrow> False)
      then ann
      else AList.delete ukcExecEnabledAnnotation ann)"

definition podAnnotations ::
  "unikraftProvider option \<Rightarrow> instanceObj \<Rightarrow> (string, string) gomap \<Rightarrow> (string, string) gomap" where
  "podAnnotations cfg inst ann =
     (let ann = copyUnikraftAnnotations (m_Annotations (in_Meta inst)) ann;
          ann = setOrDelete ukcCniEnabledAnnotation
                  (whenSet (case cfg of Some c \<Rightarrow> drm_EnableCNI (up_Downstream c) | None \<Rightarrow> False)) ann;
          ann = setOrDelete ukcScaleToZeroStatefulAnnotation
                  (whenSet (case cfg of Some c \<Rightarrow> drm_EnableScaleToZeroStateful (up_Downstream c) | None \<Rightarrow> False)) ann;
          ann = setOrDelete ukcScaleToZeroPolicyAnnotation
                  (case cfg of
                     Some c \<Rightarrow> if drm_ScaleToZeroPolicy (up_Downstream c) \<noteq> ''''
                               then Some (drm_ScaleToZeroPolicy (up_Downstream c)) else None
                   | None \<Rightarrow> None) ann;
          ann = setOrDelete ukcScaleToZeroCooldownMsAnnotation
                  (case cfg of
                     Some c \<Rightarrow> map_option formatInt (drm_ScaleToZeroCooldownMS (up_Downstream c))
                   | None \<Rightarrow> None) ann
      in execAnnotation cfg ann)"

section \<open>The Pod spec\<close>

fun podVolumes :: "instanceVolume list \<Rightarrow> volume list" where
  "podVolumes [] = []"
| "podVolumes (iv # ivs) =
     (case iv_ConfigMap iv of
        Some src \<Rightarrow> \<lparr>vol_Name = iv_Name iv, vol_Source = VolConfigMap src\<rparr> # podVolumes ivs
      | None \<Rightarrow>
          (case iv_Secret iv of
             Some src \<Rightarrow> \<lparr>vol_Name = iv_Name iv, vol_Source = VolSecret src\<rparr> # podVolumes ivs
           | None \<Rightarrow> podVolumes ivs))"

fun podEnvFrom :: "envFromSource list \<Rightarrow> envFromSource list" where
  "podEnvFrom [] = []"
| "podEnvFrom (src # srcs) =
     (case ef_ConfigMapRef src of
        Some ref \<Rightarrow>
          \<lparr>ef_Prefix = ef_Prefix src,
           ef_ConfigMapRef = Some \<lparr>ref_Name = ref_Name ref, ref_Optional = ref_Optional ref\<rparr>,
           ef_SecretRef = None\<rparr> # podEnvFrom srcs
      | None \<Rightarrow>
          (case ef_SecretRef src of
             Some ref \<Rightarrow>
               \<lparr>ef_Prefix = ef_Prefix src, ef_ConfigMapRef = None,
                ef_SecretRef = Some \<lparr>ref_Name = ref_Name ref, ref_Optional = ref_Optional ref\<rparr>\<rparr> # podEnvFrom srcs
           | None \<Rightarrow> podEnvFrom srcs))"

fun podVolumeMounts :: "volumeAttachment list \<Rightarrow> volumeMount list" where
  "podVolumeMounts [] = []"
| "podVolumeMounts (va # vas) =
     (case va_MountPath va of
        None \<Rightarrow> podVolumeMounts vas
      | Some path \<Rightarrow> \<lparr>vm_Name = va_Name va, vm_MountPath = path\<rparr> # podVolumeMounts vas)"

definition zeroSchedulerRequests :: "kubeLib \<Rightarrow> resourceList \<Rightarrow> resourceList" where
  "zeroSchedulerRequests L limits = map (\<lambda>(name, q). (name, kl_zeroQuantity L)) limits"

definition containerLimits :: "kubeLib \<Rightarrow> int \<Rightarrow> int \<Rightarrow> resourceList" where
  "containerLimits L cpuMillicores memoryMB =
     (let memQ = kl_NewQuantity L (wrap64 (wrap64 (memoryMB * 1024) * 1024));
          l = [(resourceMemory, memQ)]
      in if cpuMillicores > 0 then AList.update resourceCPU (kl_NewMilliQuantity L cpuMillicores) l else l)"

definition buildContainer :: "kubeLib \<Rightarrow> sandboxContainer \<Rightarrow> int \<times> int \<Rightarrow> container" where
  "buildContainer L sc sz =
     (let l = containerLimits L (fst sz) (snd sz)
      in \<lparr>c_Name = sc_Name sc, c_Image = sc_Image sc, c_Command = sc_Command sc, c_Args = sc_Args sc,
          c_Env = map (\<lambda>env. \<lparr>env_Name = env_Name env, env_Value = env_Value env, env_ValueFrom = env_ValueFrom env\<rparr>) (sc_Env sc),
          c_EnvFrom = podEnvFrom (sc_EnvFrom sc),
          c_Ports = map (\<lambda>p. \<lparr>port_Name = port_Name p, port_Port = port_Port p\<rparr>) (sc_Ports sc),
          c_Limits = l, c_Requests = zeroSchedulerRequests L l,
          c_VolumeMounts = podVolumeMounts (sc_VolumeAttachments sc)\<rparr>)"

text \<open>The loop over the containers, which reads the type catalog for each.\<close>

primrec buildContainers :: "kubeLib \<Rightarrow> instanceObj \<Rightarrow> sandboxContainer list \<Rightarrow> container list result prog" where
  "buildContainers L inst [] = Ret (Inr [])"
| "buildContainers L inst (sc # scs) =
     bindE (wrapP (''resolving resources for container '' @ quoteGo (sc_Name sc))
              (resolveContainerResources (Some inst) (Some sc) (Some instanceTypeReaderFromClient)))
       (\<lambda>sz. bindE (buildContainers L inst scs) (\<lambda>cs. Ret (Inr (buildContainer L sc sz # cs))))"

definition instanceDNS :: "unikraftProvider option \<Rightarrow> instanceDNSConfig option" where
  "instanceDNS cfg =
     (case cfg of
        None \<Rightarrow> None
      | Some c \<Rightarrow>
          (case drm_InstanceDNS (up_Downstream c) of
             None \<Rightarrow> None
           | Some dns \<Rightarrow> if idns_Nameservers dns = [] then None else Some dns))"

definition defaultNodeSelector :: "(string, string) gomap" where
  "defaultNodeSelector = [(''unikraft.com/virtual-kubelet'', ''true'')]"

definition defaultTolerations :: "toleration list" where
  "defaultTolerations =
     [\<lparr>tol_Key = ''virtual-kubelet.io/provider'', tol_Operator = ''Equal'', tol_Value = ''ukc'',
       tol_Effect = ''NoSchedule'', tol_Seconds = None\<rparr>]"

definition podSpecOf :: "unikraftProvider option \<Rightarrow> instanceObj \<Rightarrow> container list \<Rightarrow> podSpec" where
  "podSpecOf cfg inst containers =
     (let nodeSelector = (case cfg of
            Some c \<Rightarrow> if drm_NodeSelector (up_Downstream c) \<noteq> [] then drm_NodeSelector (up_Downstream c) else defaultNodeSelector
          | None \<Rightarrow> defaultNodeSelector);
          tolerations = (case cfg of
            Some c \<Rightarrow> if drm_Tolerations (up_Downstream c) \<noteq> [] then drm_Tolerations (up_Downstream c) else defaultTolerations
          | None \<Rightarrow> defaultTolerations);
          spec = \<lparr>ps_Containers = containers, ps_Volumes = podVolumes (in_Volumes inst),
                  ps_ImagePullSecrets = (case in_Sandbox inst of Some sb \<Rightarrow> sb_ImagePullSecrets sb | None \<Rightarrow> []),
                  ps_AutomountServiceAccountToken = Some False, ps_EnableServiceLinks = Some False,
                  ps_RestartPolicy = ''Always'', ps_NodeSelector = nodeSelector, ps_Tolerations = tolerations,
                  ps_TerminationGracePeriodSeconds = in_TerminationGracePeriodSeconds inst,
                  ps_DNSPolicy = '''', ps_DNSConfig = None, ps_NodeName = ''''\<rparr>
      in case instanceDNS cfg of
           None \<Rightarrow> spec
         | Some dns \<Rightarrow>
             spec\<lparr>ps_DNSPolicy := ''None'',
                  ps_DNSConfig := Some \<lparr>dns_Nameservers = idns_Nameservers dns, dns_Searches = idns_Searches dns\<rparr>\<rparr>)"

definition buildPodSpecFromContainers ::
  "kubeLib \<Rightarrow> unikraftProvider option \<Rightarrow> instanceObj \<Rightarrow> sandboxContainer list \<Rightarrow> podSpec result prog" where
  "buildPodSpecFromContainers L cfg inst scs =
     bindE (buildContainers L inst scs) (\<lambda>cs. Ret (Inr (podSpecOf cfg inst cs)))"

section \<open>The callbacks of CreateOrPatch\<close>

text \<open>
  The callback for the Pod, on the object as it was found (blank when it does not exist yet):
  labels, annotations, the spec for a new Pod only, and the owner reference.
\<close>

definition mutateInstancePod ::
  "kubeLib \<Rightarrow> unikraftProvider option \<Rightarrow> instanceObj \<Rightarrow> pod \<Rightarrow> pod result prog" where
  "mutateInstancePod L cfg inst p =
     (let meta = (pod_Meta p)\<lparr>m_Labels := podLabels L cfg inst (pod_Labels p),
                              m_Annotations := podAnnotations cfg inst (pod_Annotations p)\<rparr>;
          p = p\<lparr>pod_Meta := meta\<rparr>
      in bindE (if isZeroTime (m_CreationTimestamp (pod_Meta p))
                then bindE (buildPodSpecFromContainers L cfg inst
                              (case in_Sandbox inst of Some sb \<Rightarrow> sb_Containers sb | None \<Rightarrow> []))
                       (\<lambda>spec. Ret (Inr (p\<lparr>pod_Spec := spec\<rparr>)))
                else Ret (Inr p))
           (\<lambda>p. Ret (case kl_SetControllerReference L (in_Meta inst) (pod_Meta p) of
                       Inl err \<Rightarrow> Inl err
                     | Inr meta \<Rightarrow> Inr (p\<lparr>pod_Meta := meta\<rparr>))))"

definition mutateInstanceService ::
  "kubeLib \<Rightarrow> instanceObj \<Rightarrow> servicePort list \<Rightarrow> service \<Rightarrow> service result" where
  "mutateInstanceService L inst ports svc =
     (let ann = copyUnikraftAnnotations (m_Annotations (in_Meta inst)) (m_Annotations (svc_Meta svc));
          labels = AList.update instanceLabel (in_Name inst)
                     (AList.update managedByLabel managedByValue (m_Labels (svc_Meta svc)));
          svc = svc\<lparr>svc_Meta := (svc_Meta svc)\<lparr>m_Annotations := ann, m_Labels := labels\<rparr>,
                    svc_Selector := [(instanceLabel, in_Name inst)], svc_Ports := ports\<rparr>;
          svc = (if svc_Type svc = '''' then svc\<lparr>svc_Type := ''ClusterIP''\<rparr> else svc)
      in case kl_SetControllerReference L (in_Meta inst) (svc_Meta svc) of
           Inl err \<Rightarrow> Inl err
         | Inr meta \<Rightarrow> Inr (svc\<lparr>svc_Meta := meta\<rparr>))"

section \<open>The Service\<close>

definition allPorts :: "instanceObj \<Rightarrow> namedPort list" where
  "allPorts inst =
     (case in_Sandbox inst of
        None \<Rightarrow> []
      | Some sb \<Rightarrow> concat (map sc_Ports (sb_Containers sb)))"

definition servicePortsFor :: "namedPort list \<Rightarrow> servicePort list" where
  "servicePortsFor ports =
     (case ports of
        [p] \<Rightarrow>
          [\<lparr>sp_Name = (if port_Name p = '''' then ''http'' else port_Name p), sp_Port = 443,
            sp_TargetPort = port_Port p, sp_Protocol = ''TCP''\<rparr>]
      | _ \<Rightarrow>
          map (\<lambda>p. \<lparr>sp_Name = (if port_Name p = '''' then ''port-'' @ formatInt (port_Port p) else port_Name p),
                    sp_Port = port_Port p, sp_TargetPort = port_Port p, sp_Protocol = ''TCP''\<rparr>) ports)"

definition instKey :: "instanceObj \<Rightarrow> objKey" where
  "instKey inst = (in_Namespace inst, in_Name inst)"

definition reconcileInstanceService :: "kubeLib \<Rightarrow> instanceObj \<Rightarrow> unit result prog" where
  "reconcileInstanceService L inst =
     (if allPorts inst = []
      then ignoreNotFound ''failed to delete obsolete service'' (deleteServiceReq (instKey inst))
      else bindE (wrapP ''failed to create/update service''
                    (kl_CreateOrPatchService L (blankService (in_Namespace inst) (in_Name inst))
                       (\<lambda>svc. Ret (mutateInstanceService L inst (servicePortsFor (allPorts inst)) svc))))
             (\<lambda>svc. Ret (Inr ())))"

section \<open>Lemmas\<close>

lemma map_of_setOrDelete: "map_of (setOrDelete k v m) x = (if x = k then v else map_of m x)"
  by (simp add: setOrDelete_def update_conv' delete_conv' split: option.split)

lemma map_of_copyLabel:
  "map_of (copyLabel src k dst) x = (if x = k then map_of src k else map_of dst x)"
  by (simp add: copyLabel_def update_conv' delete_conv' split: option.split)

lemma map_of_fold_copyLabel:
  "map_of (fold (copyLabel src) ks dst) x = (if x \<in> set ks then map_of src x else map_of dst x)"
  by (induction ks arbitrary: dst) (auto simp: map_of_copyLabel)

lemma map_of_podLabels:
  "map_of (podLabels L cfg inst labels) k =
     (if k = injectInterfacesLabel then whenSet (requestsInterfaceInjection cfg inst)
      else if k \<in> set (instancePodLabelKeys L) then map_of (m_Labels (in_Meta inst)) k
      else if k = instanceLabel then Some (in_Name inst)
      else if k = managedByLabel then Some managedByValue else map_of labels k)"
  unfolding podLabels_def Let_def copyInstancePodLabels_def map_of_setOrDelete map_of_fold_copyLabel
  by (simp add: update_conv')

text \<open>The annotations of the platform are pairwise different, and so are the keys they govern.\<close>

lemma annotation_names_distinct:
  "distinct [ukcCniEnabledAnnotation, ukcScaleToZeroStatefulAnnotation, ukcScaleToZeroPolicyAnnotation,
     ukcScaleToZeroCooldownMsAnnotation, ukcExecEnabledAnnotation, ukcInstanceFqdnsAnnotation]"
  by (simp add: annotation_names)

lemma annotation_neq:
  "ukcExecEnabledAnnotation \<noteq> ukcCniEnabledAnnotation" "ukcExecEnabledAnnotation \<noteq> ukcScaleToZeroStatefulAnnotation"
  "ukcExecEnabledAnnotation \<noteq> ukcScaleToZeroPolicyAnnotation" "ukcExecEnabledAnnotation \<noteq> ukcScaleToZeroCooldownMsAnnotation"
  "ukcCniEnabledAnnotation \<noteq> ukcScaleToZeroStatefulAnnotation" "ukcCniEnabledAnnotation \<noteq> ukcScaleToZeroPolicyAnnotation"
  "ukcCniEnabledAnnotation \<noteq> ukcScaleToZeroCooldownMsAnnotation"
  "ukcScaleToZeroStatefulAnnotation \<noteq> ukcScaleToZeroPolicyAnnotation"
  "ukcScaleToZeroStatefulAnnotation \<noteq> ukcScaleToZeroCooldownMsAnnotation"
  "ukcScaleToZeroPolicyAnnotation \<noteq> ukcScaleToZeroCooldownMsAnnotation"
  using annotation_names_distinct by auto

lemmas annotation_neqs = annotation_neq annotation_neq [symmetric]


section \<open>Contracts\<close>

text \<open>
  The identity labels of go.datum.net/compute are none of the names this provider sets on its
  Pods itself.
\<close>

locale identity_labels = kube_lib +
  assumes identity_keys: "set (instancePodLabelKeys L) \<inter> {managedByLabel, instanceLabel, injectInterfacesLabel} = {}"
begin

lemma label_mirror:
  "k \<in> set (instancePodLabelKeys L) \<Longrightarrow>
     map_of (podLabels L cfg inst labels) k = map_of (m_Labels (in_Meta inst)) k"
  "map_of (podLabels L cfg inst labels) instanceLabel = Some (in_Name inst)"
  "map_of (podLabels L cfg inst labels) managedByLabel = Some managedByValue"
  using identity_keys by (auto simp: map_of_podLabels injectInterfacesLabel_def)

end

interpretation std: identity_labels stdLib
  by unfold_locales (simp add: instancePodLabelKeys_def stdLib_def injectInterfacesLabel_def)

section \<open>What the callbacks do\<close>

lemma map_of_podAnnotations:
  assumes "gomap_ok (m_Annotations (in_Meta inst))"
  shows "map_of (podAnnotations cfg inst ann) k =
    (if k = ukcCniEnabledAnnotation
     then whenSet (case cfg of Some c \<Rightarrow> drm_EnableCNI (up_Downstream c) | None \<Rightarrow> False)
     else if k = ukcScaleToZeroStatefulAnnotation
     then whenSet (case cfg of Some c \<Rightarrow> drm_EnableScaleToZeroStateful (up_Downstream c) | None \<Rightarrow> False)
     else if k = ukcScaleToZeroPolicyAnnotation
     then (case cfg of Some c \<Rightarrow> if drm_ScaleToZeroPolicy (up_Downstream c) = '''' then None
                                 else Some (drm_ScaleToZeroPolicy (up_Downstream c)) | None \<Rightarrow> None)
     else if k = ukcScaleToZeroCooldownMsAnnotation
     then (case cfg of Some c \<Rightarrow> map_option formatInt (drm_ScaleToZeroCooldownMS (up_Downstream c)) | None \<Rightarrow> None)
     else if k = ukcExecEnabledAnnotation \<and>
       (case cfg of Some c \<Rightarrow> drm_ExecPolicy (up_Downstream c) = ''always'' | None \<Rightarrow> False)
     then Some ''true''
     else if k = ukcExecEnabledAnnotation \<and>
       (case cfg of Some c \<Rightarrow> drm_ExecPolicy (up_Downstream c) \<noteq> ''allowed'' | None \<Rightarrow> True)
     then None
     else (case map_of (m_Annotations (in_Meta inst)) k of
             Some v \<Rightarrow> if hasPrefix k unikraftAnnotationPrefix then Some v else map_of ann k
           | None \<Rightarrow> map_of ann k))"
proof -
  have ex: "map_of (execAnnotation cfg m) k =
      (if k = ukcExecEnabledAnnotation \<and> (case cfg of Some c \<Rightarrow> drm_ExecPolicy (up_Downstream c) = ''always'' | None \<Rightarrow> False)
       then Some ''true''
       else if k = ukcExecEnabledAnnotation \<and> (case cfg of Some c \<Rightarrow> drm_ExecPolicy (up_Downstream c) \<noteq> ''allowed'' | None \<Rightarrow> True)
       then None else map_of m k)" for m
    by (auto simp: execAnnotation_def update_conv' delete_conv' split: option.splits)
  show ?thesis
    unfolding podAnnotations_def Let_def ex map_of_setOrDelete copyUnikraftAnnotations_def
      map_of_copyRange [OF assms] tenantAnnotation_def
    by (simp add: annotation_neqs split: option.split)
qed

text \<open>A run of the sizing only reads the catalog.\<close>

abbreviation readsType :: "request \<Rightarrow> bool" where
  "readsType q \<equiv> (\<exists>n. q = GetInstanceType n)"

abbreviation sizesTo :: "instanceObj \<Rightarrow> sandboxContainer \<Rightarrow> int \<times> int \<Rightarrow> bool" where
  "sizesTo inst sc sz \<equiv>
     (\<exists>tr. runs (resolveContainerResources (Some inst) (Some sc) (Some instanceTypeReaderFromClient)) tr (Inr sz))"

lemma instanceTypeReader_reads [intro]: "onlyCalls readsType (instanceTypeReaderFromClient n)"
  unfolding instanceTypeReaderFromClient_def by (intro onlyCalls_bindP) simp_all

lemma resolve_reads [intro]:
  "onlyCalls readsType (resolveContainerResources inst c (Some instanceTypeReaderFromClient))"
proof -
  have "onlyCalls readsType (publishedSizing inst (Some instanceTypeReaderFromClient))"
    unfolding publishedSizing_def by (cases inst) (auto intro!: onlyCalls_bindE onlyCalls_wrapP)
  then show ?thesis
    unfolding resolveContainerResources_def by (auto intro!: onlyCalls_bindE simp: Let_def split: prod.split)
qed

lemma buildContainers_reads [intro]: "onlyCalls readsType (buildContainers L inst scs)"
  by (induction scs) (auto intro!: onlyCalls_bindE)

lemma buildPodSpec_reads [intro]: "onlyCalls readsType (buildPodSpecFromContainers L cfg inst scs)"
  unfolding buildPodSpecFromContainers_def by (auto intro!: onlyCalls_bindE)

lemma mutateInstancePod_reads [intro]: "onlyCalls readsType (mutateInstancePod L cfg inst p)"
  unfolding mutateInstancePod_def Let_def by (auto intro!: onlyCalls_bindE)

lemma buildContainers_run:
  assumes "runs (buildContainers L inst scs) tr (Inr cs)"
  shows "list_all2 (\<lambda>sc c. \<exists>sz. sizesTo inst sc sz \<and> c = buildContainer L sc sz) scs cs"
  using assms
proof (induction scs arbitrary: tr cs)
  case Nil
  then show ?case by simp
next
  case (Cons sc scs)
  let ?p = "resolveContainerResources (Some inst) (Some sc) (Some instanceTypeReaderFromClient)"
  from Cons.prems obtain tr1 tr2 sz r where s: "runs ?p tr1 r" "Inr sz = mapErr (Wrapped (''resolving resources for container '' @ quoteGo (sc_Name sc))) r"
      "runs (bindE (buildContainers L inst scs) (\<lambda>cs. Ret (Inr (buildContainer L sc sz # cs)))) tr2 (Inr cs)"
    unfolding buildContainers.simps runs_bindE [of "wrapP _ _"] runs_wrapP by blast
  from s(2) have "r = Inr sz" by (cases r) (auto simp: mapErr_def)
  moreover from s(3) obtain tr3 cs' where "runs (buildContainers L inst scs) tr3 (Inr cs')" "cs = buildContainer L sc sz # cs'"
    by (auto simp: runs_bindE)
  ultimately show ?case using s(1) Cons.IH by (cases sz) auto
qed
lemma map_of_containerLimits:
  "map_of (containerLimits L cpu mem) resourceMemory = Some (kl_NewQuantity L (wrap64 (wrap64 (mem * 1024) * 1024)))"
  "map_of (containerLimits L cpu mem) resourceCPU = (if cpu > 0 then Some (kl_NewMilliQuantity L cpu) else None)"
  by (simp_all add: containerLimits_def Let_def)

lemma map_of_zeroSchedulerRequests:
  "map_of (zeroSchedulerRequests L l) n = map_option (\<lambda>q. kl_zeroQuantity L) (map_of l n)"
  by (induction l) (auto simp: zeroSchedulerRequests_def)

lemma buildContainer_sel [simp]:
  "c_Name (buildContainer L sc sz) = sc_Name sc" "c_Image (buildContainer L sc sz) = sc_Image sc"
  "c_Limits (buildContainer L sc sz) = containerLimits L (fst sz) (snd sz)"
  "c_Requests (buildContainer L sc sz) = zeroSchedulerRequests L (containerLimits L (fst sz) (snd sz))"
  "c_VolumeMounts (buildContainer L sc sz) = podVolumeMounts (sc_VolumeAttachments sc)"
  by (simp_all add: buildContainer_def Let_def)

lemma podSpecOf_sel [simp]:
  "ps_Containers (podSpecOf cfg inst cs) = cs" "ps_Volumes (podSpecOf cfg inst cs) = podVolumes (in_Volumes inst)"
  "ps_AutomountServiceAccountToken (podSpecOf cfg inst cs) = Some False"
  "ps_EnableServiceLinks (podSpecOf cfg inst cs) = Some False"
  "ps_RestartPolicy (podSpecOf cfg inst cs) = ''Always''" "ps_NodeName (podSpecOf cfg inst cs) = ''''"
  "ps_TerminationGracePeriodSeconds (podSpecOf cfg inst cs) = in_TerminationGracePeriodSeconds inst"
  by (simp_all add: podSpecOf_def Let_def split: option.split)

lemma podVolumes_names:
  "map vol_Name (podVolumes ivs) = map iv_Name (filter (\<lambda>iv. iv_ConfigMap iv \<noteq> None \<or> iv_Secret iv \<noteq> None) ivs)"
  by (induction ivs) (auto split: option.split)

context kube_lib
begin

lemma mutate_existing:
  assumes "runs (mutateInstancePod L cfg inst p) tr r" "\<not> isZeroTime (m_CreationTimestamp (pod_Meta p))"
  shows "tr = []"
    and "r = Inr p' \<Longrightarrow> p' = p\<lparr>pod_Meta := (pod_Meta p)\<lparr>m_Labels := podLabels L cfg inst (pod_Labels p),
      m_Annotations := podAnnotations cfg inst (pod_Annotations p), m_Owner := Some (m_UID (in_Meta inst))\<rparr>\<rparr>"
  using assms by (auto simp: mutateInstancePod_def Let_def dest: owner_frame split: sum.splits)

lemma mutate_new:
  assumes "runs (mutateInstancePod L cfg inst p) tr (Inr p')" "isZeroTime (m_CreationTimestamp (pod_Meta p))"
    and "in_Sandbox inst = Some sb"
  obtains cs where "list_all2 (\<lambda>sc c. \<exists>sz. sizesTo inst sc sz \<and> c = buildContainer L sc sz) (sb_Containers sb) cs"
    "p' = p\<lparr>pod_Meta := (pod_Meta p)\<lparr>m_Labels := podLabels L cfg inst (pod_Labels p),
      m_Annotations := podAnnotations cfg inst (pod_Annotations p), m_Owner := Some (m_UID (in_Meta inst))\<rparr>,
      pod_Spec := podSpecOf cfg inst cs\<rparr>"
proof -
  let ?m = "(pod_Meta p)\<lparr>m_Labels := podLabels L cfg inst (pod_Labels p),
      m_Annotations := podAnnotations cfg inst (pod_Annotations p)\<rparr>"
  from assms obtain tr1 cs where cs: "runs (buildContainers L inst (sb_Containers sb)) tr1 (Inr cs)"
    and k: "(case kl_SetControllerReference L (in_Meta inst) ?m of Inl err \<Rightarrow> Inl err
       | Inr meta \<Rightarrow> Inr (p\<lparr>pod_Meta := ?m, pod_Spec := podSpecOf cfg inst cs, pod_Meta := meta\<rparr>)) = Inr p'"
    by (auto simp: mutateInstancePod_def buildPodSpecFromContainers_def Let_def runs_bindE)
  then obtain meta where "kl_SetControllerReference L (in_Meta inst) ?m = Inr meta"
      "p' = p\<lparr>pod_Meta := meta, pod_Spec := podSpecOf cfg inst cs\<rparr>" by (auto split: sum.splits)
  then have p': "p' = p\<lparr>pod_Meta := (pod_Meta p)\<lparr>m_Labels := podLabels L cfg inst (pod_Labels p),
      m_Annotations := podAnnotations cfg inst (pod_Annotations p), m_Owner := Some (m_UID (in_Meta inst))\<rparr>,
      pod_Spec := podSpecOf cfg inst cs\<rparr>" using owner_frame by fastforce
  from buildContainers_run [OF cs] p' show thesis by (rule that)
qed

text \<open>What a container built for a size asks for and is limited to.\<close>

lemma built_limits:
  "q_Value (the (map_of (c_Limits (buildContainer L sc sz)) resourceMemory)) = wrap64 (wrap64 (snd sz * 1024) * 1024)"
  "fst sz > 0 \<Longrightarrow> q_MilliValue (the (map_of (c_Limits (buildContainer L sc sz)) resourceCPU)) = fst sz"
  "map_of (c_Requests (buildContainer L sc sz)) n = Some q \<Longrightarrow> q_IsZero q"
  "map_of (c_Requests (buildContainer L sc sz)) n = None \<longleftrightarrow> map_of (c_Limits (buildContainer L sc sz)) n = None"
  by (auto simp: map_of_containerLimits map_of_zeroSchedulerRequests quantity_value quantity_milli quantity_zero)

end
section \<open>Properties\<close>


definition demoSandboxContainer :: sandboxContainer where
  "demoSandboxContainer =
     \<lparr>sc_Name = ''app'', sc_Image = ''img'', sc_Command = [], sc_Args = [], sc_Env = [], sc_EnvFrom = [],
      sc_Ports = [\<lparr>port_Name = '''', port_Port = 8080\<rparr>],
      sc_Limits = Some [(resourceCPU, \<lparr>q_IsZero = False, q_Value = 2, q_MilliValue = 2000\<rparr>),
                        (resourceMemory, \<lparr>q_IsZero = False, q_Value = 536870912, q_MilliValue = 536870912000\<rparr>)],
      sc_VolumeAttachments = []\<rparr>"

definition demoInst :: instanceObj where
  "demoInst = demoTyped\<lparr>in_Sandbox := Some \<lparr>sb_Containers = [demoSandboxContainer], sb_ImagePullSecrets = []\<rparr>,
     in_Meta := (blankMeta ''ns'' ''vm'')\<lparr>m_UID := ''uid-1'',
       m_Annotations := [(ukcCniEnabledAnnotation, ''false''), (ukcExecEnabledAnnotation, ''true'')],
       m_CreationTimestamp := 1\<rparr>,
     in_Volumes := [\<lparr>iv_Name = ''cfg'', iv_ConfigMap = Some ''cm'', iv_Secret = None, iv_Disk = None\<rparr>,
                    \<lparr>iv_Name = ''data'', iv_ConfigMap = None, iv_Secret = None, iv_Disk = Some ''disk''\<rparr>]\<rparr>"

definition demoConfig :: unikraftProvider where
  "demoConfig = SetObjectDefaults_UnikraftProvider
     \<lparr>up_MetricsServer = \<lparr>ms_BindAddress = '''', ms_SecureServing = False, ms_CertDir = '''', ms_CertName = '''', ms_KeyName = ''''\<rparr>,
      up_WebhookServer = \<lparr>wh_Host = '''', wh_Port = 0, wh_CertDir = '''', wh_CertName = '''', wh_KeyName = ''''\<rparr>,
      up_Downstream = \<lparr>drm_NodeSelector = [], drm_Tolerations = [], drm_EnableCNI = False, drm_EnableVPCNetworking = False,
        drm_EnableScaleToZeroStateful = False, drm_ScaleToZeroPolicy = '''', drm_ScaleToZeroCooldownMS = None,
        drm_ExecPolicy = '''', drm_InstanceDNS = None\<rparr>,
      up_LocationClassName = '''', up_RuntimeClassName = ''''\<rparr>"


text \<open>
  C8. What a new Instance Pod is made of: one container per container of the sandbox, under its
  name and image, limited to the size it resolved to and asking the scheduler for nothing; no
  Kubernetes credential; and exactly the volumes that come from a ConfigMap or a Secret.
\<close>

theorem new_pod_spec:
  assumes "kube_lib L" "in_Sandbox inst = Some sb" "isZeroTime (m_CreationTimestamp (pod_Meta p))"
    and "runs (mutateInstancePod L cfg inst p) tr (Inr p')"
  shows "ps_AutomountServiceAccountToken (pod_Spec p') = Some False \<and>
    map vol_Name (ps_Volumes (pod_Spec p')) =
      map iv_Name (filter (\<lambda>iv. iv_ConfigMap iv \<noteq> None \<or> iv_Secret iv \<noteq> None) (in_Volumes inst)) \<and>
    list_all2 (\<lambda>sc c. c_Name c = sc_Name sc \<and> c_Image c = sc_Image sc \<and>
        (\<exists>cpu mem. sizesTo inst sc (cpu, mem) \<and>
           q_Value (the (map_of (c_Limits c) resourceMemory)) = wrap64 (wrap64 (mem * 1024) * 1024) \<and>
           (case map_of (c_Limits c) resourceCPU of Some q \<Rightarrow> q_MilliValue q = cpu | None \<Rightarrow> cpu \<le> 0)) \<and>
        list_all (\<lambda>(n, q). q_IsZero q) (c_Requests c))
      (sb_Containers sb) (ps_Containers (pod_Spec p'))"
proof -
  obtain cs where
    cs: "list_all2 (\<lambda>sc c. \<exists>sz. sizesTo inst sc sz \<and> c = buildContainer L sc sz) (sb_Containers sb) cs"
    and p': "pod_Spec p' = podSpecOf cfg inst cs"
    by (rule kube_lib.mutate_new [OF assms(1,4,3,2)]) simp
  have z: "list_all (\<lambda>(n, q). q_IsZero q) (zeroSchedulerRequests L l)" for l
    using kube_lib.quantity_zero(1) [OF assms(1)] by (auto simp: zeroSchedulerRequests_def list_all_iff)
  have b: "c_Name c = sc_Name sc \<and> c_Image c = sc_Image sc \<and>
        (\<exists>cpu mem. sizesTo inst sc (cpu, mem) \<and>
           q_Value (the (map_of (c_Limits c) resourceMemory)) = wrap64 (wrap64 (mem * 1024) * 1024) \<and>
           (case map_of (c_Limits c) resourceCPU of Some q \<Rightarrow> q_MilliValue q = cpu | None \<Rightarrow> cpu \<le> 0)) \<and>
        list_all (\<lambda>(n, q). q_IsZero q) (c_Requests c)"
    if "\<exists>sz. sizesTo inst sc sz \<and> c = buildContainer L sc sz" for sc c
  proof -
    from that obtain cpu mem where s: "sizesTo inst sc (cpu, mem)" "c = buildContainer L sc (cpu, mem)" by auto
    have "q_Value (the (map_of (c_Limits c) resourceMemory)) = wrap64 (wrap64 (mem * 1024) * 1024)"
        "case map_of (c_Limits c) resourceCPU of Some q \<Rightarrow> q_MilliValue q = cpu | None \<Rightarrow> cpu \<le> 0"
      using kube_lib.quantity_milli(1) [OF assms(1)] kube_lib.quantity_value(1) [OF assms(1)]
      by (simp_all add: s(2) map_of_containerLimits)
    with s z show ?thesis by auto
  qed
  show ?thesis unfolding p' podSpecOf_sel podVolumes_names by (intro conjI refl list_all2_mono [OF cs] b)
qed

lemma demo_mutate:
  "\<exists>p'. runs (mutateInstancePod stdLib (Some demoConfig) demoInst (blankPod ''ns'' ''vm'')) [] (Inr p') \<and>
     map vol_Name (ps_Volumes (pod_Spec p')) = [''cfg''] \<and>
     map (\<lambda>c. map (q_Value \<circ> snd) (c_Limits c)) (ps_Containers (pod_Spec p')) = [[536870912, 2]]"
proof -
  let ?P = "mutateInstancePod stdLib (Some demoConfig) demoInst (blankPod ''ns'' ''vm'')"
  let ?e = "\<lambda>q. RErr (Api NotFound)"
  have "callsOf ?e ?P = []" and "isl (answer ?e ?P) = False"
    and "map vol_Name (ps_Volumes (pod_Spec (projr (answer ?e ?P)))) = [''cfg'']"
    and "map (\<lambda>c. map (q_Value \<circ> snd) (c_Limits c)) (ps_Containers (pod_Spec (projr (answer ?e ?P)))) = [[536870912, 2]]"
    by code_simp+
  then show ?thesis using runs_callsOf [of ?P ?e] by (metis sum.collapse(2))
qed

theorem new_pod_spec_witness:
  "\<exists>p'. runs (mutateInstancePod stdLib (Some demoConfig) demoInst (blankPod ''ns'' ''vm'')) [] (Inr p') \<and>
     ps_AutomountServiceAccountToken (pod_Spec p') = Some False \<and> length (ps_Containers (pod_Spec p')) = 1"
proof -
  obtain p' where p': "runs (mutateInstancePod stdLib (Some demoConfig) demoInst (blankPod ''ns'' ''vm'')) [] (Inr p')"
    using demo_mutate by blast
  have sb: "in_Sandbox demoInst = Some \<lparr>sb_Containers = [demoSandboxContainer], sb_ImagePullSecrets = []\<rparr>"
    by (simp add: demoInst_def)
  have "isZeroTime (m_CreationTimestamp (pod_Meta (blankPod ''ns'' ''vm'')))"
    by (simp add: blankPod_def blankMeta_def isZeroTime_def)
  from new_pod_spec [OF std.kube_lib_axioms sb this p'] p' show ?thesis
    by (auto dest!: list_all2_lengthD)
qed

text \<open>
  C26. The Service of an Instance selects exactly its Pod: a Service brought to its desired state
  for one Instance matches the labels of a Pod brought to its desired state for another if and
  only if they are the same Instance by name, whatever labels the objects carried before.
\<close>

theorem service_selects_its_pod:
  assumes "identity_labels L" "\<not> isZeroTime (m_CreationTimestamp (pod_Meta p)) \<or> in_Sandbox inst \<noteq> None"
    and "runs (mutateInstancePod L cfg inst p) tr (Inr p')"
    and "mutateInstanceService L inst2 ports svc = Inr svc'"
  shows "(\<forall>(k, v) \<in> set (svc_Selector svc'). map_of (pod_Labels p') k = Some v) \<longleftrightarrow> in_Name inst = in_Name inst2"
proof -
  have K: "kube_lib L" using assms(1) by (simp add: identity_labels_def)
  have "svc_Selector svc' = [(instanceLabel, in_Name inst2)]"
    using assms(4) by (auto simp: mutateInstanceService_def Let_def split: sum.splits if_splits)
  moreover have "pod_Labels p' = podLabels L cfg inst (pod_Labels p)"
  proof (cases "isZeroTime (m_CreationTimestamp (pod_Meta p))")
    case True
    with assms(2) obtain sb where "in_Sandbox inst = Some sb" by auto
    then show ?thesis by (rule kube_lib.mutate_new [OF K assms(3) True]) simp
  next
    case False
    then show ?thesis using kube_lib.mutate_existing(2) [OF K assms(3) False] by auto
  qed
  ultimately show ?thesis using identity_labels.label_mirror(2) [OF assms(1)] by auto
qed

theorem service_selects_its_pod_witness:
  "\<exists>p' svc'. runs (mutateInstancePod stdLib (Some demoConfig) demoInst (blankPod ''ns'' ''vm'')) [] (Inr p') \<and>
     mutateInstanceService stdLib demoInst (servicePortsFor (allPorts demoInst)) (blankService ''ns'' ''vm'') = Inr svc' \<and>
     (\<forall>(k, v) \<in> set (svc_Selector svc'). map_of (pod_Labels p') k = Some v)"
proof -
  obtain p' where p': "runs (mutateInstancePod stdLib (Some demoConfig) demoInst (blankPod ''ns'' ''vm'')) [] (Inr p')"
    using demo_mutate by blast
  have sb: "\<not> isZeroTime (m_CreationTimestamp (pod_Meta (blankPod ''ns'' ''vm''))) \<or> in_Sandbox demoInst \<noteq> None"
    by (simp add: demoInst_def)
  obtain svc' where svc': "mutateInstanceService stdLib demoInst (servicePortsFor (allPorts demoInst)) (blankService ''ns'' ''vm'') = Inr svc'"
    by (simp add: mutateInstanceService_def Let_def stdLib_def)
  from service_selects_its_pod [OF std.identity_labels_axioms sb p' svc'] p' svc' show ?thesis by blast
qed

text \<open>
  An annotation the tenant takes off the Instance stays on the Pod: the mirror only adds and
  overwrites, so a key under the unikraft prefix that is no platform decision keeps its old value.
\<close>

theorem removed_annotation_stays:
  assumes "gomap_ok (m_Annotations (in_Meta inst))" "map_of (m_Annotations (in_Meta inst)) k = None"
    and "tenantAnnotation k" "k \<noteq> ukcExecEnabledAnnotation"
  shows "map_of (podAnnotations cfg inst ann) k = map_of ann k"
  unfolding map_of_podAnnotations [OF assms(1)] using assms(2,3,4) by (simp add: tenantAnnotation_def)

theorem removed_annotation_stays_witness:
  "map_of (podAnnotations (Some demoConfig) demoTyped [(''cloud.unikraft.v1.instances/env'', ''x'')])
     ''cloud.unikraft.v1.instances/env'' = Some ''x''"
proof -
  have "gomap_ok (m_Annotations (in_Meta demoTyped))" "map_of (m_Annotations (in_Meta demoTyped)) ''cloud.unikraft.v1.instances/env'' = None"
    by (simp_all add: demoTyped_def blankMeta_def gomap_ok_def)
  moreover have "tenantAnnotation ''cloud.unikraft.v1.instances/env''" "''cloud.unikraft.v1.instances/env'' \<noteq> ukcExecEnabledAnnotation"
    by code_simp+
  ultimately show ?thesis
    using removed_annotation_stays [of demoTyped _ "Some demoConfig" "[(''cloud.unikraft.v1.instances/env'', ''x'')]"] by simp
qed
end
