(* ===== verification/Recovery.thy ===== *)
theory Recovery
  imports Pod_Builder
begin

text \<open>
  src/internal/controller/instance_recovery.go: the recreation of Instance Pods that kraftlet
  will not start again, after a reboot of the host or a start that got stuck, and the watch on
  Nodes that triggers it.
\<close>

section \<open>Definitions\<close>

definition hostBootIDAnnotation :: string where
  "hostBootIDAnnotation = ''unikraft.datumapis.com/host-boot-id''"

definition kraftletNodePrefix :: string where "kraftletNodePrefix = ''kraftlet-''"

definition stuckStartGracePeriod :: duration where "stuckStartGracePeriod = 2 * minute"

text \<open>A \<open>ctrl.Result\<close>.\<close>

record ctrlResult =
  rs_Requeue :: bool
  rs_RequeueAfter :: duration

definition noRequeue :: ctrlResult where "noRequeue = \<lparr>rs_Requeue = False, rs_RequeueAfter = 0\<rparr>"

definition podKey :: "pod \<Rightarrow> objKey" where "podKey p = (pod_Namespace p, pod_Name p)"

text \<open>
  The comparison of boot IDs. The Pod is passed by reference and a patch replaces it by the
  server's answer, so the Pod is part of the result.
\<close>

definition recordBootID :: "string \<Rightarrow> pod \<Rightarrow> pod" where
  "recordBootID bootID p =
     p\<lparr>pod_Meta := (pod_Meta p)\<lparr>m_Annotations := AList.update hostBootIDAnnotation bootID (pod_Annotations p)\<rparr>\<rparr>"

definition compareBootID :: "string \<Rightarrow> pod \<Rightarrow> (bool \<times> pod) result prog" where
  "compareBootID bootID p =
     (let recorded = strAt (pod_Annotations p) hostBootIDAnnotation
      in if recorded = bootID then Ret (Inr (False, p))
         else if recorded = '''' then
           bindE (wrapP (''failed to record host boot ID on pod '' @ pod_Name p) (patchPod p (recordBootID bootID p)))
             (\<lambda>p'. Ret (Inr (False, p')))
         else Ret (Inr (True, p)))"

definition hostRebootedSince :: "pod \<Rightarrow> (bool \<times> pod) result prog" where
  "hostRebootedSince p =
     (case cutPrefix (ps_NodeName (pod_Spec p)) kraftletNodePrefix of
        None \<Rightarrow> Ret (Inr (False, p))
      | Some host \<Rightarrow>
          if host = '''' then Ret (Inr (False, p))
          else bindP (getNode host)
            (\<lambda>r. case r of
                   Inl err \<Rightarrow>
                     if isNotFound err then Ret (Inr (False, p))
                     else Ret (Inl (Wrapped (''failed to get host node '' @ host @ '' for pod '' @ pod_Name p) err))
                 | Inr node \<Rightarrow>
                     if node_BootID node = '''' then Ret (Inr (False, p))
                     else compareBootID (node_BootID node) p))"

definition deleteInstancePod :: "pod \<Rightarrow> unit result prog" where
  "deleteInstancePod p =
     bindP (deletePodReq (podKey p) (Some (m_UID (pod_Meta p))))
       (\<lambda>r. Ret (case r of
                   Inl err \<Rightarrow>
                     if \<not> isNotFound err \<and> \<not> isConflict err
                     then Inl (Wrapped (''failed to delete instance pod '' @ pod_Name p) err) else Inr ()
                 | Inr u \<Rightarrow> Inr ()))"

text \<open>The loop over the container statuses: the latest finish, or \<open>None\<close> for the early return.\<close>

fun lastFinished :: "containerStatus list \<Rightarrow> time \<Rightarrow> time option" where
  "lastFinished [] finished = Some finished"
| "lastFinished (cs # css) finished =
     (case cs_Terminated cs of
        None \<Rightarrow> None
      | Some t \<Rightarrow>
          if contains (tm_Message t) runtimeImagePullFailed then None
          else lastFinished css (if tm_FinishedAt t > finished then tm_FinishedAt t else finished))"

text \<open>\<open>None\<close> is a Pod that is not stuck, \<open>Some\<close> the rest of the grace period.\<close>

definition stuckStartRemaining :: "pod \<Rightarrow> time \<Rightarrow> duration option" where
  "stuckStartRemaining p now =
     (if pod_Phase p \<noteq> PodPending \<or> pod_ContainerStatuses p = [] then None
      else (case lastFinished (pod_ContainerStatuses p) (m_CreationTimestamp (pod_Meta p)) of
              None \<Rightarrow> None
            | Some finished \<Rightarrow> Some (max (timeSub (finished + stuckStartGracePeriod) now) 0)))"

definition recoverInstancePod :: "time \<Rightarrow> pod \<Rightarrow> (bool \<times> duration \<times> pod) result prog" where
  "recoverInstancePod now p =
     (if isZeroTime (m_CreationTimestamp (pod_Meta p)) \<or> \<not> notDeleting (pod_Meta p)
      then Ret (Inr (False, 0, p))
      else bindE (hostRebootedSince p)
        (\<lambda>(rebooted, p).
           if rebooted then bindE (deleteInstancePod p) (\<lambda>u. Ret (Inr (True, 0, p)))
           else (case stuckStartRemaining p now of
                   None \<Rightarrow> Ret (Inr (False, 0, p))
                 | Some wait \<Rightarrow>
                     if wait > 0 then Ret (Inr (False, wait, p))
                     else bindE (deleteInstancePod p) (\<lambda>u. Ret (Inr (True, 0, p))))))"

text \<open>The map function of the Node watch, on the name of the Node: the requests to enqueue.\<close>

definition hostRebootHandler :: "string \<Rightarrow> objKey list prog" where
  "hostRebootHandler nodeName =
     bindP (listPods [(managedByLabel, managedByValue)])
       (\<lambda>r. Ret (case r of
                   Inl err \<Rightarrow> []
                 | Inr pods \<Rightarrow>
                     map (\<lambda>p. (pod_Namespace p, strAt (pod_Labels p) instanceLabel))
                       (filter (\<lambda>p. ps_NodeName (pod_Spec p) = kraftletNodePrefix @ nodeName) pods)))"

text \<open>The events of the Node watch; an object that is not a Node is \<open>None\<close>.\<close>

datatype nodeEvent = NodeCreate | NodeDelete | NodeGeneric | NodeUpdate "node option" "node option"

fun hostBootIDChanged :: "nodeEvent \<Rightarrow> bool" where
  "hostBootIDChanged (NodeUpdate (Some old) (Some new)) = (node_BootID old \<noteq> node_BootID new)"
| "hostBootIDChanged _ = False"

definition recoveryResult :: "duration \<Rightarrow> ctrlResult" where
  "recoveryResult wait = (if wait > 0 then noRequeue\<lparr>rs_RequeueAfter := wait\<rparr> else noRequeue)"

section \<open>Lemmas\<close>

text \<open>A container that stopped for good: terminated, and not by a failed image pull.\<close>

definition stopped :: "containerStatus \<Rightarrow> bool" where
  "stopped cs = (case cs_Terminated cs of None \<Rightarrow> False | Some z \<Rightarrow> \<not> contains (tm_Message z) runtimeImagePullFailed)"

definition finishedAt :: "containerStatus \<Rightarrow> time" where
  "finishedAt cs = (case cs_Terminated cs of None \<Rightarrow> zeroTime | Some z \<Rightarrow> tm_FinishedAt z)"

lemma lastFinished_eq:
  "lastFinished css f = (if \<forall>cs \<in> set css. stopped cs then Some (fold max (map finishedAt css) f) else None)"
  by (induction css arbitrary: f) (auto simp: stopped_def finishedAt_def max_def split: option.splits)

lemma stuck_after_wait:
  assumes "stuckStartRemaining p now = Some wait" "wait < maxInt64" "now + wait \<le> later"
  shows "stuckStartRemaining p later = Some 0"
proof -
  from assms(1) obtain f where f: "pod_Phase p = PodPending" "pod_ContainerStatuses p \<noteq> []"
      "lastFinished (pod_ContainerStatuses p) (m_CreationTimestamp (pod_Meta p)) = Some f"
      "wait = max (timeSub (f + stuckStartGracePeriod) now) 0"
    by (auto simp: stuckStartRemaining_def split: if_splits option.splits)
  have "f + stuckStartGracePeriod - now \<le> wait" using f(4) assms(2) by (simp add: timeSub_def max_def min_def split: if_splits)
  then have "f + stuckStartGracePeriod - later \<le> 0" using assms(3) by linarith
  then show ?thesis using f(1-3) by (simp add: stuckStartRemaining_def timeSub_def)
qed

lemma compareBootID_calls: "onlyCalls (\<lambda>q. q = PatchPod p (recordBootID b p)) (compareBootID b p)"
  unfolding compareBootID_def Let_def by (auto intro!: onlyCalls_bindE onlyCalls_wrapP)

lemma deleteInstancePod_run:
  assumes "runs (deleteInstancePod p) tr r"
  obtains a where "tr = [(DeletePod (podKey p) (Some (m_UID (pod_Meta p))), a)]"
  using assms by (auto simp: deleteInstancePod_def deletePodReq_def)

text \<open>What counts as evidence that the host rebooted since the Pod was last recorded on it.\<close>

definition rebootSeen :: "pod \<Rightarrow> string \<Rightarrow> node \<Rightarrow> bool" where
  "rebootSeen p host n \<longleftrightarrow> ps_NodeName (pod_Spec p) = kraftletNodePrefix @ host \<and> host \<noteq> '''' \<and>
     node_BootID n \<noteq> '''' \<and> strAt (pod_Annotations p) hostBootIDAnnotation \<notin> {'''', node_BootID n}"

text \<open>And what counts as a start that got stuck.\<close>

definition startStuck :: "pod \<Rightarrow> time \<Rightarrow> bool" where
  "startStuck p now \<longleftrightarrow> pod_Phase p = PodPending \<and> pod_ContainerStatuses p \<noteq> [] \<and>
     m_CreationTimestamp (pod_Meta p) + stuckStartGracePeriod \<le> now \<and>
     (\<forall>cs \<in> set (pod_ContainerStatuses p). stopped cs \<and> finishedAt cs + stuckStartGracePeriod \<le> now)"

lemma fold_max_le: "fold max xs (a::int) \<le> b \<longleftrightarrow> a \<le> b \<and> (\<forall>x \<in> set xs. x \<le> b)"
  by (induction xs arbitrary: a) auto

lemma stuck_iff: "(\<exists>w. stuckStartRemaining p now = Some w \<and> \<not> w > 0) \<longleftrightarrow> startStuck p now"
proof -
  have z: "\<not> max (timeSub x now) 0 > 0 \<longleftrightarrow> x \<le> now" for x by (auto simp: timeSub_def)
  have f: "f + g \<le> now \<longleftrightarrow> f \<le> now - g" for f g :: int by linarith
  show ?thesis
    unfolding startStuck_def stuckStartRemaining_def lastFinished_eq
    by (auto simp del: max_less_iff_conj simp: z f fold_max_le)
qed

lemma hostRebootedSince_run:
  assumes "runs (hostRebootedSince p) tr (Inr (b, p'))"
  shows "if b then p' = p \<and> (\<exists>host n. rebootSeen p host n \<and> tr = [(GetNode host, RNode n)])
         else p' = p \<or> (\<exists>host n. ps_NodeName (pod_Spec p) = kraftletNodePrefix @ host \<and>
           (PatchPod p (recordBootID (node_BootID n) p), RPod p') \<in> set tr \<and> (GetNode host, RNode n) \<in> set tr)"
proof -
  have c: "if b then p' = p \<and> tr = [] \<and> strAt (pod_Annotations p) hostBootIDAnnotation \<notin> {'''', i}
      else p' = p \<or> tr = [(PatchPod p (recordBootID i p), RPod p')]"
    if "runs (compareBootID i p) tr (Inr (b, p'))" for i tr
    using that by (auto simp: compareBootID_def Let_def runs_bindE split: if_splits)
  show ?thesis
    using assms
    by (auto simp: hostRebootedSince_def rebootSeen_def cutPrefix_Some_iff runs_bindP_result dest!: c
        split: option.splits if_splits)
qed

lemma hostRebootedSince_calls:
  "onlyCalls (\<lambda>q. (\<exists>h. q = GetNode h) \<or> (\<exists>b. q = PatchPod p (recordBootID b p))) (hostRebootedSince p)"
  unfolding hostRebootedSince_def
  by (auto intro!: onlyCalls_bindP onlyCalls_mono [OF compareBootID_calls] split: option.split sum.split)

lemma recover_delete_run:
  assumes "runs (bindE (deleteInstancePod p) (\<lambda>u. Ret (Inr (True, 0, p)))) tr r"
  obtains a where "tr = [(DeletePod (podKey p) (Some (m_UID (pod_Meta p))), a)]" "r = Inr (True, 0, p) \<or> (\<exists>e. r = Inl e)"
  using assms by (auto simp: runs_bindE elim!: deleteInstancePod_run)

text \<open>The runs of a recovery: it looks at the host, then deletes the Pod on evidence, or leaves it.\<close>

lemma recoverInstancePod_run:
  assumes "runs (recoverInstancePod now p) tr r"
  obtains (fresh) "tr = []" "r = Inr (False, 0, p)" "isZeroTime (m_CreationTimestamp (pod_Meta p)) \<or> \<not> notDeleting (pod_Meta p)"
    | (err) e where "r = Inl e" "runs (hostRebootedSince p) tr (Inl e)"
    | (left) p' where "runs (hostRebootedSince p) tr (Inr (False, p'))" "stuckStartRemaining p' now = None" "r = Inr (False, 0, p')"
        "notDeleting (pod_Meta p)"
    | (wait) p' w where "runs (hostRebootedSince p) tr (Inr (False, p'))" "stuckStartRemaining p' now = Some w" "w > 0"
        "r = Inr (False, w, p')" "notDeleting (pod_Meta p)"
    | (deleted) b p' tr1 a where "tr = tr1 @ [(DeletePod (podKey p') (Some (m_UID (pod_Meta p'))), a)]"
        "runs (hostRebootedSince p) tr1 (Inr (b, p'))" "b \<or> startStuck p' now"
        "r = Inr (True, 0, p') \<or> (\<exists>e. r = Inl e)"
        "\<not> isZeroTime (m_CreationTimestamp (pod_Meta p))" "notDeleting (pod_Meta p)"
proof (cases "isZeroTime (m_CreationTimestamp (pod_Meta p)) \<or> \<not> notDeleting (pod_Meta p)")
  case True
  then show thesis using assms fresh by (auto simp: recoverInstancePod_def)
next
  case False
  from assms False consider (e) e where "runs (hostRebootedSince p) tr (Inl e)" "r = Inl e"
    | (k) tr1 tr2 b p' where "tr = tr1 @ tr2" "runs (hostRebootedSince p) tr1 (Inr (b, p'))"
        "runs (if b then bindE (deleteInstancePod p') (\<lambda>u. Ret (Inr (True, 0, p')))
           else (case stuckStartRemaining p' now of
                   None \<Rightarrow> Ret (Inr (False, 0, p'))
                 | Some wait \<Rightarrow>
                     if wait > 0 then Ret (Inr (False, wait, p'))
                     else bindE (deleteInstancePod p') (\<lambda>u. Ret (Inr (True, 0, p'))))) tr2 r"
    unfolding recoverInstancePod_def by (auto simp: runs_bindE [of "hostRebootedSince p"] split: prod.splits)
  then show thesis
  proof cases
    case e
    then show thesis by (intro err)
  next
    case k
    consider (del) "b \<or> startStuck p' now" "runs (bindE (deleteInstancePod p') (\<lambda>u. Ret (Inr (True, 0, p')))) tr2 r"
      | (none) "\<not> b" "stuckStartRemaining p' now = None" "tr2 = []" "r = Inr (False, 0, p')"
      | (some) w where "\<not> b" "stuckStartRemaining p' now = Some w" "w > 0" "tr2 = []" "r = Inr (False, w, p')"
      using k(3) stuck_iff [of p' now] by (cases b; cases "stuckStartRemaining p' now") (auto split: if_splits)
    then show thesis
    proof cases
      case del
      from del(2) obtain a where "tr2 = [(DeletePod (podKey p') (Some (m_UID (pod_Meta p'))), a)]"
          "r = Inr (True, 0, p') \<or> (\<exists>e. r = Inl e)" by (rule recover_delete_run)
      with k(1,2) del(1) False show thesis by (intro deleted) auto
    next
      case none
      with k(1,2) False show thesis by (intro left) auto
    next
      case some
      with k(1,2) False show thesis by (intro wait) auto
    qed
  qed
qed

section \<open>Properties\<close>

text \<open>
  C9. A Pod is only deleted on evidence. The recovery deletes at most the Pod it was given, by
  key and UID so that a successor under the same name is safe, never one that is not created or
  already going, and only if its host reports another boot ID than the recorded one, or it sits
  Pending with every container stopped (not on an image pull) for the whole grace period.
\<close>

theorem recovery_deletes_only_lost_pods:
  assumes "runs (recoverInstancePod now p) tr r" "(DeletePod k u, a) \<in> set tr"
  shows "\<not> isZeroTime (m_CreationTimestamp (pod_Meta p)) \<and> notDeleting (pod_Meta p) \<and>
    (\<exists>p'. (p' = p \<or> (\<exists>b. (PatchPod p (recordBootID b p), RPod p') \<in> set tr)) \<and>
      k = podKey p' \<and> u = Some (m_UID (pod_Meta p')) \<and>
      ((\<exists>host n. p' = p \<and> rebootSeen p host n \<and> (GetNode host, RNode n) \<in> set tr) \<or> startStuck p' now))"
proof -
  have nd: "(DeletePod k u, a) \<notin> set tr'" if "runs (hostRebootedSince p) tr' x" for tr' x
    using onlyCallsD [OF hostRebootedSince_calls that] by blast
  show ?thesis
    using assms(1)
  proof (cases rule: recoverInstancePod_run)
    case (deleted b p' tr1 a')
    with assms(2) nd have d: "k = podKey p'" "u = Some (m_UID (pod_Meta p'))" by auto
    show ?thesis
    proof (cases b)
      case True
      then show ?thesis using hostRebootedSince_run [OF deleted(2)] deleted d by auto
    next
      case False
      then show ?thesis using hostRebootedSince_run [OF deleted(2)] deleted d by auto
    qed
  qed (use assms(2) nd in auto)
qed

definition demoPod :: pod where
  "demoPod =
     (blankPod ''ns'' ''vm'')\<lparr>pod_Meta := (blankMeta ''ns'' ''vm'')\<lparr>m_UID := ''pod-1'', m_CreationTimestamp := 0,
        m_Labels := [(managedByLabel, managedByValue), (instanceLabel, ''vm'')],
        m_Annotations := [(hostBootIDAnnotation, ''boot-a'')]\<rparr>,
      pod_Spec := blankPodSpec\<lparr>ps_NodeName := ''kraftlet-h1''\<rparr>, pod_Phase := PodPending,
      pod_ContainerStatuses := [\<lparr>cs_Name = ''app'', cs_Image = ''img'', cs_ContainerID = ''ukc://u-1'', cs_Waiting = None,
        cs_Terminated = Some \<lparr>tm_ExitCode = 1, tm_Reason = ''Error'', tm_Message = ''restore: ENODEV'', tm_FinishedAt = 60 * second\<rparr>,
        cs_LastTerminated = None\<rparr>]\<rparr>"

theorem recovery_deletes_only_lost_pods_witness:
  "startStuck demoPod (180 * second)"
proof -
  let ?n = "\<lparr>node_Name = ''h1'', node_BootID = ''boot-a''\<rparr>"
  let ?env = "\<lambda>q. case q of GetNode h \<Rightarrow> RNode ?n | _ \<Rightarrow> ROk"
  let ?P = "recoverInstancePod (180 * second) demoPod"
  have c: "callsOf ?env ?P = [(GetNode ''h1'', RNode ?n), (DeletePod (''ns'', ''vm'') (Some ''pod-1''), ROk)]"
    by code_simp
  have "\<not> rebootSeen demoPod h n" if "(GetNode h, RNode n) \<in> set (callsOf ?env ?P)" for h n
    using that unfolding c by (simp add: rebootSeen_def demoPod_def strAt_def)
  moreover have "(DeletePod (''ns'', ''vm'') (Some ''pod-1''), ROk) \<in> set (callsOf ?env ?P)"
    unfolding c by simp
  ultimately show ?thesis
    using recovery_deletes_only_lost_pods [OF runs_callsOf [of ?P ?env]] c by fastforce
qed

text \<open>
  C24. A stuck Pod does not stay stuck: the wait the recovery asks for is enough. When it returns
  a wait, then a recovery of the same Pod at any time from the end of that wait deletes it, unless
  a call fails.
\<close>

theorem stuck_pod_is_recovered:
  assumes "runs (recoverInstancePod now p) tr (Inr (False, wait, p'))" "0 < wait" "wait < maxInt64"
    and "now + wait \<le> later" "\<not> isZeroTime (m_CreationTimestamp (pod_Meta p'))" "notDeleting (pod_Meta p')"
    and "strAt (pod_Annotations p') hostBootIDAnnotation \<noteq> ''''"
    and "runs (recoverInstancePod later p') tr' (Inr (d, w, p''))"
  shows "d \<and> w = 0 \<and> p'' = p' \<and> (\<exists>a. (DeletePod (podKey p') (Some (m_UID (pod_Meta p'))), a) \<in> set tr')"
proof -
  from assms(1) have s: "stuckStartRemaining p' now = Some wait"
    by (cases rule: recoverInstancePod_run) (use assms(2) in auto)
  have s': "stuckStartRemaining p' later = Some 0" by (rule stuck_after_wait [OF s assms(3,4)])
  have keep: "q = p'" if "runs (hostRebootedSince p') t (Inr (b, q))" for t b q
    using that assms(7)
    by (auto simp: hostRebootedSince_def compareBootID_def Let_def runs_bindP_result runs_bindE
        split: option.splits if_splits)
  from assms(8) show ?thesis
    by (cases rule: recoverInstancePod_run) (use assms(5,6) s' in \<open>auto dest!: keep\<close>)
qed

theorem stuck_pod_is_recovered_witness:
  "\<exists>tr. runs (recoverInstancePod (100 * second) demoPod)
       [(GetNode ''h1'', RNode \<lparr>node_Name = ''h1'', node_BootID = ''boot-a''\<rparr>)] (Inr (False, 80 * second, demoPod)) \<and>
     runs (recoverInstancePod (180 * second) demoPod) tr (Inr (True, 0, demoPod))"
proof -
  let ?n = "\<lparr>node_Name = ''h1'', node_BootID = ''boot-a''\<rparr>"
  let ?env = "\<lambda>q. case q of GetNode h \<Rightarrow> RNode ?n | _ \<Rightarrow> ROk"
  let ?P = "recoverInstancePod (100 * second) demoPod" and ?Q = "recoverInstancePod (180 * second) demoPod"
  have c: "callsOf ?env ?P = [(GetNode ''h1'', RNode ?n)]" "answer ?env ?P = Inr (False, 80 * second, demoPod)"
    "isl (answer ?env ?Q) = False"
    by code_simp+
  have r: "runs ?P [(GetNode ''h1'', RNode ?n)] (Inr (False, 80 * second, demoPod))"
    using runs_callsOf [of ?P ?env] c by simp
  obtain d w p'' where q: "runs ?Q (callsOf ?env ?Q) (Inr (d, w, p''))"
    using runs_callsOf [of ?Q ?env] c(3) by (metis prod_cases3 sum.collapse(2))
  have h: "100 * second + 80 * second \<le> 180 * second" "0 < 80 * second" "80 * second < maxInt64" by (simp_all add: second_def)
  have p: "\<not> isZeroTime (m_CreationTimestamp (pod_Meta demoPod))" "notDeleting (pod_Meta demoPod)"
    "strAt (pod_Annotations demoPod) hostBootIDAnnotation \<noteq> ''''"
    by (simp_all add: demoPod_def blankMeta_def isZeroTime_def zeroTime_def second_def notDeleting_def strAt_def)
  from stuck_pod_is_recovered [OF r h(2,3,1) p q] q r show ?thesis by auto
qed

text \<open>
  C25. A reboot reaches every instance of the host: a Node update that changes the boot ID passes
  the watch, enqueues the Instance of every managed Pod on that host's kraftlet, and the recovery
  of such a Pod, recorded under the old boot ID, deletes it as its only write.
\<close>

theorem reboot_recovers_instances:
  assumes "node_BootID old \<noteq> node_BootID new" "node_BootID new \<noteq> ''''" "node_Name new \<noteq> ''''"
    and "runs (hostRebootHandler (node_Name new)) [(ListPods [(managedByLabel, managedByValue)], RPods pods)] reqs"
    and "p \<in> set pods" "ps_NodeName (pod_Spec p) = kraftletNodePrefix @ node_Name new"
    and "strAt (pod_Annotations p) hostBootIDAnnotation = node_BootID old" "node_BootID old \<noteq> ''''"
    and "\<not> isZeroTime (m_CreationTimestamp (pod_Meta p))" "notDeleting (pod_Meta p)"
    and "runs (recoverInstancePod now p) ((GetNode (node_Name new), RNode new) # tr) r"
  shows "hostBootIDChanged (NodeUpdate (Some old) (Some new)) \<and>
    (pod_Namespace p, strAt (pod_Labels p) instanceLabel) \<in> set reqs \<and>
    (\<exists>a. tr = [(DeletePod (podKey p) (Some (m_UID (pod_Meta p))), a)])"
proof -
  have "reqs = map (\<lambda>p. (pod_Namespace p, strAt (pod_Labels p) instanceLabel))
      (filter (\<lambda>p. ps_NodeName (pod_Spec p) = kraftletNodePrefix @ node_Name new) pods)"
    using assms(4) by (simp add: hostRebootHandler_def listPods_def)
  then have "(pod_Namespace p, strAt (pod_Labels p) instanceLabel) \<in> set reqs" using assms(5,6) by auto
  moreover have "\<exists>a. tr = [(DeletePod (podKey p) (Some (m_UID (pod_Meta p))), a)]"
  proof -
    have cut: "cutPrefix (ps_NodeName (pod_Spec p)) kraftletNodePrefix = Some (node_Name new)"
      using assms(6) by (simp add: cutPrefix_Some_iff)
    have "runs (bindE (deleteInstancePod p) (\<lambda>u. Ret (Inr (True, 0, p)))) tr r"
      using assms(1-3,7-11) cut
      by (simp add: recoverInstancePod_def hostRebootedSince_def compareBootID_def getNode_def Let_def)
    then show ?thesis by (rule recover_delete_run) blast
  qed
  ultimately show ?thesis using assms(1) by simp
qed

theorem reboot_recovers_instances_witness:
  "(''ns'', ''vm'') \<in> set (answer (\<lambda>q. RPods [demoPod]) (hostRebootHandler ''h1''))"
proof -
  let ?old = "\<lparr>node_Name = ''h1'', node_BootID = ''boot-a''\<rparr>" and ?new = "\<lparr>node_Name = ''h1'', node_BootID = ''boot-b''\<rparr>"
  let ?env = "\<lambda>q. case q of GetNode h \<Rightarrow> RNode ?new | _ \<Rightarrow> ROk"
  let ?H = "hostRebootHandler ''h1''" and ?P = "recoverInstancePod 0 demoPod"
  have h: "runs (hostRebootHandler (node_Name ?new)) [(ListPods [(managedByLabel, managedByValue)], RPods [demoPod])]
      (answer (\<lambda>q. RPods [demoPod]) ?H)"
    using runs_callsOf [of ?H "\<lambda>q. RPods [demoPod]"] by (simp add: hostRebootHandler_def listPods_def)
  have "callsOf ?env ?P = [(GetNode ''h1'', RNode ?new), (DeletePod (''ns'', ''vm'') (Some ''pod-1''), ROk)]" by code_simp
  then have r: "runs ?P ((GetNode (node_Name ?new), RNode ?new) # [(DeletePod (''ns'', ''vm'') (Some ''pod-1''), ROk)]) (answer ?env ?P)"
    using runs_callsOf [of ?P ?env] by simp
  have p: "demoPod \<in> set [demoPod]" "ps_NodeName (pod_Spec demoPod) = kraftletNodePrefix @ node_Name ?new"
    "strAt (pod_Annotations demoPod) hostBootIDAnnotation = node_BootID ?old"
    "\<not> isZeroTime (m_CreationTimestamp (pod_Meta demoPod))" "notDeleting (pod_Meta demoPod)"
    "pod_Namespace demoPod = ''ns''" "strAt (pod_Labels demoPod) instanceLabel = ''vm''"
    by (simp_all add: demoPod_def blankMeta_def isZeroTime_def zeroTime_def second_def notDeleting_def strAt_def kraftletNodePrefix_def)
  have n: "node_BootID ?old \<noteq> node_BootID ?new" "node_BootID ?new \<noteq> ''''" "node_Name ?new \<noteq> ''''" "node_BootID ?old \<noteq> ''''"
    by simp_all
  from reboot_recovers_instances [OF n(1-3) h p(1-3) n(4) p(4,5) r, THEN conjunct2, THEN conjunct1]
  show ?thesis unfolding p(6,7) .
qed

end
