(* ===== verification/Status.thy ===== *)
theory Status
  imports Recovery "HOL-Library.List_Lexorder" "HOL-Library.Char_ord" "HOL-Library.Multiset"
begin

text \<open>
  src/internal/controller/instance_controller.go, the status of the Instance: the conditions
  derived from the Pod, the observed template hash, and the network interfaces of a cell
  without tenant networking.
\<close>

section \<open>Network interfaces\<close>

text \<open>The value of the FQDN annotation: a JSON object from container names to entries.\<close>

record fqdnEntry =
  fq_PrivateFqdn :: string
  fq_ServiceFqdn :: string

type_synonym podFqdns = "(string, fqdnEntry) gomap"

text \<open>The closure \<open>add\<close> on the names seen and the output so far.\<close>

definition addFqdn :: "podFqdns \<Rightarrow> string \<Rightarrow> string list \<times> string list \<Rightarrow> string list \<times> string list" where
  "addFqdn fqdns name so =
     (let (seen, out) = so
      in if name \<in> set seen then (seen, out)
         else (case map_of fqdns name of
                 None \<Rightarrow> (seen, out)
               | Some entry \<Rightarrow>
                   if fq_ServiceFqdn entry = '''' then (seen, out)
                   else (seen @ [name], out @ [fq_ServiceFqdn entry])))"

text \<open>
  The names of the sandbox's containers first, in order, then the remaining names in byte
  order. \<open>U\<close> stands for \<open>json.Unmarshal\<close> into \<open>podFqdns\<close>, \<open>None\<close> being an error.
\<close>

definition orderFqdns :: "string list \<Rightarrow> podFqdns \<Rightarrow> string list" where
  "orderFqdns names fqdns =
     (let (seen, out) = fold (addFqdn fqdns) names ([], []);
          remaining = sort (filter (\<lambda>name. name \<notin> set seen) (map fst fqdns))
      in snd (fold (addFqdn fqdns) remaining (seen, out)))"

definition extractServiceFqdnsFromPod ::
  "(string \<Rightarrow> podFqdns option) \<Rightarrow> instanceObj option \<Rightarrow> pod option \<Rightarrow> string list" where
  "extractServiceFqdnsFromPod U inst p =
     (case p of
        None \<Rightarrow> []
      | Some p \<Rightarrow>
          (case map_of (pod_Annotations p) ukcInstanceFqdnsAnnotation of
             None \<Rightarrow> []
           | Some raw \<Rightarrow>
               if raw = '''' then []
               else (case U raw of
                       None \<Rightarrow> []
                     | Some fqdns \<Rightarrow>
                         orderFqdns
                           (case inst of
                              None \<Rightarrow> []
                            | Some i \<Rightarrow> (case in_Sandbox i of None \<Rightarrow> [] | Some sb \<Rightarrow> map sc_Name (sb_Containers sb)))
                           fqdns)))"

definition buildNetworkInterfaceStatus :: "string \<Rightarrow> string list \<Rightarrow> ifaceStatus list" where
  "buildNetworkInterfaceStatus networkIP serviceFqdns =
     (if networkIP = '''' \<and> serviceFqdns = [] then []
      else (let ipPtr = (if networkIP = '''' then None else Some networkIP)
            in if serviceFqdns = []
               then [\<lparr>if_NetworkIP = ipPtr, if_ExternalIP = None, if_NetworkInterfaceRef = None\<rparr>]
               else map (\<lambda>f. \<lparr>if_NetworkIP = ipPtr, if_ExternalIP = Some f, if_NetworkInterfaceRef = None\<rparr>) serviceFqdns))"

fun strPtrEqual :: "string option \<Rightarrow> string option \<Rightarrow> bool" where
  "strPtrEqual None None = True"
| "strPtrEqual (Some a) (Some b) = (a = b)"
| "strPtrEqual _ _ = False"

fun interfacesEqualFrom :: "ifaceStatus list \<Rightarrow> ifaceStatus list \<Rightarrow> bool" where
  "interfacesEqualFrom (a # as) (b # bs) =
     (if \<not> strPtrEqual (if_NetworkIP a) (if_NetworkIP b) then False
      else if \<not> strPtrEqual (if_ExternalIP a) (if_ExternalIP b) then False
      else interfacesEqualFrom as bs)"
| "interfacesEqualFrom _ _ = True"

definition networkInterfacesEqual :: "ifaceStatus list \<Rightarrow> ifaceStatus list \<Rightarrow> bool" where
  "networkInterfacesEqual a b = (if length a \<noteq> length b then False else interfacesEqualFrom a b)"

section \<open>Conditions\<close>

text \<open>The first container with a waiting reason decides the message of a Pending Pod.\<close>

fun pendingReason :: "containerStatus list \<Rightarrow> string \<times> string" where
  "pendingReason [] = (''Provisioning'', ''Instance is provisioning'')"
| "pendingReason (cs # css) =
     (case cs_Waiting cs of
        None \<Rightarrow> pendingReason css
      | Some w \<Rightarrow> if wt_Reason w \<noteq> '''' then translateWaitingReason (wt_Reason w) else pendingReason css)"

text \<open>The available and the programmed condition, as the switch over deletion, failure and phase leaves them.\<close>

definition powerConditions :: "kubeLib \<Rightarrow> instanceObj \<Rightarrow> pod \<Rightarrow> condition \<times> condition" where
  "powerConditions L inst p =
     (let available = (\<lambda>st reason message.
            \<lparr>cond_Type = kl_InstanceAvailable L, cond_Status = st,
             cond_ObservedGeneration = m_Generation (in_Meta inst), cond_Reason = reason, cond_Message = message\<rparr>);
          programmed = (\<lambda>st reason message.
            \<lparr>cond_Type = kl_InstanceProgrammed L, cond_Status = st,
             cond_ObservedGeneration = m_Generation (in_Meta inst), cond_Reason = reason, cond_Message = message\<rparr>)
      in if \<not> notDeleting (in_Meta inst)
         then (available ConditionFalse (kl_ReasonStopping L) ''Instance is terminating'',
               programmed ConditionFalse (kl_ReasonStopping L) ''Instance is terminating'')
         else
           (case (if pod_Phase p = PodSucceeded then None else containerStartFailure L inst p) of
              Some (failureReason, failureMessage) \<Rightarrow>
                (available ConditionFalse failureReason failureMessage,
                 if failureReason = kl_ReasonInstanceCrashing L
                 then programmed ConditionTrue (kl_ReasonProgrammed L) ''Instance has been programmed''
                 else programmed ConditionFalse failureReason failureMessage)
            | None \<Rightarrow>
                (case pod_Phase p of
                   PodRunning \<Rightarrow>
                     (available ConditionTrue (kl_ReasonAvailable L) ''Instance is available'',
                      programmed ConditionTrue (kl_ReasonProgrammed L) ''Instance is available'')
                 | PodPending \<Rightarrow>
                     (let (reason, message) = pendingReason (pod_ContainerStatuses p)
                      in (available ConditionUnknown reason message,
                          programmed ConditionUnknown (kl_ReasonProgrammingInProgress L) message))
                 | PodSucceeded \<Rightarrow>
                     (available ConditionFalse (kl_ReasonStopping L) ''Instance has stopped'',
                      programmed ConditionFalse (kl_ReasonStopping L) ''Instance has stopped'')
                 | PodFailed \<Rightarrow>
                     (let message = (if pod_Message p = '''' then ''Instance failed'' else pod_Message p)
                      in (available ConditionFalse ''Failed'' message, programmed ConditionFalse ''Failed'' message))
                 | PodPhaseOther x \<Rightarrow>
                     (available ConditionUnknown ''Unknown'' ''Instance state is unknown'',
                      programmed ConditionUnknown (kl_ReasonProgrammingInProgress L) ''Instance state is unknown''))))"

text \<open>The template hash of a running Pod; a missing controller status is created empty.\<close>

definition observeTemplateHash :: "instanceObj \<Rightarrow> pod \<Rightarrow> instanceObj \<times> bool" where
  "observeTemplateHash inst p =
     (if \<not> notDeleting (in_Meta inst) then (inst, False)
      else (case in_Controller inst of
              None \<Rightarrow> (inst, False)
            | Some ctl \<Rightarrow>
                if pod_Phase p \<noteq> PodRunning then (inst, False)
                else (let observed = (case in_ObservedTemplateHash inst of None \<Rightarrow> '''' | Some h \<Rightarrow> h)
                      in if observed \<noteq> ctl_TemplateHash ctl
                         then (inst\<lparr>in_ObservedTemplateHash := Some (ctl_TemplateHash ctl)\<rparr>, True)
                         else (inst\<lparr>in_ObservedTemplateHash := Some observed\<rparr>, False))))"

definition syncInterfaces ::
  "unikraftProvider option \<Rightarrow> (string \<Rightarrow> podFqdns option) \<Rightarrow> pod \<Rightarrow> instanceObj \<times> bool \<Rightarrow> instanceObj \<times> bool" where
  "syncInterfaces cfg U p ic =
     (let (inst, statusChanged) = ic
      in if providerOwnsInterfaceStatus cfg inst
         then (let networkIP = (case pod_PodIPs p of [] \<Rightarrow> '''' | ip # ips \<Rightarrow> ip);
                   desired = buildNetworkInterfaceStatus networkIP (extractServiceFqdnsFromPod U (Some inst) (Some p))
               in if \<not> networkInterfacesEqual (in_StatusInterfaces inst) desired
                  then (inst\<lparr>in_StatusInterfaces := desired\<rparr>, True) else (inst, statusChanged))
         else (inst, statusChanged))"

text \<open>The status the Instance should have, and whether that changes it.\<close>

definition syncedInstance ::
  "kubeLib \<Rightarrow> unikraftProvider option \<Rightarrow> (string \<Rightarrow> podFqdns option) \<Rightarrow> instanceObj \<Rightarrow> pod \<Rightarrow> instanceObj \<times> bool" where
  "syncedInstance L cfg U inst p =
     (let (available, programmed) = powerConditions L inst p;
          (inst, statusChanged) = observeTemplateHash inst p;
          (ch, cs) = kl_SetStatusCondition L (in_Conditions inst) available;
          statusChanged = (ch \<or> statusChanged);
          (ch, cs) = kl_SetStatusCondition L cs programmed;
          statusChanged = (ch \<or> statusChanged)
      in syncInterfaces cfg U p (inst\<lparr>in_Conditions := cs\<rparr>, statusChanged))"

definition syncInstancePowerState ::
  "kubeLib \<Rightarrow> unikraftProvider option \<Rightarrow> (string \<Rightarrow> podFqdns option) \<Rightarrow> instanceObj \<Rightarrow> pod \<Rightarrow> unit result prog" where
  "syncInstancePowerState L cfg U inst p =
     (let (inst', statusChanged) = syncedInstance L cfg U inst p
      in if statusChanged then patchInstanceStatus inst inst' else Ret (Inr ()))"

section \<open>Lemmas\<close>

lemma strPtrEqual_iff [simp]: "strPtrEqual a b \<longleftrightarrow> a = b"
  by (cases "(a, b)" rule: strPtrEqual.cases) auto

lemma networkInterfacesEqual_iff:
  "networkInterfacesEqual a b \<longleftrightarrow>
     map (\<lambda>i. (if_NetworkIP i, if_ExternalIP i)) a = map (\<lambda>i. (if_NetworkIP i, if_ExternalIP i)) b"
proof -
  have "interfacesEqualFrom a b \<longleftrightarrow>
      map (\<lambda>i. (if_NetworkIP i, if_ExternalIP i)) a = map (\<lambda>i. (if_NetworkIP i, if_ExternalIP i)) b"
    if "length a = length b" using that by (induction a b rule: list_induct2) auto
  then show ?thesis by (auto simp: networkInterfacesEqual_def dest: map_eq_imp_length_eq)
qed

lemma noInterfaceRef_iff: "noInterfaceRef is \<longleftrightarrow> (\<forall>i \<in> set is. if_NetworkInterfaceRef i = None)"
  by (induction "is") auto

lemma buildNetworkInterfaceStatus_noRef [simp]: "noInterfaceRef (buildNetworkInterfaceStatus ip fs)"
  by (auto simp: noInterfaceRef_iff buildNetworkInterfaceStatus_def Let_def)

text \<open>The fields of the Instance that the status does not touch decide the desired status.\<close>

lemma startFailureIn_cong: "in_Sandbox i = in_Sandbox j \<Longrightarrow> startFailureIn L i css = startFailureIn L j css"
proof (induction css)
  case (Cons cs css)
  have "imagePullFailure i cs = imagePullFailure j cs" using Cons.prems by (simp only: imagePullFailure_def)
  then show ?case using Cons by (simp only: startFailureIn.simps)
qed simp

lemma powerConditions_cong:
  "in_Sandbox i = in_Sandbox j \<Longrightarrow> in_Meta i = in_Meta j \<Longrightarrow> powerConditions L i p = powerConditions L j p"
  unfolding powerConditions_def containerStartFailure_def by (simp add: startFailureIn_cong [of i j])

lemma powerConditions_types:
  "powerConditions L inst p = (av, pr) \<Longrightarrow> cond_Type av = kl_InstanceAvailable L \<and> cond_Type pr = kl_InstanceProgrammed L"
  by (auto simp: powerConditions_def Let_def split: if_splits option.splits podPhase.splits prod.splits)

lemma observeTemplateHash_frame:
  "observeTemplateHash inst p = (inst', ch) \<Longrightarrow> inst' = inst\<lparr>in_ObservedTemplateHash := in_ObservedTemplateHash inst'\<rparr>"
  by (auto simp: observeTemplateHash_def Let_def split: if_splits option.splits)

lemma syncInterfaces_frame:
  "syncInterfaces cfg U p (inst, ch) = (inst', ch') \<Longrightarrow> inst' = inst\<lparr>in_StatusInterfaces := in_StatusInterfaces inst'\<rparr>"
  by (auto simp: syncInterfaces_def Let_def split: if_splits)

lemma extract_status_irrelevant [simp]:
  "extractServiceFqdnsFromPod U (Some (inst\<lparr>in_StatusInterfaces := is\<rparr>)) p = extractServiceFqdnsFromPod U (Some inst) p"
  unfolding extractServiceFqdnsFromPod_def by (simp split: option.split)

lemma syncInterfaces_again:
  "syncInterfaces cfg U p (inst, ch) = (inst', ch') \<Longrightarrow> syncInterfaces cfg U p (inst', False) = (inst', False)"
  by (auto simp: syncInterfaces_def Let_def providerOwnsInterfaceStatus_def networkInterfacesEqual_iff
      split: if_splits)

lemma observeTemplateHash_again:
  assumes "observeTemplateHash inst p = (inst1, ch)" "in_Meta inst' = in_Meta inst" "in_Controller inst' = in_Controller inst"
    and "in_ObservedTemplateHash inst' = in_ObservedTemplateHash inst1"
  shows "observeTemplateHash inst' p = (inst', False)"
  using assms by (auto simp: observeTemplateHash_def Let_def split: if_splits option.splits)

lemma syncedInstance_parts:
  assumes "syncedInstance L cfg U inst p = (inst', ch)"
  obtains av pr inst1 ch1 c1 cs1 c2 cs2 where "powerConditions L inst p = (av, pr)"
    "observeTemplateHash inst p = (inst1, ch1)" "kl_SetStatusCondition L (in_Conditions inst) av = (c1, cs1)"
    "kl_SetStatusCondition L cs1 pr = (c2, cs2)"
    "syncInterfaces cfg U p (inst1\<lparr>in_Conditions := cs2\<rparr>, c2 \<or> c1 \<or> ch1) = (inst', ch)"
    "inst' = inst\<lparr>in_ObservedTemplateHash := in_ObservedTemplateHash inst1, in_Conditions := cs2,
       in_StatusInterfaces := in_StatusInterfaces inst'\<rparr>"
proof -
  obtain av pr where pc: "powerConditions L inst p = (av, pr)" by (cases "powerConditions L inst p")
  obtain inst1 ch1 where ob: "observeTemplateHash inst p = (inst1, ch1)" by (cases "observeTemplateHash inst p")
  note fr = observeTemplateHash_frame [OF ob]
  have cd: "in_Conditions inst1 = in_Conditions inst" by (subst fr) simp
  obtain c1 cs1 where s1: "kl_SetStatusCondition L (in_Conditions inst) av = (c1, cs1)"
    by (cases "kl_SetStatusCondition L (in_Conditions inst) av")
  obtain c2 cs2 where s2: "kl_SetStatusCondition L cs1 pr = (c2, cs2)" by (cases "kl_SetStatusCondition L cs1 pr")
  have sy: "syncInterfaces cfg U p (inst1\<lparr>in_Conditions := cs2\<rparr>, c2 \<or> c1 \<or> ch1) = (inst', ch)"
    using assms by (simp add: syncedInstance_def pc ob cd s1 s2)
  have "inst' = inst\<lparr>in_ObservedTemplateHash := in_ObservedTemplateHash inst1, in_Conditions := cs2,
       in_StatusInterfaces := in_StatusInterfaces inst'\<rparr>"
    by (subst syncInterfaces_frame [OF sy], subst fr) simp
  then show thesis by (rule that [OF pc ob s1 s2 sy])
qed

context kube_lib
begin

text \<open>What a synchronisation leaves alone, and that it is done after one round.\<close>

lemma synced_frame:
  assumes "syncedInstance L cfg U inst p = (inst', ch)"
  shows "in_Meta inst' = in_Meta inst" "in_Sandbox inst' = in_Sandbox inst" "in_Controller inst' = in_Controller inst"
    "in_Suspended inst' = in_Suspended inst"
    "t \<noteq> kl_InstanceAvailable L \<Longrightarrow> t \<noteq> kl_InstanceProgrammed L \<Longrightarrow>
       findCondition (in_Conditions inst') t = findCondition (in_Conditions inst) t"
    "findCondition (in_Conditions inst') (kl_InstanceAvailable L) = Some (fst (powerConditions L inst p))"
    "findCondition (in_Conditions inst') (kl_InstanceProgrammed L) = Some (snd (powerConditions L inst p))"
proof -
  obtain av pr inst1 ch1 c1 cs1 c2 cs2 where x: "powerConditions L inst p = (av, pr)"
    "observeTemplateHash inst p = (inst1, ch1)" "kl_SetStatusCondition L (in_Conditions inst) av = (c1, cs1)"
    "kl_SetStatusCondition L cs1 pr = (c2, cs2)"
    "syncInterfaces cfg U p (inst1\<lparr>in_Conditions := cs2\<rparr>, c2 \<or> c1 \<or> ch1) = (inst', ch)"
    and i: "inst' = inst\<lparr>in_ObservedTemplateHash := in_ObservedTemplateHash inst1, in_Conditions := cs2,
       in_StatusInterfaces := in_StatusInterfaces inst'\<rparr>"
    by (rule syncedInstance_parts [OF assms])
  have ty: "cond_Type av = kl_InstanceAvailable L" "cond_Type pr = kl_InstanceProgrammed L"
    using powerConditions_types [OF x(1)] by auto
  then have ne: "cond_Type av \<noteq> cond_Type pr" using types_distinct by simp
  have c: "in_Conditions inst' = cs2" by (subst i) simp
  show "in_Meta inst' = in_Meta inst" "in_Sandbox inst' = in_Sandbox inst" "in_Controller inst' = in_Controller inst"
      "in_Suspended inst' = in_Suspended inst"
    by (subst i, simp)+
  show "t \<noteq> kl_InstanceAvailable L \<Longrightarrow> t \<noteq> kl_InstanceProgrammed L \<Longrightarrow>
       findCondition (in_Conditions inst') t = findCondition (in_Conditions inst) t"
    "findCondition (in_Conditions inst') (kl_InstanceAvailable L) = Some (fst (powerConditions L inst p))"
    "findCondition (in_Conditions inst') (kl_InstanceProgrammed L) = Some (snd (powerConditions L inst p))"
    using set_two_conditions [OF x(3,4) ne] ty c x(1) by simp_all
qed

lemma synced_again:
  assumes "syncedInstance L cfg U inst p = (inst', ch)"
  shows "syncedInstance L cfg U inst' p = (inst', False)"
proof -
  note fr = synced_frame [OF assms]
  obtain av pr inst1 ch1 c1 cs1 c2 cs2 where x: "powerConditions L inst p = (av, pr)"
    "observeTemplateHash inst p = (inst1, ch1)" "kl_SetStatusCondition L (in_Conditions inst) av = (c1, cs1)"
    "kl_SetStatusCondition L cs1 pr = (c2, cs2)"
    "syncInterfaces cfg U p (inst1\<lparr>in_Conditions := cs2\<rparr>, c2 \<or> c1 \<or> ch1) = (inst', ch)"
    and i: "inst' = inst\<lparr>in_ObservedTemplateHash := in_ObservedTemplateHash inst1, in_Conditions := cs2,
       in_StatusInterfaces := in_StatusInterfaces inst'\<rparr>"
    by (rule syncedInstance_parts [OF assms])
  have "in_ObservedTemplateHash inst' = in_ObservedTemplateHash inst1" by (subst i) simp
  then have ob: "observeTemplateHash inst' p = (inst', False)"
    by (rule observeTemplateHash_again [OF x(2) fr(1,3)])
  have pc: "powerConditions L inst' p = (av, pr)" using powerConditions_cong [OF fr(2,1)] x(1) by simp
  have "kl_SetStatusCondition L (in_Conditions inst') av = (False, in_Conditions inst')"
      "kl_SetStatusCondition L (in_Conditions inst') pr = (False, in_Conditions inst')"
    using fr(6,7) powerConditions_types [OF x(1)] x(1) by (auto intro!: set_condition_same)
  then show ?thesis
    using syncInterfaces_again [OF x(5)] by (simp add: syncedInstance_def pc ob)
qed

end
section \<open>The order of the service names\<close>

definition hasServiceFqdn :: "podFqdns \<Rightarrow> string \<Rightarrow> bool" where
  "hasServiceFqdn fqdns n = (case map_of fqdns n of None \<Rightarrow> False | Some e \<Rightarrow> fq_ServiceFqdn e \<noteq> '''')"

definition serviceFqdnOf :: "podFqdns \<Rightarrow> string \<Rightarrow> string" where
  "serviceFqdnOf fqdns n = (case map_of fqdns n of None \<Rightarrow> '''' | Some e \<Rightarrow> fq_ServiceFqdn e)"

lemma addFqdn_eq:
  "addFqdn fqdns n (seen, map (serviceFqdnOf fqdns) seen) =
     (let seen' = (if n \<in> set seen \<or> \<not> hasServiceFqdn fqdns n then seen else seen @ [n])
      in (seen', map (serviceFqdnOf fqdns) seen'))"
  by (auto simp: addFqdn_def hasServiceFqdn_def serviceFqdnOf_def split: option.split)

text \<open>The names the loop adds, in the order it adds them.\<close>

fun addedNames :: "podFqdns \<Rightarrow> string list \<Rightarrow> string list \<Rightarrow> string list" where
  "addedNames fqdns [] seen = seen"
| "addedNames fqdns (n # ns) seen =
     addedNames fqdns ns (if n \<in> set seen \<or> \<not> hasServiceFqdn fqdns n then seen else seen @ [n])"

lemma fold_addFqdn:
  "fold (addFqdn fqdns) ns (seen, map (serviceFqdnOf fqdns) seen) =
     (addedNames fqdns ns seen, map (serviceFqdnOf fqdns) (addedNames fqdns ns seen))"
  by (induction ns arbitrary: seen) (simp_all add: addFqdn_eq Let_def)

lemma addedNames_props:
  "distinct seen \<Longrightarrow> distinct (addedNames fqdns ns seen)"
  "set (addedNames fqdns ns seen) = set seen \<union> {n \<in> set ns. hasServiceFqdn fqdns n}"
  by (induction ns arbitrary: seen) auto

lemma addedNames_fresh:
  "distinct ns \<Longrightarrow> set ns \<inter> set seen = {} \<Longrightarrow> addedNames fqdns ns seen = seen @ filter (hasServiceFqdn fqdns) ns"
  by (induction ns arbitrary: seen) auto

lemma orderFqdns_eq:
  assumes "gomap_ok fqdns"
  shows "orderFqdns names fqdns =
    (let first = addedNames fqdns names []
     in map (serviceFqdnOf fqdns) (first @ filter (hasServiceFqdn fqdns) (sort (filter (\<lambda>n. n \<notin> set first) (map fst fqdns)))))"
proof -
  let ?first = "addedNames fqdns names []"
  let ?rem = "sort (filter (\<lambda>n. n \<notin> set ?first) (map fst fqdns))"
  have "fold (addFqdn fqdns) names ([], []) = (?first, map (serviceFqdnOf fqdns) ?first)"
    using fold_addFqdn [of fqdns names "[]"] by simp
  then have "orderFqdns names fqdns = snd (fold (addFqdn fqdns) ?rem (?first, map (serviceFqdnOf fqdns) ?first))"
    unfolding orderFqdns_def by (simp only: Let_def split)
  also have "\<dots> = map (serviceFqdnOf fqdns) (addedNames fqdns ?rem ?first)" by (simp only: fold_addFqdn snd_conv)
  also have "addedNames fqdns ?rem ?first = ?first @ filter (hasServiceFqdn fqdns) ?rem"
    using assms by (intro addedNames_fresh) (auto simp: gomap_ok_def)
  finally show ?thesis by (simp only: Let_def)
qed

lemma hasServiceFqdn_key: "hasServiceFqdn fqdns n \<Longrightarrow> n \<in> fst ` set fqdns"
  by (auto simp: hasServiceFqdn_def split: option.splits dest!: map_of_SomeD intro: rev_image_eqI)

text \<open>What the order of the names is.\<close>

lemma orderFqdns_spec:
  assumes "gomap_ok fqdns" "gomap_ok fqdns'" "map_of fqdns' = map_of fqdns"
  shows "orderFqdns names fqdns' = orderFqdns names fqdns \<and>
    (\<exists>first rest. orderFqdns names fqdns = map (serviceFqdnOf fqdns) (first @ rest) \<and> distinct (first @ rest) \<and>
       set (first @ rest) = {n. hasServiceFqdn fqdns n} \<and> set first \<subseteq> set names \<and> set rest \<inter> set names = {} \<and> sorted rest)"
proof -
  let ?first = "addedNames fqdns names []"
  let ?rest = "filter (hasServiceFqdn fqdns) (sort (filter (\<lambda>n. n \<notin> set ?first) (map fst fqdns)))"
  have f: "set ?first = {n \<in> set names. hasServiceFqdn fqdns n}" "distinct ?first"
    by (simp_all add: addedNames_props)
  have eq: "orderFqdns names fqdns = map (serviceFqdnOf fqdns) (?first @ ?rest)"
    using orderFqdns_eq [OF assms(1), of names] by (simp only: Let_def)
  have "hasServiceFqdn fqdns' = hasServiceFqdn fqdns" "serviceFqdnOf fqdns' = serviceFqdnOf fqdns"
    using assms(3) by (auto simp: hasServiceFqdn_def serviceFqdnOf_def fun_eq_iff)
  moreover have "addedNames fqdns' ns seen = addedNames fqdns ns seen" for ns seen
    by (induction ns arbitrary: seen) (simp_all add: calculation)
  moreover have "sort (filter Q (map fst fqdns')) = sort (filter Q (map fst fqdns))" for Q
  proof -
    have "fst ` set fqdns' = fst ` set fqdns" using assms(3) by (metis dom_map_of_conv_image_fst)
    then have "mset (filter Q (map fst fqdns')) = mset (filter Q (map fst fqdns))"
      using assms(1,2) by (subst set_eq_iff_mset_eq_distinct [symmetric]) (auto simp: gomap_ok_def distinct_filter)
    then show ?thesis by (metis sorted_list_of_multiset_mset)
  qed
  ultimately have "orderFqdns names fqdns' = orderFqdns names fqdns"
    unfolding orderFqdns_eq [OF assms(1)] orderFqdns_eq [OF assms(2)] by simp
  moreover have "distinct (?first @ ?rest)" using assms(1) f(2) by (auto simp: gomap_ok_def)
  moreover have "set (?first @ ?rest) = {n. hasServiceFqdn fqdns n}"
    using f(1) by (auto dest: hasServiceFqdn_key)
  moreover have "set ?first \<subseteq> set names" "set ?rest \<inter> set names = {}" using f(1) by auto
  moreover have "sorted ?rest" by (intro sorted_filter [of id, simplified] sorted_sort)
  ultimately show ?thesis using eq by blast
qed

section \<open>Properties\<close>

text \<open>
  Every service name of the Pod is reported exactly once and in an order that does not depend
  on the iteration order of the map: those of the sandbox's containers first, the others sorted;
  entries without a service name are left out.
\<close>

theorem fqdns_reported_once:
  assumes "gomap_ok fqdns" "gomap_ok fqdns'" "map_of fqdns' = map_of fqdns"
  shows "orderFqdns names fqdns' = orderFqdns names fqdns \<and>
    (\<exists>first rest. orderFqdns names fqdns = map (serviceFqdnOf fqdns) (first @ rest) \<and> distinct (first @ rest) \<and>
       set (first @ rest) = {n. hasServiceFqdn fqdns n} \<and> set first \<subseteq> set names \<and> set rest \<inter> set names = {} \<and> sorted rest)"
  using assms by (rule orderFqdns_spec)

theorem fqdns_reported_once_witness:
  "orderFqdns [''b''] [(''c'', \<lparr>fq_PrivateFqdn = '''', fq_ServiceFqdn = ''c.x''\<rparr>), (''b'', \<lparr>fq_PrivateFqdn = '''', fq_ServiceFqdn = ''b.x''\<rparr>),
     (''a'', \<lparr>fq_PrivateFqdn = '''', fq_ServiceFqdn = ''a.x''\<rparr>)] =
   orderFqdns [''b''] [(''a'', \<lparr>fq_PrivateFqdn = '''', fq_ServiceFqdn = ''a.x''\<rparr>), (''b'', \<lparr>fq_PrivateFqdn = '''', fq_ServiceFqdn = ''b.x''\<rparr>),
     (''c'', \<lparr>fq_PrivateFqdn = '''', fq_ServiceFqdn = ''c.x''\<rparr>)]"
  by (rule fqdns_reported_once [THEN conjunct1]) (auto simp: gomap_ok_def fun_eq_iff)

text \<open>
  C23. The conditions tell the truth about the Pod: an Instance is Available exactly when it is
  not being deleted, its Pod runs and no container is failing to start; it is Programmed exactly
  then or when its container crash-loops, since the platform did start it; an Available Instance
  is Programmed; and both conditions carry the generation they were computed for.
\<close>

theorem conditions_truthful:
  assumes "powerConditions L inst p = (av, pr)"
  shows "(cond_Status av = ConditionTrue \<longleftrightarrow>
      notDeleting (in_Meta inst) \<and> pod_Phase p = PodRunning \<and> containerStartFailure L inst p = None) \<and>
    (cond_Status pr = ConditionTrue \<longleftrightarrow>
      notDeleting (in_Meta inst) \<and>
      (case containerStartFailure L inst p of
         None \<Rightarrow> pod_Phase p = PodRunning
       | Some (reason, message) \<Rightarrow> pod_Phase p \<noteq> PodSucceeded \<and> reason = kl_ReasonInstanceCrashing L)) \<and>
    cond_ObservedGeneration av = m_Generation (in_Meta inst) \<and> cond_ObservedGeneration pr = m_Generation (in_Meta inst)"
  using assms
  by (cases "pod_Phase p"; cases "containerStartFailure L inst p")
     (auto simp: powerConditions_def Let_def split: if_splits prod.splits)

theorem conditions_truthful_witness:
  "\<exists>av pr. powerConditions stdLib demoInst (demoPod\<lparr>pod_Phase := PodRunning, pod_ContainerStatuses := []\<rparr>) = (av, pr) \<and>
     cond_Status av = ConditionTrue"
proof -
  let ?p = "demoPod\<lparr>pod_Phase := PodRunning, pod_ContainerStatuses := []\<rparr>"
  obtain av pr where pc: "powerConditions stdLib demoInst ?p = (av, pr)" by (cases "powerConditions stdLib demoInst ?p")
  have "notDeleting (in_Meta demoInst)" "containerStartFailure stdLib demoInst ?p = None"
    by (simp_all add: demoInst_def blankMeta_def notDeleting_def containerStartFailure_def)
  with conditions_truthful [OF pc] pc show ?thesis by simp
qed

text \<open>
  C10. The status sync writes only what this provider owns, and settles: its one possible call
  patches the status with the two conditions of the Pod, leaves the metadata, the spec and every
  other condition (Ready, QuotaGranted) as they were, and leaves the interfaces alone when another
  controller owns them; and on the patched Instance the sync makes no call at all, so a status
  write never triggers another.
\<close>

theorem status_sync_settles:
  assumes "kube_lib L" "runs (syncInstancePowerState L cfg U inst p) tr r" "(q, a) \<in> set tr"
  shows "\<exists>inst'. q = PatchInstanceStatus inst inst' \<and> tr = [(q, a)] \<and>
    in_Meta inst' = in_Meta inst \<and> in_Sandbox inst' = in_Sandbox inst \<and> in_Suspended inst' = in_Suspended inst \<and>
    (\<forall>t. t \<noteq> kl_InstanceAvailable L \<and> t \<noteq> kl_InstanceProgrammed L \<longrightarrow>
       findCondition (in_Conditions inst') t = findCondition (in_Conditions inst) t) \<and>
    findCondition (in_Conditions inst') (kl_InstanceAvailable L) = Some (fst (powerConditions L inst p)) \<and>
    findCondition (in_Conditions inst') (kl_InstanceProgrammed L) = Some (snd (powerConditions L inst p)) \<and>
    (providerOwnsInterfaceStatus cfg inst \<or> in_StatusInterfaces inst' = in_StatusInterfaces inst) \<and>
    syncInstancePowerState L cfg U inst' p = Ret (Inr ())"
proof -
  obtain inst' ch where s: "syncedInstance L cfg U inst p = (inst', ch)" by (cases "syncedInstance L cfg U inst p")
  note fr = kube_lib.synced_frame [OF assms(1) s]
  have q: "q = PatchInstanceStatus inst inst'" "tr = [(q, a)]"
    using assms(2,3) by (auto simp: syncInstancePowerState_def s patchInstanceStatus_def split: if_splits)
  have again: "syncInstancePowerState L cfg U inst' p = Ret (Inr ())"
    by (simp add: syncInstancePowerState_def kube_lib.synced_again [OF assms(1) s])
  have "in_StatusInterfaces inst' = in_StatusInterfaces inst" if n: "\<not> providerOwnsInterfaceStatus cfg inst"
  proof -
    obtain inst1 cs ch1 where "observeTemplateHash inst p = (inst1, ch1)"
        "\<exists>b. syncInterfaces cfg U p (inst1\<lparr>in_Conditions := cs\<rparr>, b) = (inst', ch)"
      by (rule syncedInstance_parts [OF s]) blast
    moreover from this(1) have "in_StatusInterfaces inst1 = in_StatusInterfaces inst"
      by (subst observeTemplateHash_frame) auto
    ultimately show ?thesis
      using n by (auto simp: syncInterfaces_def providerOwnsInterfaceStatus_def split: if_splits)
  qed
  then show ?thesis using q fr again by blast
qed

theorem status_sync_settles_witness:
  "\<exists>inst'. syncInstancePowerState stdLib (Some demoConfig) (\<lambda>s. None) inst' demoPod = Ret (Inr ()) \<and>
     findCondition (in_Conditions inst') ''Available'' = Some (fst (powerConditions stdLib demoInst demoPod))"
proof -
  let ?P = "syncInstancePowerState stdLib (Some demoConfig) (\<lambda>s. None) demoInst demoPod"
  have "callsOf (\<lambda>q. ROk) ?P \<noteq> []" by code_simp
  then obtain q a where "(q, a) \<in> set (callsOf (\<lambda>q. ROk) ?P)" by (cases "callsOf (\<lambda>q. ROk) ?P") auto
  from status_sync_settles [OF std.kube_lib_axioms runs_callsOf this] show ?thesis
    by (auto simp: stdLib_def)
qed
end
