(* ===== verification/Reconciler.thy ===== *)
theory Reconciler
  imports Status
begin

text \<open>
  src/internal/controller/instance_controller.go, the reconciliation of an Instance: deletion
  behind the finalizer, suspension, and the path that brings Pod, Service and status in line.
\<close>

section \<open>Definitions\<close>

definition requeueAfter :: "duration \<Rightarrow> ctrlResult" where
  "requeueAfter d = noRequeue\<lparr>rs_RequeueAfter := d\<rparr>"

definition requeueNow :: ctrlResult where "requeueNow = noRequeue\<lparr>rs_Requeue := True\<rparr>"

definition withFinalizers :: "(string list \<Rightarrow> string list) \<Rightarrow> instanceObj \<Rightarrow> instanceObj" where
  "withFinalizers f inst = inst\<lparr>in_Meta := (in_Meta inst)\<lparr>m_Finalizers := f (m_Finalizers (in_Meta inst))\<rparr>\<rparr>"

definition hasFinalizer :: "kubeLib \<Rightarrow> instanceObj \<Rightarrow> bool" where
  "hasFinalizer L inst = kl_ContainsFinalizer L (m_Finalizers (in_Meta inst)) instanceFinalizer"

definition addedFinalizer :: "kubeLib \<Rightarrow> instanceObj \<Rightarrow> instanceObj" where
  "addedFinalizer L = withFinalizers (\<lambda>fs. kl_AddFinalizer L fs instanceFinalizer)"

definition removedFinalizer :: "kubeLib \<Rightarrow> instanceObj \<Rightarrow> instanceObj" where
  "removedFinalizer L = withFinalizers (\<lambda>fs. kl_RemoveFinalizer L fs instanceFinalizer)"

text \<open>Whether the backing Pod or Service still exists: a read that finds it, or is not found.\<close>

definition stillExists :: "string \<Rightarrow> 'a result \<Rightarrow> bool result" where
  "stillExists m r =
     (case r of Inr x \<Rightarrow> Inr True | Inl err \<Rightarrow> if isNotFound err then Inr False else Inl (Wrapped m err))"

definition backingResourcesPending :: "instanceObj \<Rightarrow> bool result prog" where
  "backingResourcesPending inst =
     bindE (bindP (getPod (instKey inst))
              (\<lambda>r. Ret (stillExists (''failed to check backing pod for instance '' @ in_Name inst) r)))
       (\<lambda>podExists.
          if podExists then Ret (Inr True)
          else bindP (getService (instKey inst))
                 (\<lambda>r. Ret (stillExists (''failed to check backing service for instance '' @ in_Name inst) r)))"

definition handleDeletion :: "kubeLib \<Rightarrow> instanceObj \<Rightarrow> ctrlResult result prog" where
  "handleDeletion L inst =
     (if \<not> hasFinalizer L inst then Ret (Inr noRequeue)
      else bindE (ignoreNotFound (''failed to delete pod for instance '' @ in_Name inst) (deletePodReq (instKey inst) None))
        (\<lambda>u. bindE (ignoreNotFound (''failed to delete service for instance '' @ in_Name inst) (deleteServiceReq (instKey inst)))
          (\<lambda>u. bindE (backingResourcesPending inst)
            (\<lambda>pending.
               if pending then Ret (Inr (requeueAfter second))
               else bindE (wrapP (''failed to remove finalizer from instance '' @ in_Name inst)
                             (updateInstance (removedFinalizer L inst)))
                      (\<lambda>i. Ret (Inr noRequeue))))))"

definition reconcileSuspended :: "instanceObj \<Rightarrow> ctrlResult result prog" where
  "reconcileSuspended inst =
     bindE (ignoreNotFound (''failed to delete pod for suspended instance '' @ in_Name inst) (deletePodReq (instKey inst) None))
       (\<lambda>u. Ret (Inr noRequeue))"

text \<open>
  \<open>now\<close> is the clock the recovery reads, \<open>U\<close> the JSON decoder of the FQDN annotation.
\<close>

definition reconcileSandboxContainers ::
  "kubeLib \<Rightarrow> unikraftProvider option \<Rightarrow> (string \<Rightarrow> podFqdns option) \<Rightarrow> time \<Rightarrow> instanceObj \<Rightarrow> ctrlResult result prog" where
  "reconcileSandboxContainers L cfg U now inst =
     (if in_Sandbox inst = None then Ret (Inl (Msg ''sandbox runtime is nil''))
      else bindE (wrapP (''failed to create/update pod for instance '' @ in_Name inst)
                    (kl_CreateOrPatchPod L (blankPod (in_Namespace inst) (in_Name inst)) (mutateInstancePod L cfg inst)))
        (\<lambda>p. bindE (recoverInstancePod now p)
          (\<lambda>(deleted, wait, p).
             if deleted then Ret (Inr (requeueAfter (5 * second)))
             else bindE (wrapP (''failed to reconcile service for instance '' @ in_Name inst) (reconcileInstanceService L inst))
               (\<lambda>u. bindP (syncInstancePowerState L cfg U inst p)
                 (\<lambda>r. Ret (case r of
                             Inl err \<Rightarrow>
                               if isConflict err then Inr requeueNow
                               else Inl (Wrapped ''failed to sync instance power state'' err)
                           | Inr u \<Rightarrow> Inr (recoveryResult wait)))))))"

text \<open>The part of \<open>Reconcile\<close> after the Instance was read.\<close>

definition reconcileInstance ::
  "kubeLib \<Rightarrow> unikraftProvider option \<Rightarrow> (string \<Rightarrow> podFqdns option) \<Rightarrow> time \<Rightarrow> instanceObj \<Rightarrow> ctrlResult result prog" where
  "reconcileInstance L cfg U now inst =
     (if \<not> notDeleting (in_Meta inst) then handleDeletion L inst
      else if in_Sandbox inst = None then Ret (Inr noRequeue)
      else if (case in_Controller inst of Some ctl \<Rightarrow> length (ctl_SchedulingGates ctl) > 0 | None \<Rightarrow> False)
      then Ret (Inr noRequeue)
      else if in_Suspended inst then reconcileSuspended inst
      else bindE (if hasFinalizer L inst then Ret (Inr inst)
                  else wrapP (''failed to add finalizer to instance '' @ in_Name inst) (updateInstance (addedFinalizer L inst)))
             (reconcileSandboxContainers L cfg U now))"

definition Reconcile ::
  "kubeLib \<Rightarrow> unikraftProvider option \<Rightarrow> (string \<Rightarrow> podFqdns option) \<Rightarrow> time \<Rightarrow> objKey \<Rightarrow> ctrlResult result prog" where
  "Reconcile L cfg U now req =
     bindP (getInstance req)
       (\<lambda>r. case r of
              Inl err \<Rightarrow>
                if isNotFound err then Ret (Inr noRequeue)
                else Ret (Inl (Wrapped ''failed to get instance'' err))
            | Inr inst \<Rightarrow> reconcileInstance L cfg U now inst)"

section \<open>Runs\<close>

lemma instKey_pod: "cr_key podCrud (blankPod (in_Namespace inst) (in_Name inst)) = instKey inst"
  by (simp add: podCrud_def blankPod_def blankMeta_def instKey_def)

lemma instKey_service: "cr_key serviceCrud (blankService (in_Namespace inst) (in_Name inst)) = instKey inst"
  by (simp add: serviceCrud_def blankService_def blankMeta_def instKey_def)

lemma Reconcile_run:
  assumes "runs (Reconcile L cfg U now req) tr r"
  obtains (unread) a where "tr = [(GetInstance req, a)]" "\<forall>i. a \<noteq> RInstance i"
    | (read) inst tr' where "tr = (GetInstance req, RInstance inst) # tr'" "runs (reconcileInstance L cfg U now inst) tr' r"
proof -
  obtain a tr' where tr: "tr = (GetInstance req, a) # tr'"
    and k: "runs (case (case a of RInstance i \<Rightarrow> Inr i | RErr e \<Rightarrow> Inl e | _ \<Rightarrow> Inl badAnswer) of
          Inl err \<Rightarrow> if isNotFound err then Ret (Inr noRequeue) else Ret (Inl (Wrapped ''failed to get instance'' err))
        | Inr inst \<Rightarrow> reconcileInstance L cfg U now inst) tr' r"
    using assms unfolding Reconcile_def getInstance_def bindP.simps runs_Call by blast
  show thesis
  proof (cases "\<exists>i. a = RInstance i")
    case True
    then show thesis using tr k read by auto
  next
    case False
    then have "tr' = []" using k by (cases a) (auto split: if_splits)
    then show thesis using tr False unread by blast
  qed
qed

text \<open>The calls of a deletion, and the only way it updates the Instance.\<close>

lemma handleDeletion_calls:
  "onlyCalls (\<lambda>q. q \<in> {DeletePod (instKey inst) None, DeleteService (instKey inst), GetPod (instKey inst),
     GetService (instKey inst), UpdateInstance (removedFinalizer L inst)}) (handleDeletion L inst)"
  unfolding handleDeletion_def backingResourcesPending_def
  by (auto intro!: onlyCalls_bindE onlyCalls_bindP onlyCalls_wrapP onlyCalls_ignoreNotFound)

lemma stillExists_False: "stillExists m r = Inr False \<longleftrightarrow> (\<exists>e. r = Inl e \<and> isNotFound e)"
  by (auto simp: stillExists_def split: sum.splits)

lemma gone_aux:
  assumes "runs (bindE (bindP (getPod k) (\<lambda>r. Ret (stillExists m1 r)))
       (\<lambda>b. if b then Ret (Inr True) else bindP (getService k) (\<lambda>r. Ret (stillExists m2 r)))) tr (Inr False)"
  shows "\<exists>e1 e2. tr = [(GetPod k, RErr e1), (GetService k, RErr e2)] \<and> isNotFound e1 \<and> isNotFound e2"
proof -
  from assms obtain tr1 tr2 b where tr: "tr = tr1 @ tr2" "runs (bindP (getPod k) (\<lambda>r. Ret (stillExists m1 r))) tr1 (Inr b)"
      "runs (if b then Ret (Inr True) else bindP (getService k) (\<lambda>r. Ret (stillExists m2 r))) tr2 (Inr False)"
    unfolding runs_bindE by blast
  from tr(3) have b: "\<not> b" by auto
  from tr(2,3) b obtain r1 r2 where p: "runs (getPod k) tr1 r1" "stillExists m1 r1 = Inr False"
    and s: "runs (getService k) tr2 r2" "stillExists m2 r2 = Inr False"
    by (auto simp: runs_bindP)
  from p(2) s(2) obtain e1 e2 where e: "r1 = Inl e1" "r2 = Inl e2" "isNotFound e1" "isNotFound e2"
    unfolding stillExists_False by blast
  have "tr1 = [(GetPod k, RErr e1)]" using runs_client_err(2) [OF p(1) [unfolded e(1)]] e(3) by auto
  moreover have "tr2 = [(GetService k, RErr e2)]" using runs_client_err(3) [OF s(1) [unfolded e(2)]] e(4) by auto
  ultimately show ?thesis using tr(1) e by simp
qed

lemma backingResourcesPending_gone:
  assumes "runs (backingResourcesPending inst) tr (Inr False)"
  shows "\<exists>e1 e2. tr = [(GetPod (instKey inst), RErr e1), (GetService (instKey inst), RErr e2)] \<and> isNotFound e1 \<and> isNotFound e2"
  using assms unfolding backingResourcesPending_def by (rule gone_aux)

lemma ignoreNotFound_calls1:
  assumes "runs (ignoreNotFound m (deletePodReq k u)) tr r" shows "\<exists>a. tr = [(DeletePod k u, a)]"
  using assms by (auto simp: ignoreNotFound_def runs_bindP deletePodReq_def)

lemma ignoreNotFound_calls2:
  assumes "runs (ignoreNotFound m (deleteServiceReq k)) tr r" shows "\<exists>a. tr = [(DeleteService k, a)]"
  using assms by (auto simp: ignoreNotFound_def runs_bindP deleteServiceReq_def)

lemma update_run:
  assumes "runs (bindE (wrapP m (updateInstance i)) (\<lambda>j. Ret (Inr x))) tr r" shows "\<exists>a. tr = [(UpdateInstance i, a)]"
  using assms by (auto simp: runs_bindE runs_wrapP updateInstance_def)

lemma handleDeletion_release:
  assumes "runs (handleDeletion L inst) tr r" "(UpdateInstance i, a) \<in> set tr"
  shows "hasFinalizer L inst \<and> i = removedFinalizer L inst \<and>
    (\<exists>a1 a2 e1 e2. tr = [(DeletePod (instKey inst) None, a1), (DeleteService (instKey inst), a2),
       (GetPod (instKey inst), RErr e1), (GetService (instKey inst), RErr e2), (UpdateInstance i, a)] \<and>
       isNotFound e1 \<and> isNotFound e2)"
proof -
  let ?k = "instKey inst"
  let ?p1 = "ignoreNotFound (''failed to delete pod for instance '' @ in_Name inst) (deletePodReq ?k None)"
  let ?p2 = "ignoreNotFound (''failed to delete service for instance '' @ in_Name inst) (deleteServiceReq ?k)"
  let ?p4 = "wrapP (''failed to remove finalizer from instance '' @ in_Name inst) (updateInstance (removedFinalizer L inst))"
  let ?k3 = "\<lambda>pending. if pending then Ret (Inr (requeueAfter second)) else bindE ?p4 (\<lambda>i. Ret (Inr noRequeue))"
  have fin: "hasFinalizer L inst" using assms by (auto simp: handleDeletion_def split: if_splits)
  have n1: "(UpdateInstance i, a) \<notin> set t" if "runs ?p1 t x" for t x using ignoreNotFound_calls1 [OF that] by auto
  have n2: "(UpdateInstance i, a) \<notin> set t" if "runs ?p2 t x" for t x using ignoreNotFound_calls2 [OF that] by auto
  have oc: "onlyCalls (\<lambda>q. q \<in> {GetPod ?k, GetService ?k}) (backingResourcesPending inst)"
    unfolding backingResourcesPending_def by (auto intro!: onlyCalls_bindE onlyCalls_bindP)
  have n3: "(UpdateInstance i, a) \<notin> set t" if "runs (backingResourcesPending inst) t x" for t x
    using onlyCallsD [OF oc that] by blast
  from assms(1) fin have run: "runs (bindE ?p1 (\<lambda>u. bindE ?p2 (\<lambda>u. bindE (backingResourcesPending inst) ?k3))) tr r"
    by (simp only: handleDeletion_def if_True if_False not_True_eq_False)
  from run assms(2) n1 obtain t1 t2 u where 1: "tr = t1 @ t2" "runs ?p1 t1 (Inr u)"
      "runs (bindE ?p2 (\<lambda>u. bindE (backingResourcesPending inst) ?k3)) t2 r"
    unfolding runs_bindE [of ?p1] by blast
  then have "(UpdateInstance i, a) \<in> set t2" using n1 assms(2) by auto
  with 1(3) n2 obtain t3 t4 u' where 2: "t2 = t3 @ t4" "runs ?p2 t3 (Inr u')" "runs (bindE (backingResourcesPending inst) ?k3) t4 r"
    unfolding runs_bindE [of ?p2] by blast
  then have "(UpdateInstance i, a) \<in> set t4" using n2 \<open>(UpdateInstance i, a) \<in> set t2\<close> by auto
  with 2(3) n3 obtain t5 t6 b where 3: "t4 = t5 @ t6" "runs (backingResourcesPending inst) t5 (Inr b)" "runs (?k3 b) t6 r"
    unfolding runs_bindE [of "backingResourcesPending inst"] by blast
  then have u6: "(UpdateInstance i, a) \<in> set t6" using n3 \<open>(UpdateInstance i, a) \<in> set t4\<close> by auto
  then have b: "\<not> b" using 3(3) by (auto split: if_splits)
  with 3(3) have "runs (bindE ?p4 (\<lambda>i. Ret (Inr noRequeue))) t6 r" by simp
  from update_run [OF this] obtain a' where "t6 = [(UpdateInstance (removedFinalizer L inst), a')]" by blast
  with u6 have "t6 = [(UpdateInstance i, a)]" "i = removedFinalizer L inst" by auto
  moreover obtain a1 a2 where "t1 = [(DeletePod ?k None, a1)]" "t3 = [(DeleteService ?k, a2)]"
    using ignoreNotFound_calls1 [OF 1(2)] ignoreNotFound_calls2 [OF 2(2)] by blast
  moreover obtain e1 e2 where "t5 = [(GetPod ?k, RErr e1), (GetService ?k, RErr e2)]" "isNotFound e1" "isNotFound e2"
    using backingResourcesPending_gone [of inst t5] 3(2) b by auto
  ultimately show ?thesis using fin 1(1) 2(1) 3(1) by simp
qed

section \<open>The path of a running Instance\<close>

text \<open>The calls of \<open>reconcileSandboxContainers\<close>, by what they are made for.\<close>

definition sandboxCall :: "kubeLib \<Rightarrow> unikraftProvider option \<Rightarrow> instanceObj \<Rightarrow> request \<Rightarrow> bool" where
  "sandboxCall L cfg inst q \<longleftrightarrow>
     q = GetPod (instKey inst) \<or> readsType q \<or>
     (\<exists>p tr. q = CreatePod p \<and> runs (mutateInstancePod L cfg inst (blankPod (in_Namespace inst) (in_Name inst))) tr (Inr p)) \<or>
     (\<exists>p p' tr. q = PatchPod p p' \<and> runs (mutateInstancePod L cfg inst p) tr (Inr p')) \<or>
     (\<exists>h. q = GetNode h) \<or> (\<exists>p b. q = PatchPod p (recordBootID b p)) \<or> (\<exists>k u. q = DeletePod k (Some u)) \<or>
     q = DeleteService (instKey inst) \<or> q = GetService (instKey inst) \<or>
     (\<exists>s. q = CreateService s \<and>
        mutateInstanceService L inst (servicePortsFor (allPorts inst)) (blankService (in_Namespace inst) (in_Name inst)) = Inr s) \<or>
     (\<exists>s s'. q = PatchService s s' \<and> mutateInstanceService L inst (servicePortsFor (allPorts inst)) s = Inr s') \<or>
     (\<exists>i. q = PatchInstanceStatus inst i)"

definition recoveryCall :: "request \<Rightarrow> bool" where
  "recoveryCall q \<longleftrightarrow> (\<exists>h. q = GetNode h) \<or> (\<exists>p b. q = PatchPod p (recordBootID b p)) \<or> (\<exists>k u. q = DeletePod k (Some u))"

lemma recover_calls:
  "onlyCalls recoveryCall
     (recoverInstancePod now p)"
proof -
  have h: "onlyCalls recoveryCall (hostRebootedSince p)" for p
    by (rule onlyCalls_mono [OF hostRebootedSince_calls]) (auto simp: recoveryCall_def)
  have d: "onlyCalls recoveryCall (deleteInstancePod p)" for p
    unfolding deleteInstancePod_def by (intro onlyCalls_bindP) (simp_all add: recoveryCall_def)
  show ?thesis
    unfolding recoverInstancePod_def by (auto intro!: onlyCalls_bindE h d split: option.split)
qed

lemma maxCalls_recover: "maxCalls 3 (recoverInstancePod now p)"
proof -
  have c: "maxCalls 1 (compareBootID b p)" for b p
  proof -
    have "maxCalls (1 + 0) (bindE (wrapP m (patchPod p (recordBootID b p))) (\<lambda>p'. Ret (Inr (False, p'))))" for m
      by (intro maxCalls_bindE maxCalls_wrapP maxCalls_client) simp
    then show ?thesis by (simp add: compareBootID_def Let_def)
  qed
  have "maxCalls (1 + 1) (bindP (getNode host) (\<lambda>r. case r of
        Inl err \<Rightarrow> if isNotFound err then Ret (Inr (False, p)) else Ret (Inl (Wrapped m err))
      | Inr node \<Rightarrow> if node_BootID node = '''' then Ret (Inr (False, p)) else compareBootID (node_BootID node) p))" for host m p
    using c by (intro maxCalls_bindP maxCalls_client) (auto split: sum.split)
  then have h: "maxCalls 2 (hostRebootedSince p)" for p
    by (simp add: hostRebootedSince_def numeral_2_eq_2 split: option.split)
  have "maxCalls (1 + 0) (deleteInstancePod p)" for p
    unfolding deleteInstancePod_def by (intro maxCalls_bindP maxCalls_client) simp
  then have d: "maxCalls (1 + 0) (bindE (deleteInstancePod p) (\<lambda>u. Ret (Inr (True, 0, p))))" for p :: pod
    by (intro maxCalls_bindE) simp_all
  have "maxCalls (2 + 1) (bindE (hostRebootedSince p) (\<lambda>(rebooted, p).
           if rebooted then bindE (deleteInstancePod p) (\<lambda>u. Ret (Inr (True, 0, p)))
           else (case stuckStartRemaining p now of
                   None \<Rightarrow> Ret (Inr (False, 0, p))
                 | Some wait \<Rightarrow>
                     if wait > 0 then Ret (Inr (False, wait, p))
                     else bindE (deleteInstancePod p) (\<lambda>u. Ret (Inr (True, 0, p))))))"
    using d by (intro maxCalls_bindE h) (auto split: option.split prod.split)
  then show ?thesis by (simp add: recoverInstancePod_def)
qed

context kube_lib
begin

lemma createOrPatchPod_calls:
  "onlyCalls (sandboxCall L cfg inst)
     (kl_CreateOrPatchPod L (blankPod (in_Namespace inst) (in_Name inst)) (mutateInstancePod L cfg inst))"
  unfolding onlyCalls_def
proof (intro allI impI ballI)
  fix tr r c
  let ?b = "blankPod (in_Namespace inst) (in_Name inst)"
  assume run: "runs (kl_CreateOrPatchPod L ?b (mutateInstancePod L cfg inst)) tr r" and c: "c \<in> set tr"
  obtain q a where qa: "c = (q, a)" by (cases c)
  from create_or_patch_pod [OF run] c have "createOrPatchRun podCrud ?b (mutateInstancePod L cfg inst) tr r" "(q, a) \<in> set tr"
    by (simp_all add: qa)
  then show "sandboxCall L cfg inst (fst c)"
  proof (cases rule: createOrPatchRun_calls)
    case get
    then show ?thesis using instKey_pod [of inst] by (simp add: sandboxCall_def qa podCrud_def)
  next
    case (callback ob tr' m)
    then show ?thesis using onlyCallsD [OF mutateInstancePod_reads callback] by (simp add: sandboxCall_def qa)
  next
    case (create ob' tr')
    then show ?thesis by (auto simp: sandboxCall_def qa podCrud_def)
  next
    case (patch b ob ob' tr')
    then show ?thesis by (auto simp: sandboxCall_def qa podCrud_def)
  qed
qed

lemma createOrPatchService_calls:
  "onlyCalls (sandboxCall L cfg inst)
     (kl_CreateOrPatchService L (blankService (in_Namespace inst) (in_Name inst))
        (\<lambda>svc. Ret (mutateInstanceService L inst (servicePortsFor (allPorts inst)) svc)))"
  unfolding onlyCalls_def
proof (intro allI impI ballI)
  fix tr r c
  let ?b = "blankService (in_Namespace inst) (in_Name inst)"
  let ?f = "\<lambda>svc. Ret (mutateInstanceService L inst (servicePortsFor (allPorts inst)) svc)"
  assume run: "runs (kl_CreateOrPatchService L ?b ?f) tr r" and c: "c \<in> set tr"
  obtain q a where qa: "c = (q, a)" by (cases c)
  from create_or_patch_service [OF run] c have "createOrPatchRun serviceCrud ?b ?f tr r" "(q, a) \<in> set tr"
    by (simp_all add: qa)
  then show "sandboxCall L cfg inst (fst c)"
  proof (cases rule: createOrPatchRun_calls)
    case get
    then show ?thesis using instKey_service [of inst] by (simp add: sandboxCall_def qa serviceCrud_def)
  next
    case (callback ob tr' m)
    then show ?thesis by simp
  next
    case (create ob' tr')
    then show ?thesis by (auto simp: sandboxCall_def qa serviceCrud_def)
  next
    case (patch b ob ob' tr')
    then show ?thesis by (auto simp: sandboxCall_def qa serviceCrud_def)
  qed
qed

lemma reconcileInstanceService_calls: "onlyCalls (sandboxCall L cfg inst) (reconcileInstanceService L inst)"
  unfolding reconcileInstanceService_def
  by (intro onlyCalls_if onlyCalls_ignoreNotFound onlyCalls_bindE onlyCalls_wrapP createOrPatchService_calls)
     (simp_all add: sandboxCall_def)

lemma syncInstancePowerState_calls: "onlyCalls (sandboxCall L cfg inst) (syncInstancePowerState L cfg' U inst p)"
  by (auto simp: syncInstancePowerState_def sandboxCall_def split: prod.split)

lemma reconcileSandboxContainers_calls: "onlyCalls (sandboxCall L cfg inst) (reconcileSandboxContainers L cfg U now inst)"
proof -
  have r: "onlyCalls (sandboxCall L cfg inst) (recoverInstancePod now p)" for p
    by (rule onlyCalls_mono [OF recover_calls]) (auto simp: sandboxCall_def recoveryCall_def)
  show ?thesis
    unfolding reconcileSandboxContainers_def
    by (auto intro!: onlyCalls_bindE onlyCalls_bindP onlyCalls_wrapP createOrPatchPod_calls r
        reconcileInstanceService_calls syncInstancePowerState_calls split: prod.split)
qed

end

section \<open>How many calls\<close>

abbreviation containerCount :: "instanceObj \<Rightarrow> nat" where
  "containerCount inst \<equiv> (case in_Sandbox inst of None \<Rightarrow> 0 | Some sb \<Rightarrow> length (sb_Containers sb))"

lemma maxCalls_resolve: "maxCalls 1 (resolveContainerResources (Some inst) (Some sc) (Some instanceTypeReaderFromClient))"
proof -
  have "maxCalls (1 + 0) (instanceTypeReaderFromClient n)" for n
    unfolding instanceTypeReaderFromClient_def by (intro maxCalls_bindP maxCalls_client) simp
  then have "maxCalls (1 + 0) (bindE (wrapP m (instanceTypeReaderFromClient n)) (\<lambda>t. Ret (Inr (typeSizing t))))" for m n
    by (intro maxCalls_bindE maxCalls_wrapP) simp_all
  then have "maxCalls 1 (publishedSizing (Some inst) (Some instanceTypeReaderFromClient))"
    by (simp add: publishedSizing_def)
  then have "maxCalls (1 + 0) (bindE (publishedSizing (Some inst) (Some instanceTypeReaderFromClient))
      (\<lambda>published. bindE (Ret (fallbackSizing (Some inst) published)) (\<lambda>catalog. Ret (Inr (mergeResources ec em catalog)))))" for ec em
    using maxCalls_bindE [of 0 "Ret (fallbackSizing (Some inst) _)" 0]
    by (intro maxCalls_bindE [of _ "publishedSizing _ _"]) (assumption, force)
  then show ?thesis by (simp add: resolveContainerResources_def Let_def split: prod.split)
qed

lemma maxCalls_buildContainers: "maxCalls (length scs) (buildContainers L inst scs)"
proof (induction scs)
  case (Cons sc scs)
  have "maxCalls (length scs + 0) (bindE (buildContainers L inst scs) (\<lambda>cs. Ret (Inr (buildContainer L sc sz # cs))))" for sz
    by (intro maxCalls_bindE Cons) simp
  then have "maxCalls (1 + length scs) (buildContainers L inst (sc # scs))"
    unfolding buildContainers.simps by (intro maxCalls_bindE maxCalls_wrapP maxCalls_resolve) simp
  then show ?case by simp
qed simp

lemma maxCalls_mutateInstancePod: "maxCalls (containerCount inst) (mutateInstancePod L cfg inst p)"
proof -
  let ?scs = "case in_Sandbox inst of Some sb \<Rightarrow> sb_Containers sb | None \<Rightarrow> []"
  have cc: "containerCount inst = length ?scs" by (simp split: option.split)
  have "maxCalls (length ?scs + 0) (buildPodSpecFromContainers L cfg inst ?scs)"
    unfolding buildPodSpecFromContainers_def by (intro maxCalls_bindE maxCalls_buildContainers) simp
  then have "maxCalls (containerCount inst + 0) (bindE (buildPodSpecFromContainers L cfg inst ?scs) (\<lambda>spec. Ret (Inr (f spec))))" for f :: "podSpec \<Rightarrow> pod"
    unfolding cc add_0_right by (rule maxCalls_bindE [of _ _ 0, unfolded add_0_right]) simp
  then have "maxCalls (containerCount inst + 0) (mutateInstancePod L cfg inst p)"
    unfolding mutateInstancePod_def Let_def by (intro maxCalls_bindE) simp_all
  then show ?thesis by simp
qed

context kube_lib
begin

lemma maxCalls_reconcileInstanceService: "maxCalls 2 (reconcileInstanceService L inst)"
proof -
  let ?f = "\<lambda>svc. Ret (mutateInstanceService L inst (servicePortsFor (allPorts inst)) svc)"
  have "maxCalls 2 (kl_CreateOrPatchService L s ?f)" for s
    unfolding maxCalls_def using createOrPatchRun_length [of serviceCrud s ?f _ _ 0] create_or_patch_service by fastforce
  then have "maxCalls (2 + 0) (bindE (wrapP m (kl_CreateOrPatchService L s ?f)) (\<lambda>svc. Ret (Inr ())))" for m s
    by (intro maxCalls_bindE maxCalls_wrapP) simp_all
  moreover have "maxCalls 2 (ignoreNotFound m (deleteServiceReq k))" for m k
    by (rule maxCalls_mono [OF maxCalls_ignoreNotFound [OF maxCalls_client(7)]]) simp
  ultimately show ?thesis by (simp add: reconcileInstanceService_def)
qed

lemma maxCalls_reconcileSandboxContainers: "maxCalls (containerCount inst + 8) (reconcileSandboxContainers L cfg U now inst)"
proof -
  have s: "maxCalls 1 (syncInstancePowerState L cfg U inst p)" for p
    using maxCalls_client(10) by (auto simp: syncInstancePowerState_def simp del: One_nat_def split: prod.split)
  let ?tail = "\<lambda>m wait p. bindE (wrapP m (reconcileInstanceService L inst))
      (\<lambda>u. bindP (syncInstancePowerState L cfg U inst p) (\<lambda>r. Ret (case r of
          Inl err \<Rightarrow> if isConflict err then Inr requeueNow else Inl (Wrapped ''failed to sync instance power state'' err)
        | Inr u \<Rightarrow> Inr (recoveryResult wait))))"
  have t: "maxCalls (2 + (1 + 0)) (?tail m wait p)" for m wait p
    by (intro maxCalls_bindE maxCalls_wrapP maxCalls_reconcileInstanceService maxCalls_bindP s) simp
  have c: "maxCalls (containerCount inst + 2) (kl_CreateOrPatchPod L b (mutateInstancePod L cfg inst))" for b
    unfolding maxCalls_def
    using createOrPatchRun_length [OF create_or_patch_pod, where f = "mutateInstancePod L cfg inst"] maxCalls_mutateInstancePod by blast
  have "maxCalls ((containerCount inst + 2) + (3 + 3)) (bindE (wrapP m (kl_CreateOrPatchPod L b (mutateInstancePod L cfg inst)))
        (\<lambda>p. bindE (recoverInstancePod now p) (\<lambda>(deleted, wait, p).
             if deleted then Ret (Inr (requeueAfter (5 * second))) else ?tail m' wait p)))" for m b m'
    using t by (intro maxCalls_bindE maxCalls_wrapP c maxCalls_recover) (auto simp: numeral_3_eq_3 split: prod.split)
  then show ?thesis by (simp add: reconcileSandboxContainers_def add.commute)
qed

end


section \<open>The cases of a reconcile\<close>

definition gated :: "instanceObj \<Rightarrow> bool" where
  "gated inst = (case in_Controller inst of Some ctl \<Rightarrow> length (ctl_SchedulingGates ctl) > 0 | None \<Rightarrow> False)"

lemma reconcileInstance_gated:
  "notDeleting (in_Meta inst) \<Longrightarrow> in_Sandbox inst = None \<or> gated inst \<Longrightarrow> reconcileInstance L cfg U now inst = Ret (Inr noRequeue)"
  unfolding reconcileInstance_def gated_def by presburger

lemma reconcileInstance_suspended:
  "notDeleting (in_Meta inst) \<Longrightarrow> in_Sandbox inst \<noteq> None \<Longrightarrow> \<not> gated inst \<Longrightarrow> in_Suspended inst \<Longrightarrow>
     reconcileInstance L cfg U now inst = reconcileSuspended inst"
  unfolding reconcileInstance_def gated_def by presburger

lemma reconcileInstance_active:
  "notDeleting (in_Meta inst) \<Longrightarrow> in_Sandbox inst \<noteq> None \<Longrightarrow> \<not> gated inst \<Longrightarrow> \<not> in_Suspended inst \<Longrightarrow>
     reconcileInstance L cfg U now inst =
       bindE (if hasFinalizer L inst then Ret (Inr inst)
              else wrapP (''failed to add finalizer to instance '' @ in_Name inst) (updateInstance (addedFinalizer L inst)))
         (reconcileSandboxContainers L cfg U now)"
  unfolding reconcileInstance_def gated_def by presburger

lemma delete_run:
  assumes "runs (bindE (ignoreNotFound m (deletePodReq k u)) (\<lambda>v. Ret (Inr x))) tr r" shows "\<exists>a. tr = [(DeletePod k u, a)]"
  using assms by (auto simp: runs_bindE ignoreNotFound_def runs_bindP deletePodReq_def)

lemma reconcileInstance_run:
  assumes "runs (reconcileInstance L cfg U now inst) tr r"
  obtains (deleting) "\<not> notDeleting (in_Meta inst)" "runs (handleDeletion L inst) tr r"
    | (skipped) "notDeleting (in_Meta inst)" "in_Sandbox inst = None \<or> gated inst" "tr = []" "r = Inr noRequeue"
    | (suspended) a where "notDeleting (in_Meta inst)" "in_Sandbox inst \<noteq> None" "\<not> gated inst" "in_Suspended inst"
        "tr = [(DeletePod (instKey inst) None, a)]"
    | (unguarded) a where "notDeleting (in_Meta inst)" "in_Sandbox inst \<noteq> None" "\<not> gated inst" "\<not> in_Suspended inst"
        "tr = [(UpdateInstance (addedFinalizer L inst), a)]" "\<forall>i. a \<noteq> RInstance i"
    | (active) inst' tr1 tr2 where "notDeleting (in_Meta inst)" "in_Sandbox inst \<noteq> None" "\<not> gated inst" "\<not> in_Suspended inst"
        "tr = tr1 @ tr2" "runs (reconcileSandboxContainers L cfg U now inst') tr2 r"
        "(tr1 = [] \<and> inst' = inst \<and> hasFinalizer L inst) \<or> tr1 = [(UpdateInstance (addedFinalizer L inst), RInstance inst')]"
proof -
  let ?m = "''failed to add finalizer to instance '' @ in_Name inst"
  consider (d) "\<not> notDeleting (in_Meta inst)" | (s) "notDeleting (in_Meta inst)" "in_Sandbox inst = None \<or> gated inst"
    | (p) "notDeleting (in_Meta inst)" "in_Sandbox inst \<noteq> None" "\<not> gated inst" "in_Suspended inst"
    | (a) "notDeleting (in_Meta inst)" "in_Sandbox inst \<noteq> None" "\<not> gated inst" "\<not> in_Suspended inst" by blast
  then show thesis
  proof cases
    case d
    then show thesis using assms deleting by (simp add: reconcileInstance_def)
  next
    case s
    then show thesis using assms skipped by (simp add: reconcileInstance_gated)
  next
    case p
    then have "runs (reconcileSuspended inst) tr r" using assms reconcileInstance_suspended [OF p] by metis
    from delete_run [OF this [unfolded reconcileSuspended_def]] obtain a where "tr = [(DeletePod (instKey inst) None, a)]" by blast
    then show thesis by (rule suspended [OF p])
  next
    case a
    then have "runs (bindE (if hasFinalizer L inst then Ret (Inr inst) else wrapP ?m (updateInstance (addedFinalizer L inst)))
        (reconcileSandboxContainers L cfg U now)) tr r"
      using assms by (simp only: reconcileInstance_active [OF a])
    then consider (e) e where "runs (if hasFinalizer L inst then Ret (Inr inst) else wrapP ?m (updateInstance (addedFinalizer L inst))) tr (Inl e)"
      | (k) tr1 tr2 inst' where "tr = tr1 @ tr2" "runs (reconcileSandboxContainers L cfg U now inst') tr2 r"
         "runs (if hasFinalizer L inst then Ret (Inr inst) else wrapP ?m (updateInstance (addedFinalizer L inst))) tr1 (Inr inst')"
      unfolding runs_bindE by blast
    then show thesis
    proof cases
      case e
      have "\<not> hasFinalizer L inst" using e by (auto split: if_splits)
      with e obtain x where x: "runs (updateInstance (addedFinalizer L inst)) tr x" "mapErr (Wrapped ?m) x = Inl e"
        by (auto simp: runs_wrapP)
      then obtain e' where "x = Inl e'" by (cases x) (auto simp: mapErr_def)
      with x(1) have "tr \<noteq> [(UpdateInstance (addedFinalizer L inst), RInstance i)]" for i
        by (auto simp: updateInstance_def)
      with runs_client_err(5) x(1) \<open>x = Inl e'\<close> unguarded [OF a] show thesis by blast
    next
      case k
      show thesis
      proof (cases "hasFinalizer L inst")
        case True
        then show thesis using k active [OF a, of "[]" tr2 inst] by auto
      next
        case False
        then show thesis using k active [OF a k(1,2)] by auto
      qed
    qed
  qed
qed

lemma sandboxCall_update [simp]: "\<not> sandboxCall L cfg inst (UpdateInstance i)"
  by (simp add: sandboxCall_def)

lemma handleDeletion_noCreate: "runs (handleDeletion L inst) tr r \<Longrightarrow> (q, a) \<in> set tr \<Longrightarrow> q \<noteq> CreatePod p \<and> q \<noteq> CreateService s \<and> q \<noteq> PatchPod p p'"
  using onlyCallsD [OF handleDeletion_calls, of L inst tr r q a] by auto

context kube_lib
begin

lemma hasFinalizer_iff: "hasFinalizer L inst \<longleftrightarrow> instanceFinalizer \<in> set (m_Finalizers (in_Meta inst))"
  by (simp add: hasFinalizer_def contains_finalizer)

lemma added_has: "instanceFinalizer \<in> set (m_Finalizers (in_Meta (addedFinalizer L inst)))"
  by (simp add: addedFinalizer_def withFinalizers_def add_finalizer)

lemma release_only_when_gone:
  assumes "runs (Reconcile L cfg U now req) tr r" "(UpdateInstance i, a) \<in> set tr"
    and "instanceFinalizer \<notin> set (m_Finalizers (in_Meta i))"
  shows "\<exists>inst a1 a2 e1 e2. \<not> notDeleting (in_Meta inst) \<and> i = removedFinalizer L inst \<and>
    tr = [(GetInstance req, RInstance inst), (DeletePod (instKey inst) None, a1), (DeleteService (instKey inst), a2),
      (GetPod (instKey inst), RErr e1), (GetService (instKey inst), RErr e2), (UpdateInstance i, a)] \<and>
    isNotFound e1 \<and> isNotFound e2"
  using assms(1)
proof (cases rule: Reconcile_run)
  case (unread b)
  then show ?thesis using assms(2) by simp
next
  case (read inst tr')
  with assms(2) have u: "(UpdateInstance i, a) \<in> set tr'" by simp
  from read(2) show ?thesis
  proof (cases rule: reconcileInstance_run)
    case deleting
    then show ?thesis using handleDeletion_release [OF deleting(2) u] read(1) by blast
  next
    case (active inst' tr1 tr2)
    have "(UpdateInstance i, a) \<notin> set tr2"
      using onlyCallsD [OF reconcileSandboxContainers_calls active(6)] by fastforce
    then show ?thesis using active u assms(3) added_has by auto
  qed (use u assms(3) added_has in auto)
qed

lemma create_only_when_guarded:
  assumes "runs (Reconcile L cfg U now req) tr r" "(q, a) \<in> set tr"
    and "(\<exists>p. q = CreatePod p) \<or> (\<exists>s. q = CreateService s)"
  shows "\<exists>inst tr'. tr = (GetInstance req, RInstance inst) # tr' \<and> notDeleting (in_Meta inst) \<and>
    in_Sandbox inst \<noteq> None \<and> \<not> gated inst \<and> \<not> in_Suspended inst \<and>
    (instanceFinalizer \<in> set (m_Finalizers (in_Meta inst)) \<or>
     (\<exists>i' tr''. tr' = (UpdateInstance (addedFinalizer L inst), RInstance i') # tr'' \<and> (q, a) \<in> set tr'' \<and>
        instanceFinalizer \<in> set (m_Finalizers (in_Meta (addedFinalizer L inst)))))"
  using assms(1)
proof (cases rule: Reconcile_run)
  case (unread b)
  then show ?thesis using assms(2,3) by auto
next
  case (read inst tr')
  with assms(2,3) have q: "(q, a) \<in> set tr'" by auto
  from read(2) show ?thesis
  proof (cases rule: reconcileInstance_run)
    case deleting
    then show ?thesis using handleDeletion_noCreate [OF deleting(2) q] assms(3) by blast
  next
    case (active inst' tr1 tr2)
    from active(7) show ?thesis
    proof
      assume "tr1 = [] \<and> inst' = inst \<and> hasFinalizer L inst"
      then show ?thesis using active(1-4) read(1) hasFinalizer_iff by blast
    next
      assume t: "tr1 = [(UpdateInstance (addedFinalizer L inst), RInstance inst')]"
      then have "(q, a) \<in> set tr2" using q active(5) assms(3) by auto
      then show ?thesis using t active(1-5) read(1) added_has by auto
    qed
  qed (use q assms(3) in auto)
qed

lemma guarded_prefix:
  assumes "runs (Reconcile L cfg U now req) (tr @ (q, a) # tr') r" "q = CreatePod p"
  shows "(\<exists>i. (GetInstance req, RInstance i) \<in> set tr \<and> instanceFinalizer \<in> set (m_Finalizers (in_Meta i))) \<or>
    (\<exists>i j k. (GetInstance req, RInstance k) \<in> set tr \<and> (UpdateInstance i, RInstance j) \<in> set tr \<and>
       instKey i = instKey k \<and> instanceFinalizer \<in> set (m_Finalizers (in_Meta i)))"
proof -
  have "(q, a) \<in> set (tr @ (q, a) # tr')" by simp
  from create_only_when_guarded [OF assms(1) this] assms(2) obtain inst tr1 where
    full: "tr @ (q, a) # tr' = (GetInstance req, RInstance inst) # tr1"
    and g: "instanceFinalizer \<in> set (m_Finalizers (in_Meta inst)) \<or>
     (\<exists>i' tr''. tr1 = (UpdateInstance (addedFinalizer L inst), RInstance i') # tr'')" by blast
  from full assms(2) obtain tr2 where tr: "tr = (GetInstance req, RInstance inst) # tr2" "tr2 @ (q, a) # tr' = tr1"
    by (auto simp: append_eq_Cons_conv)
  from g show ?thesis
  proof
    assume "instanceFinalizer \<in> set (m_Finalizers (in_Meta inst))"
    then show ?thesis using tr(1) by auto
  next
    assume "\<exists>i' tr''. tr1 = (UpdateInstance (addedFinalizer L inst), RInstance i') # tr''"
    then obtain i' tr3 where "tr2 = (UpdateInstance (addedFinalizer L inst), RInstance i') # tr3"
      using tr(2) assms(2) by (auto simp: append_eq_Cons_conv)
    moreover have "instKey (addedFinalizer L inst) = instKey inst"
      by (simp add: addedFinalizer_def withFinalizers_def instKey_def)
    ultimately show ?thesis using tr(1) added_has [of inst] by fastforce
  qed
qed

end

section \<open>Properties\<close>

text \<open>
  C2. The finalizer is released last: a reconcile that writes the Instance without the provider's
  finalizer has read it as deleting, has deleted its Pod and its Service, and after that has seen
  both of them gone; the write is its last call.
\<close>

theorem finalizer_released_last:
  assumes "kube_lib L" "runs (Reconcile L cfg U now req) tr r" "(UpdateInstance i, a) \<in> set tr"
    and "instanceFinalizer \<notin> set (m_Finalizers (in_Meta i))"
  shows "\<exists>inst a1 a2 e1 e2. \<not> notDeleting (in_Meta inst) \<and> i = removedFinalizer L inst \<and>
    tr = [(GetInstance req, RInstance inst), (DeletePod (instKey inst) None, a1), (DeleteService (instKey inst), a2),
      (GetPod (instKey inst), RErr e1), (GetService (instKey inst), RErr e2), (UpdateInstance i, a)] \<and>
    isNotFound e1 \<and> isNotFound e2"
  by (rule kube_lib.release_only_when_gone [OF assms])

definition demoDeleting :: instanceObj where
  "demoDeleting = demoInst\<lparr>in_Meta := (in_Meta demoInst)\<lparr>m_DeletionTimestamp := Some 5, m_Finalizers := [instanceFinalizer]\<rparr>\<rparr>"

definition goneEnv :: "request \<Rightarrow> response" where
  "goneEnv q = (case q of GetInstance k \<Rightarrow> RInstance demoDeleting | UpdateInstance i \<Rightarrow> RInstance i | _ \<Rightarrow> RErr (Api NotFound))"

theorem finalizer_released_last_witness:
  "\<exists>a1 a2 e1 e2. callsOf goneEnv (Reconcile stdLib (Some demoConfig) (\<lambda>s. None) 0 (''ns'', ''vm'')) =
     [(GetInstance (''ns'', ''vm''), RInstance demoDeleting), (DeletePod (instKey demoDeleting) None, a1),
      (DeleteService (instKey demoDeleting), a2), (GetPod (instKey demoDeleting), RErr e1),
      (GetService (instKey demoDeleting), RErr e2),
      (UpdateInstance (removedFinalizer stdLib demoDeleting), RInstance (removedFinalizer stdLib demoDeleting))]"
proof -
  let ?P = "Reconcile stdLib (Some demoConfig) (\<lambda>s. None) 0 (''ns'', ''vm'')"
  let ?i = "removedFinalizer stdLib demoDeleting"
  have "(UpdateInstance ?i, RInstance ?i) \<in> set (callsOf goneEnv ?P)"
    and "instanceFinalizer \<notin> set (m_Finalizers (in_Meta ?i))"
    and h: "hd (callsOf goneEnv ?P) = (GetInstance (''ns'', ''vm''), RInstance demoDeleting)" by code_simp+
  from finalizer_released_last [OF std.kube_lib_axioms runs_callsOf this(1,2)] h show ?thesis by auto
qed

text \<open>
  C5. Nothing is created that could be orphaned: a reconcile creates a Pod or a Service only for an
  Instance it read as a sandbox, neither deleting nor suspended nor held by a scheduling gate, and
  only with the finalizer on it: either it was there, or a write that added it has been accepted
  before.
\<close>

theorem creation_guarded:
  assumes "kube_lib L" "runs (Reconcile L cfg U now req) tr r" "(q, a) \<in> set tr"
    and "(\<exists>p. q = CreatePod p) \<or> (\<exists>s. q = CreateService s)"
  shows "\<exists>inst tr'. tr = (GetInstance req, RInstance inst) # tr' \<and> notDeleting (in_Meta inst) \<and>
    in_Sandbox inst \<noteq> None \<and> \<not> gated inst \<and> \<not> in_Suspended inst \<and>
    (instanceFinalizer \<in> set (m_Finalizers (in_Meta inst)) \<or>
     (\<exists>i' tr''. tr' = (UpdateInstance (addedFinalizer L inst), RInstance i') # tr'' \<and> (q, a) \<in> set tr'' \<and>
        instanceFinalizer \<in> set (m_Finalizers (in_Meta (addedFinalizer L inst)))))"
  by (rule kube_lib.create_only_when_guarded [OF assms])

text \<open>A cluster for the witnesses: the Instance exists, its Pod does not, and cannot be created now.\<close>

definition freshEnv :: "request \<Rightarrow> response" where
  "freshEnv q =
     (case q of GetInstance k \<Rightarrow> RInstance demoInst | UpdateInstance i \<Rightarrow> RInstance i
      | CreatePod p \<Rightarrow> RErr (Api (ApiOther ''quota'')) | _ \<Rightarrow> RErr (Api NotFound))"

fun isCreatePod :: "request \<Rightarrow> bool" where
  "isCreatePod (CreatePod p) = True"
| "isCreatePod _ = False"

lemma demo_reconcile:
  "list_ex (\<lambda>c. isCreatePod (fst c)) (callsOf freshEnv (Reconcile stdLib (Some demoConfig) (\<lambda>s. None) 0 (''ns'', ''vm'')))"
  by code_simp

lemma demo_creates:
  "\<exists>p a. (CreatePod p, a) \<in> set (callsOf freshEnv (Reconcile stdLib (Some demoConfig) (\<lambda>s. None) 0 (''ns'', ''vm'')))"
proof -
  have i: "isCreatePod q \<Longrightarrow> \<exists>p. q = CreatePod p" for q by (cases q) auto
  from demo_reconcile obtain c where "c \<in> set (callsOf freshEnv (Reconcile stdLib (Some demoConfig) (\<lambda>s. None) 0 (''ns'', ''vm'')))"
      "isCreatePod (fst c)" unfolding list_ex_iff by blast
  with i show ?thesis by (metis prod.collapse)
qed

theorem creation_guarded_witness:
  "\<exists>tr' i' tr''. callsOf freshEnv (Reconcile stdLib (Some demoConfig) (\<lambda>s. None) 0 (''ns'', ''vm'')) =
     (GetInstance (''ns'', ''vm''), RInstance demoInst) # tr' \<and>
     tr' = (UpdateInstance (addedFinalizer stdLib demoInst), RInstance i') # tr''"
proof -
  let ?P = "Reconcile stdLib (Some demoConfig) (\<lambda>s. None) 0 (''ns'', ''vm'')"
  obtain p a where "(CreatePod p, a) \<in> set (callsOf freshEnv ?P)"
    using demo_creates by blast
  from creation_guarded [OF std.kube_lib_axioms runs_callsOf this] obtain inst tr' where
    c: "callsOf freshEnv ?P = (GetInstance (''ns'', ''vm''), RInstance inst) # tr'"
      "instanceFinalizer \<in> set (m_Finalizers (in_Meta inst)) \<or>
       (\<exists>i' tr''. tr' = (UpdateInstance (addedFinalizer stdLib inst), RInstance i') # tr'')" by blast
  moreover have "inst = demoInst" using c(1) by (simp add: Reconcile_def getInstance_def freshEnv_def)
  moreover have "m_Finalizers (in_Meta demoInst) = []" by (simp add: demoInst_def blankMeta_def)
  ultimately show ?thesis by auto
qed

text \<open>
  C7. A Pod that exists keeps its spec: every patch of a Pod that a reconcile sends leaves the
  spec, the phase and the container statuses as they were found, whatever has changed on the
  Instance; only labels, annotations and the owner move.
\<close>

theorem pod_spec_immutable:
  assumes "kube_lib L" "runs (Reconcile L cfg U now req) tr r" "(PatchPod p p', a) \<in> set tr"
    and "\<not> isZeroTime (m_CreationTimestamp (pod_Meta p))"
  shows "pod_Spec p' = pod_Spec p \<and> pod_Phase p' = pod_Phase p \<and>
    pod_ContainerStatuses p' = pod_ContainerStatuses p \<and> podKey p' = podKey p"
proof -
  have sandbox: ?thesis if "sandboxCall L cfg inst (PatchPod p p')" for inst
  proof -
    from that consider (mut) tr' where "runs (mutateInstancePod L cfg inst p) tr' (Inr p')" | (boot) b where "p' = recordBootID b p"
      by (auto simp: sandboxCall_def)
    then show ?thesis
    proof cases
      case mut
      then show ?thesis using kube_lib.mutate_existing(2) [OF assms(1) mut assms(4)] by (simp add: podKey_def)
    next
      case boot
      then show ?thesis by (simp add: recordBootID_def podKey_def)
    qed
  qed
  from assms(2) show ?thesis
  proof (cases rule: Reconcile_run)
    case (unread b)
    then show ?thesis using assms(3) by simp
  next
    case (read inst tr')
    with assms(3) have q: "(PatchPod p p', a) \<in> set tr'" by simp
    from read(2) show ?thesis
    proof (cases rule: reconcileInstance_run)
      case deleting
      then show ?thesis using handleDeletion_noCreate [OF deleting(2) q] by blast
    next
      case (active inst' tr1 tr2)
      have "(PatchPod p p', a) \<in> set tr2" using q active(5,7) by auto
      then show ?thesis
        using sandbox onlyCallsD [OF kube_lib.reconcileSandboxContainers_calls [OF assms(1)] active(6)] by blast
    qed (use q in auto)
  qed
qed

definition changedEnv :: "request \<Rightarrow> response" where
  "changedEnv q =
     (case q of GetInstance k \<Rightarrow> RInstance (addedFinalizer stdLib demoInst) | GetPod k \<Rightarrow> RPod demoPod | _ \<Rightarrow> RErr (Api Conflict))"

fun isPatchPod :: "request \<Rightarrow> bool" where
  "isPatchPod (PatchPod p p') = (p = demoPod)"
| "isPatchPod _ = False"

theorem pod_spec_immutable_witness:
  "\<exists>p' a. (PatchPod demoPod p', a) \<in> set (callsOf changedEnv (Reconcile stdLib (Some demoConfig) (\<lambda>s. None) 0 (''ns'', ''vm''))) \<and>
     pod_Spec p' = pod_Spec demoPod"
proof -
  let ?P = "Reconcile stdLib (Some demoConfig) (\<lambda>s. None) 0 (''ns'', ''vm'')"
  have "list_ex (\<lambda>c. isPatchPod (fst c)) (callsOf changedEnv ?P)" by code_simp
  then obtain c where c: "c \<in> set (callsOf changedEnv ?P)" "isPatchPod (fst c)" unfolding list_ex_iff by blast
  from c(2) obtain p' where "fst c = PatchPod demoPod p'" by (cases "fst c") auto
  with c(1) have m: "(PatchPod demoPod p', snd c) \<in> set (callsOf changedEnv ?P)" by (metis prod.collapse)
  have "\<not> isZeroTime (m_CreationTimestamp (pod_Meta demoPod))"
    by (simp add: demoPod_def isZeroTime_def zeroTime_def second_def)
  with pod_spec_immutable [OF std.kube_lib_axioms runs_callsOf m] m show ?thesis by blast
qed



text \<open>
  C16. A deletion gets through: while the Pod lingers, every reconcile asks to be run again a second
  later and leaves the finalizer on, and the first one that finds Pod and Service gone takes it off,
  if the deletes and the update are accepted.
\<close>

theorem deletion_gets_through:
  fixes env :: "nat \<Rightarrow> request \<Rightarrow> response"
  assumes "kube_lib L" "\<not> notDeleting (in_Meta inst)" "instanceFinalizer \<in> set (m_Finalizers (in_Meta inst))"
    and "\<And>i. env i (GetInstance req) = RInstance inst"
    and "\<And>i. env i (DeletePod (instKey inst) None) \<in> {ROk, RErr (Api NotFound)}"
    and "\<And>i. env i (DeleteService (instKey inst)) \<in> {ROk, RErr (Api NotFound)}"
    and "\<And>i. env i (GetPod (instKey inst)) = (if i < n then RPod p else RErr (Api NotFound))"
    and "\<And>i. env i (GetService (instKey inst)) = RErr (Api NotFound)"
    and "env n (UpdateInstance (removedFinalizer L inst)) = RInstance inst'"
  shows "(\<forall>i < n. answer (env i) (Reconcile L cfg U now req) = Inr (requeueAfter second) \<and>
      (\<forall>j a. (UpdateInstance j, a) \<notin> set (callsOf (env i) (Reconcile L cfg U now req)))) \<and>
    answer (env n) (Reconcile L cfg U now req) = Inr noRequeue \<and>
    last (callsOf (env n) (Reconcile L cfg U now req)) = (UpdateInstance (removedFinalizer L inst), RInstance inst') \<and>
    instanceFinalizer \<notin> set (m_Finalizers (in_Meta (removedFinalizer L inst)))"
proof -
  let ?k = "instKey inst"
  have fin: "hasFinalizer L inst" using assms(1,3) by (simp add: kube_lib.hasFinalizer_iff)
  have R: "answer (env i) (Reconcile L cfg U now req) = answer (env i) (handleDeletion L inst)"
      "callsOf (env i) (Reconcile L cfg U now req) = (GetInstance req, RInstance inst) # callsOf (env i) (handleDeletion L inst)" for i
    using assms(2,4) by (simp_all add: Reconcile_def getInstance_def reconcileInstance_def)
  have D: "answer (env i) (ignoreNotFound m (deletePodReq ?k None)) = Inr ()"
      "callsOf (env i) (ignoreNotFound m (deletePodReq ?k None)) = [(DeletePod ?k None, env i (DeletePod ?k None))]" for i m
    using assms(5) [of i] by (auto simp: ignoreNotFound_def deletePodReq_def okAnswer_def)
  have S: "answer (env i) (ignoreNotFound m (deleteServiceReq ?k)) = Inr ()"
      "callsOf (env i) (ignoreNotFound m (deleteServiceReq ?k)) = [(DeleteService ?k, env i (DeleteService ?k))]" for i m
    using assms(6) [of i] by (auto simp: ignoreNotFound_def deleteServiceReq_def okAnswer_def)
  have B: "answer (env i) (backingResourcesPending inst) = Inr (i < n)" for i
    using assms(7,8) [of i] by (simp add: backingResourcesPending_def answer_simps getPod_def getService_def stillExists_def)
  have BC: "(UpdateInstance j, a) \<notin> set (callsOf (env i) (backingResourcesPending inst))" for i j a
    by (auto simp: backingResourcesPending_def answer_simps getPod_def getService_def split: sum.splits)
  have U: "answer (env n) (wrapP m (updateInstance (removedFinalizer L inst))) = Inr inst'"
      "callsOf (env n) (wrapP m (updateInstance (removedFinalizer L inst))) = [(UpdateInstance (removedFinalizer L inst), RInstance inst')]" for m
    using assms(9) by (simp_all add: updateInstance_def)
  have "instanceFinalizer \<notin> set (m_Finalizers (in_Meta (removedFinalizer L inst)))"
    by (simp add: removedFinalizer_def withFinalizers_def kube_lib.remove_finalizer [OF assms(1)])
  then show ?thesis
    unfolding R handleDeletion_def using fin BC
    by (simp add: answer_bindE callsOf_bindE D S B U)
qed

definition lingeringEnv :: "nat \<Rightarrow> request \<Rightarrow> response" where
  "lingeringEnv i q = (case q of GetPod k \<Rightarrow> if i < 2 then RPod demoPod else goneEnv q | _ \<Rightarrow> goneEnv q)"

theorem deletion_gets_through_witness:
  "answer (lingeringEnv 1) (Reconcile stdLib (Some demoConfig) (\<lambda>s. None) 0 (''ns'', ''vm'')) = Inr (requeueAfter second) \<and>
   answer (lingeringEnv 2) (Reconcile stdLib (Some demoConfig) (\<lambda>s. None) 0 (''ns'', ''vm'')) = Inr noRequeue"
proof -
  have "\<not> notDeleting (in_Meta demoDeleting)" "instanceFinalizer \<in> set (m_Finalizers (in_Meta demoDeleting))"
    by (simp_all add: demoDeleting_def notDeleting_def isZeroTime_def zeroTime_def second_def)
  note d = deletion_gets_through [OF std.kube_lib_axioms this, where env = lingeringEnv and n = 2 and p = demoPod
      and req = "(''ns'', ''vm'')" and inst' = "removedFinalizer stdLib demoDeleting"
      and cfg = "Some demoConfig" and U = "\<lambda>s. None" and now = 0]
  show ?thesis by (rule conjI; (use d in \<open>simp add: lingeringEnv_def goneEnv_def\<close>)?)
qed

text \<open>
  C27. What is not to run is left alone: for an Instance that is no sandbox, or that a scheduling gate
  holds, a reconcile makes no call beyond reading it; a suspended one loses its Pod and nothing else,
  so that its Service and its finalizer are there when it resumes.
\<close>

theorem idle_instances_left_alone:
  assumes "runs (Reconcile L cfg U now req) ((GetInstance req, RInstance inst) # tr) r" "notDeleting (in_Meta inst)"
  shows "(in_Sandbox inst = None \<or> gated inst \<longrightarrow> tr = [] \<and> r = Inr noRequeue) \<and>
    (in_Sandbox inst \<noteq> None \<and> \<not> gated inst \<and> in_Suspended inst \<longrightarrow> (\<exists>a. tr = [(DeletePod (instKey inst) None, a)]))"
proof -
  have "runs (reconcileInstance L cfg U now inst) tr r"
    using assms(1) by (cases rule: Reconcile_run) auto
  then show ?thesis by (cases rule: reconcileInstance_run) (use assms(2) in auto)
qed

theorem idle_instances_left_alone_witness:
  "callsOf (\<lambda>q. RInstance demoTyped) (Reconcile stdLib (Some demoConfig) (\<lambda>s. None) 0 (''ns'', ''vm'')) =
     [(GetInstance (''ns'', ''vm''), RInstance demoTyped)]"
proof -
  let ?P = "Reconcile stdLib (Some demoConfig) (\<lambda>s. None) 0 (''ns'', ''vm'')"
  let ?e = "\<lambda>q. RInstance demoTyped"
  obtain tr where tr: "callsOf ?e ?P = (GetInstance (''ns'', ''vm''), RInstance demoTyped) # tr"
    by (simp add: Reconcile_def getInstance_def)
  have "notDeleting (in_Meta demoTyped)" "in_Sandbox demoTyped = None"
    by (simp_all add: demoTyped_def blankMeta_def notDeleting_def)
  with idle_instances_left_alone [of stdLib "Some demoConfig" "\<lambda>s. None" 0 "(''ns'', ''vm'')" demoTyped tr "answer ?e ?P"]
    runs_callsOf [of ?P ?e] tr show ?thesis by simp
qed
end
