(* ===== verification/Programs.thy ===== *)
theory Programs
  imports Service Reconciler
begin

text \<open>
  The two programs: src/cmd/main.go (the operator), with the controller registration of
  instance_controller.go, and src/cmd/state-projector/main.go; and the location helper
  src/internal/locationutil/location.go. What the operating system, the configuration codec and
  the manager of controller-runtime answer are parameters.
\<close>

section \<open>Locations\<close>

text \<open>The location of a reference, and whether it is to be processed.\<close>

definition GetLocation :: "string \<Rightarrow> string \<Rightarrow> (location \<times> bool) result prog" where
  "GetLocation locationRef locationClassName =
     bindE (wrapP ''failed fetching location'' (getLocationObj locationRef))
       (\<lambda>location.
          Ret (Inr (if \<not> loc_GCP location then (location, False)
                    else if length locationClassName = 0 then (location, True)
                    else (location, loc_ClassName location = locationClassName))))"

section \<open>The operator\<close>

record operatorFlags =
  fl_probeAddr :: string
  fl_leaderElect :: bool
  fl_leaderElectNamespace :: string
  fl_serverConfig :: string

definition defaultOperatorFlags :: operatorFlags where
  "defaultOperatorFlags =
     \<lparr>fl_probeAddr = '':8081'', fl_leaderElect = False, fl_leaderElectNamespace = '''', fl_serverConfig = ''''\<rparr>"

text \<open>A \<open>rest.Config\<close>, as far as the leader election changes it; the rest is copied.\<close>

record dialer =
  dl_Timeout :: duration
  dl_KeepAlive :: duration

record restConfig =
  rc_RateLimiter :: "opaque option"
  rc_QPS :: int
  rc_Burst :: int
  rc_Dial :: "dialer option"
  rc_Rest :: opaque

definition leaderElectionQPS :: int where "leaderElectionQPS = 5"
definition leaderElectionBurst :: int where "leaderElectionBurst = 10"

definition leaderElectionRestConfig :: "restConfig \<Rightarrow> restConfig" where
  "leaderElectionRestConfig base =
     base\<lparr>rc_RateLimiter := None, rc_QPS := leaderElectionQPS, rc_Burst := leaderElectionBurst,
          rc_Dial := Some \<lparr>dl_Timeout = 30 * second, dl_KeepAlive = 30 * second\<rparr>\<rparr>"

record 'sel managerOptions =
  mo_Cache :: "(string \<times> 'sel) list"
  mo_Metrics :: metricsOptions
  mo_WebhookServer :: webhookOptions
  mo_HealthProbeBindAddress :: string
  mo_LeaderElection :: bool
  mo_LeaderElectionID :: string
  mo_LeaderElectionNamespace :: string
  mo_LeaderElectionConfig :: restConfig
  mo_LeaderElectionReleaseOnCancel :: bool

text \<open>The reconciler and its registration: what it watches and how many reconciles run at once.\<close>

record instanceReconciler =
  ir_Client :: "opaque option"
  ir_Scheme :: "opaque option"
  ir_Config :: "unikraftProvider option"
  ir_LocationClassName :: string

record controllerSetup =
  ct_For :: string
  ct_Owns :: "string list"
  ct_Watches :: "string list"
  ct_MaxConcurrentReconciles :: nat
  ct_Name :: string

definition SetupWithManager :: "opaque \<Rightarrow> opaque \<Rightarrow> instanceReconciler \<Rightarrow> instanceReconciler \<times> controllerSetup" where
  "SetupWithManager mgrClient mgrScheme r =
     (let r = (if ir_Client r = None then r\<lparr>ir_Client := Some mgrClient\<rparr> else r);
          r = (if ir_Scheme r = None then r\<lparr>ir_Scheme := Some mgrScheme\<rparr> else r)
      in (r, \<lparr>ct_For = ''Instance'', ct_Owns = [''Pod'', ''Service''], ct_Watches = [''Node''],
              ct_MaxConcurrentReconciles = 5, ct_Name = ''instance''\<rparr>))"

text \<open>What main asks of the outside: files, the codec (which applies the defaults), the manager.\<close>

record 'sel operatorDeps =
  od_ReadFile :: "string \<Rightarrow> string option"
  od_DecodeInto :: "string \<Rightarrow> unikraftProvider result"
  od_restConfig :: restConfig
  od_excluding :: "string list \<Rightarrow> 'sel"
  od_NewManager :: "'sel managerOptions \<Rightarrow> (opaque \<times> opaque) result"
  od_Complete :: "controllerSetup \<Rightarrow> unit result"
  od_AddHealthzCheck :: "unit result"
  od_AddReadyzCheck :: "unit result"
  od_Start :: "unit result"

definition AddIndexers :: "unit result" where "AddIndexers = Inr ()"

definition operatorOptions ::
  "(string list \<Rightarrow> 'sel) \<Rightarrow> operatorFlags \<Rightarrow> restConfig \<Rightarrow> unikraftProvider \<Rightarrow> 'sel managerOptions" where
  "operatorOptions excluding flags rest serverConfig =
     \<lparr>mo_Cache = CacheOptions excluding (ServedRuntimeClass (Some serverConfig)),
      mo_Metrics = metricsServerOptions (up_MetricsServer serverConfig),
      mo_WebhookServer = webhookServerOptions (up_WebhookServer serverConfig),
      mo_HealthProbeBindAddress = fl_probeAddr flags, mo_LeaderElection = fl_leaderElect flags,
      mo_LeaderElectionID = ''fddf20f1.datumapis.com'', mo_LeaderElectionNamespace = fl_leaderElectNamespace flags,
      mo_LeaderElectionConfig = leaderElectionRestConfig rest, mo_LeaderElectionReleaseOnCancel = True\<rparr>"

text \<open>
  Everything up to \<open>mgr.Start\<close>: \<open>Inl\<close> is the message of an exit with status 1, \<open>Inr\<close> the
  manager's options, the reconciler and its registration.
\<close>

definition loadServerConfig :: "'sel operatorDeps \<Rightarrow> operatorFlags \<Rightarrow> string + unikraftProvider" where
  "loadServerConfig D flags =
     (let configData = (if length (fl_serverConfig flags) > 0 then od_ReadFile D (fl_serverConfig flags) else Some '''')
      in case configData of
           None \<Rightarrow> Inl ''unable to read server config''
         | Some bytes \<Rightarrow>
             (case od_DecodeInto D bytes of
                Inl err \<Rightarrow> Inl ''unable to decode server config''
              | Inr serverConfig \<Rightarrow>
                  if Validate (drm_InstanceDNS (up_Downstream serverConfig)) \<noteq> None then Inl ''invalid server config''
                  else Inr serverConfig))"

definition startOperator ::
  "'sel operatorDeps \<Rightarrow> operatorFlags \<Rightarrow> string + ('sel managerOptions \<times> instanceReconciler \<times> controllerSetup)" where
  "startOperator D flags =
     (case loadServerConfig D flags of
        Inl msg \<Rightarrow> Inl msg
      | Inr serverConfig \<Rightarrow>
          (let opts = operatorOptions (od_excluding D) flags (od_restConfig D) serverConfig
           in case od_NewManager D opts of
                Inl err \<Rightarrow> Inl ''unable to start manager''
              | Inr (mgrClient, mgrScheme) \<Rightarrow>
                  (let (r, reg) = SetupWithManager mgrClient mgrScheme
                         \<lparr>ir_Client = None, ir_Scheme = None, ir_Config = Some serverConfig,
                          ir_LocationClassName = up_LocationClassName serverConfig\<rparr>
                   in if isl (od_Complete D reg) then Inl ''unable to create controller''
                      else if isl AddIndexers then Inl ''unable to add indexers''
                      else if isl (od_AddHealthzCheck D) then Inl ''unable to set up health check''
                      else if isl (od_AddReadyzCheck D) then Inl ''unable to set up ready check''
                      else Inr (opts, r, reg))))"

definition operatorMain :: "'sel operatorDeps \<Rightarrow> operatorFlags \<Rightarrow> nat" where
  "operatorMain D flags =
     (case startOperator D flags of
        Inl msg \<Rightarrow> 1
      | Inr started \<Rightarrow> (if isl (od_Start D) then 1 else 0))"

section \<open>The state projector\<close>

record projectorFlags =
  pf_eventsPath :: string
  pf_outputPath :: string
  pf_flushInterval :: duration
  pf_statsInterval :: duration
  pf_kubeconfig :: string
  pf_debug :: bool
  pf_rotateSizeMB :: int
  pf_rotateMaxAge :: duration

definition defaultProjectorFlags :: projectorFlags where
  "defaultProjectorFlags =
     \<lparr>pf_eventsPath = ''/var/run/ukp/vm-state.events'', pf_outputPath = ''/var/run/ukp/vm-state.usage'',
      pf_flushInterval = 5 * minute, pf_statsInterval = minute, pf_kubeconfig = '''', pf_debug = False,
      pf_rotateSizeMB = 64, pf_rotateMaxAge = 48 * 60 * minute\<rparr>"

definition projectorConfig :: "projectorFlags \<Rightarrow> config" where
  "projectorConfig f =
     \<lparr>cfg_EventsPath = pf_eventsPath f, cfg_OutputPath = pf_outputPath f, cfg_FlushInterval = pf_flushInterval f,
      cfg_StatsInterval = pf_statsInterval f, cfg_KubeconfigPath = pf_kubeconfig f, cfg_Debug = pf_debug f,
      cfg_RotateSizeBytes = wrap64 (wrap64 (pf_rotateSizeMB f * 1024) * 1024), cfg_RotateMaxAge = pf_rotateMaxAge f\<rparr>"

text \<open>
  \<open>main\<close> and the start of \<open>Service.Run\<close>: \<open>Inl\<close> is a fatal log line, \<open>Inr\<close> the service when its
  goroutines start.
\<close>

definition projectorMain ::
  "bool \<Rightarrow> bool \<Rightarrow> bool \<Rightarrow> projectorFlags \<Rightarrow> outputWriter \<times> usageRecord list \<Rightarrow> string + projector" where
  "projectorMain restConfigOk clientOk mkdirOk flags disk =
     (case newService restConfigOk clientOk (projectorConfig flags) disk of
        Inl err \<Rightarrow> Inl (''boot fatal='' @ err)
      | Inr svc \<Rightarrow> if \<not> mkdirOk then Inl ''run fatal=mkdir output dir'' else Inr svc)"

section \<open>Lemmas\<close>

lemma startOperator_run:
  assumes "startOperator D flags = Inr (opts, r, reg)"
  obtains serverConfig where "loadServerConfig D flags = Inr serverConfig"
    "opts = operatorOptions (od_excluding D) flags (od_restConfig D) serverConfig"
    "ir_Config r = Some serverConfig" "ir_Client r \<noteq> None" "ir_Scheme r \<noteq> None"
  using assms by (auto simp: startOperator_def SetupWithManager_def Let_def split: sum.splits if_splits)

lemma loadServerConfig_valid:
  "loadServerConfig D flags = Inr c \<Longrightarrow> Validate (drm_InstanceDNS (up_Downstream c)) = None"
  by (auto simp: loadServerConfig_def Let_def split: option.splits sum.splits if_splits)

text \<open>The Pod specs built from a configuration the operator started with carry acceptable DNS settings.\<close>

definition acceptableDNS :: "podSpec \<Rightarrow> bool" where
  "acceptableDNS spec =
     (case ps_DNSConfig spec of
        None \<Rightarrow> ps_DNSPolicy spec = ''''
      | Some d \<Rightarrow> ps_DNSPolicy spec = ''None'' \<and> dns_Nameservers d \<noteq> [] \<and> length (dns_Nameservers d) \<le> 3 \<and>
          list_all (\<lambda>ns. \<not> badNameserver ns) (dns_Nameservers d) \<and> list_all (\<lambda>s. s \<noteq> '''') (dns_Searches d))"

lemma podSpecOf_dns:
  assumes "Validate (drm_InstanceDNS (up_Downstream c)) = None"
  shows "acceptableDNS (podSpecOf (Some c) inst cs)"
proof (cases "drm_InstanceDNS (up_Downstream c)")
  case None
  then show ?thesis by (simp add: acceptableDNS_def podSpecOf_def instanceDNS_def Let_def)
next
  case (Some d)
  then show ?thesis
    using assms
    by (auto simp: acceptableDNS_def podSpecOf_def instanceDNS_def Let_def Validate_def MaxInstanceDNSNameservers_def
        find_None_all list_all_iff split: if_splits option.splits)
qed

text \<open>The maps of an object stay maps: no key occurs twice.\<close>

lemma gomap_ok_setOrDelete [intro]: "gomap_ok m \<Longrightarrow> gomap_ok (setOrDelete k v m)"
  by (auto simp: setOrDelete_def split: option.split)

lemma gomap_ok_fold_copyLabel: "gomap_ok m \<Longrightarrow> gomap_ok (fold (copyLabel src) ks m)"
  by (induction ks arbitrary: m) (auto simp: copyLabel_def split: option.split)

lemma gomap_ok_podLabels: "gomap_ok m \<Longrightarrow> gomap_ok (podLabels L cfg inst m)"
  by (auto simp: podLabels_def copyInstancePodLabels_def Let_def intro!: gomap_ok_fold_copyLabel)

lemma gomap_ok_execAnnotation: "gomap_ok m \<Longrightarrow> gomap_ok (execAnnotation cfg m)"
  by (simp add: execAnnotation_def)

lemma gomap_ok_podAnnotations: "gomap_ok m \<Longrightarrow> gomap_ok (podAnnotations cfg inst m)"
  unfolding podAnnotations_def Let_def copyUnikraftAnnotations_def
  by (intro gomap_ok_execAnnotation gomap_ok_setOrDelete gomap_ok_copyRange)

lemma gomap_ok_resources:
  "gomap_ok (c_Limits (buildContainer L sc sz))" "gomap_ok (c_Requests (buildContainer L sc sz))"
  by (auto simp: containerLimits_def zeroSchedulerRequests_def gomap_ok_def Let_def)

section \<open>Properties\<close>

text \<open>
  C32. A started operator builds well-formed Pods: whatever the configuration file says, once the
  manager starts every new Pod has DNS settings the API server accepts (no policy and no settings,
  or policy None with one to three IP addresses and no empty search domain), one owner, and label,
  annotation and resource maps without duplicate keys.
\<close>

theorem started_operator_builds_well_formed_pods:
  assumes "startOperator D flags = Inr (opts, rc, reg)" "kube_lib L" "in_Sandbox inst = Some sb"
    and "isZeroTime (m_CreationTimestamp (pod_Meta p))" "gomap_ok (pod_Labels p)" "gomap_ok (pod_Annotations p)"
    and "runs (mutateInstancePod L (ir_Config rc) inst p) tr (Inr p')"
  shows "acceptableDNS (pod_Spec p') \<and> gomap_ok (pod_Labels p') \<and> gomap_ok (pod_Annotations p') \<and>
    m_Owner (pod_Meta p') = Some (m_UID (in_Meta inst)) \<and>
    (\<forall>c \<in> set (ps_Containers (pod_Spec p')). gomap_ok (c_Limits c) \<and> gomap_ok (c_Requests c))"
proof -
  obtain c where c: "loadServerConfig D flags = Inr c" "ir_Config rc = Some c"
    by (rule startOperator_run [OF assms(1)])
  obtain cs where cs: "list_all2 (\<lambda>sc c. \<exists>sz. sizesTo inst sc sz \<and> c = buildContainer L sc sz) (sb_Containers sb) cs"
    and p': "pod_Spec p' = podSpecOf (Some c) inst cs" "pod_Labels p' = podLabels L (Some c) inst (pod_Labels p)"
      "pod_Annotations p' = podAnnotations (Some c) inst (pod_Annotations p)" "m_Owner (pod_Meta p') = Some (m_UID (in_Meta inst))"
    by (rule kube_lib.mutate_new [OF assms(2,7,4,3)]) (simp add: c(2))
  have "gomap_ok (c_Limits x) \<and> gomap_ok (c_Requests x)" if x: "x \<in> set cs" for x
  proof -
    obtain sc where "\<exists>sz. sizesTo inst sc sz \<and> x = buildContainer L sc sz"
      using list_all2_conv_all_nth [THEN iffD1, OF cs] x unfolding in_set_conv_nth by metis
    then show ?thesis using gomap_ok_resources by blast
  qed
  then show ?thesis
    using podSpecOf_dns [OF loadServerConfig_valid [OF c(1)], of inst cs] p' assms(5,6)
    by (simp add: gomap_ok_podLabels gomap_ok_podAnnotations)
qed

definition demoDeps :: "string list operatorDeps" where
  "demoDeps =
     \<lparr>od_ReadFile = (\<lambda>f. None), od_DecodeInto = (\<lambda>b. Inr demoConfig),
      od_restConfig = \<lparr>rc_RateLimiter = Some ''shared'', rc_QPS = 20, rc_Burst = 30, rc_Dial = None, rc_Rest = ''''\<rparr>,
      od_excluding = (\<lambda>cs. cs), od_NewManager = (\<lambda>mo. Inr (''client'', ''scheme'')), od_Complete = (\<lambda>s. Inr ()),
      od_AddHealthzCheck = Inr (), od_AddReadyzCheck = Inr (), od_Start = Inr ()\<rparr>"

lemma demo_start:
  obtains opts rc reg where "startOperator demoDeps defaultOperatorFlags = Inr (opts, rc, reg)" "ir_Config rc = Some demoConfig"
proof -
  have "Validate (drm_InstanceDNS (up_Downstream demoConfig)) = None" by code_simp
  then have "\<exists>opts rc reg. startOperator demoDeps defaultOperatorFlags = Inr (opts, rc, reg) \<and> ir_Config rc = Some demoConfig"
    by (simp add: startOperator_def loadServerConfig_def demoDeps_def defaultOperatorFlags_def AddIndexers_def
        SetupWithManager_def Let_def)
  then show thesis using that by blast
qed

theorem started_operator_builds_well_formed_pods_witness:
  "\<exists>p'. runs (mutateInstancePod stdLib (Some demoConfig) demoInst (blankPod ''ns'' ''vm'')) [] (Inr p') \<and>
     acceptableDNS (pod_Spec p') \<and> m_Owner (pod_Meta p') = Some ''uid-1''"
proof -
  obtain opts rc reg where s: "startOperator demoDeps defaultOperatorFlags = Inr (opts, rc, reg)" "ir_Config rc = Some demoConfig"
    by (rule demo_start)
  obtain p' where p': "runs (mutateInstancePod stdLib (Some demoConfig) demoInst (blankPod ''ns'' ''vm'')) [] (Inr p')"
    using demo_mutate by blast
  have sb: "in_Sandbox demoInst = Some \<lparr>sb_Containers = [demoSandboxContainer], sb_ImagePullSecrets = []\<rparr>"
    and u: "m_UID (in_Meta demoInst) = ''uid-1''"
    by (simp_all add: demoInst_def)
  have b: "isZeroTime (m_CreationTimestamp (pod_Meta (blankPod ''ns'' ''vm'')))" "gomap_ok (pod_Labels (blankPod ''ns'' ''vm''))"
      "gomap_ok (pod_Annotations (blankPod ''ns'' ''vm''))"
    by (simp_all add: blankPod_def blankMeta_def isZeroTime_def gomap_ok_def)
  from started_operator_builds_well_formed_pods [OF s(1) std.kube_lib_axioms sb b p' [folded s(2)]] p' u show ?thesis by auto
qed

end
