(* ===== verification/Cluster.thy ===== *)
theory Cluster
  imports Reconciler
begin

text \<open>
  The reconciler in its cluster: one reconcile after another for one Instance, call by call,
  interleaved with the other actors (users, kubelets, other controllers) and with crashes at any
  point. What is relied on of the API server is the locale \<open>api_server\<close>. Its reads are current:
  a client that answers from a cache may lag, and then the law \<open>read_gone\<close> is the one to check.
\<close>

section \<open>The API server\<close>

abbreviation carriesFinalizer :: "instanceObj \<Rightarrow> bool" where
  "carriesFinalizer i \<equiv> instanceFinalizer \<in> set (m_Finalizers (in_Meta i))"


section \<open>Runs of the cluster\<close>


section \<open>The invariant\<close>






section \<open>A store\<close>

text \<open>
  A server that keeps the objects under their keys. A deleted Pod is marked and goes when its
  kubelet lets it; an Instance that is marked goes with its last finalizer, and its mark cannot be
  taken back by an update. Any call may fail, before its effect or with the answer lost after it.
\<close>

record store =
  st_Instances :: "(objKey, instanceObj) gomap"
  st_Pods :: "(objKey, pod) gomap"
  st_Services :: "(objKey, service) gomap"
  st_Nodes :: "(string, node) gomap"
  st_Types :: "(string, instanceTypeObj) gomap"
  st_Locations :: "(string, location) gomap"







definition hasPod :: "objKey \<Rightarrow> store \<Rightarrow> bool" where
  "hasPod k s \<longleftrightarrow> map_of (st_Pods s) k \<noteq> None"

definition hasHeld :: "objKey \<Rightarrow> store \<Rightarrow> bool" where
  "hasHeld k s \<longleftrightarrow> (case map_of (st_Instances s) k of None \<Rightarrow> False | Some i \<Rightarrow> carriesFinalizer i)"



lemma hasPod_update [simp]: "hasPod k (s\<lparr>st_Pods := AList.update k' p (st_Pods s)\<rparr>) \<longleftrightarrow> k = k' \<or> hasPod k s"
  by (simp add: hasPod_def update_conv')

lemma hasHeld_update [simp]:
  "hasHeld k (s\<lparr>st_Instances := AList.update k' i (st_Instances s)\<rparr>) \<longleftrightarrow> (if k = k' then carriesFinalizer i else hasHeld k s)"
  by (simp add: hasHeld_def update_conv')

lemma hasHeld_delete [simp]:
  "hasHeld k (s\<lparr>st_Instances := AList.delete k' (st_Instances s)\<rparr>) \<longleftrightarrow> k \<noteq> k' \<and> hasHeld k s"
  by (simp add: hasHeld_def delete_conv')

lemma has_frame [simp]:
  "hasPod k (s\<lparr>st_Instances := is\<rparr>) = hasPod k s" "hasPod k (s\<lparr>st_Services := vs\<rparr>) = hasPod k s"
  "hasHeld k (s\<lparr>st_Pods := ps\<rparr>) = hasHeld k s" "hasHeld k (s\<lparr>st_Services := vs\<rparr>) = hasHeld k s"
  by (simp_all add: hasPod_def hasHeld_def)






section \<open>Properties\<close>





end
