(* ===== verification/Md5.thy ===== *)
theory Md5
  imports Go_Base "HOL-Library.Word"
begin

unbundle bit_operations_syntax

text \<open>
  crypto/md5 and encoding/hex as \<open>windowID\<close> of src/internal/stateprojector/writer.go uses them: the
  MD5 digest of a text, on 32-bit words, printed in lower-case hexadecimal.
\<close>

section \<open>Padding\<close>

text \<open>A one bit, zeros up to 56 modulo 64 bytes, and the length in bits as 64 bits little-endian.\<close>

definition littleEndian :: "nat \<Rightarrow> int \<Rightarrow> int list" where
  "littleEndian k n = map (\<lambda>i. n div 256 ^ i mod 256) [0..<k]"

definition md5Pad :: "string \<Rightarrow> int list" where
  "md5Pad s =
     (let n = length s; z = (119 - n mod 64) mod 64
      in map of_char s @ [128] @ replicate z 0 @ littleEndian 8 (8 * int n mod 2 ^ 64))"

section \<open>Rounds\<close>

definition md5K :: "32 word list" where
  "md5K =
     [0xD76AA478, 0xE8C7B756, 0x242070DB, 0xC1BDCEEE, 0xF57C0FAF, 0x4787C62A, 0xA8304613,
      0xFD469501, 0x698098D8, 0x8B44F7AF, 0xFFFF5BB1, 0x895CD7BE, 0x6B901122, 0xFD987193,
      0xA679438E, 0x49B40821, 0xF61E2562, 0xC040B340, 0x265E5A51, 0xE9B6C7AA, 0xD62F105D,
      0x02441453, 0xD8A1E681, 0xE7D3FBC8, 0x21E1CDE6, 0xC33707D6, 0xF4D50D87, 0x455A14ED,
      0xA9E3E905, 0xFCEFA3F8, 0x676F02D9, 0x8D2A4C8A, 0xFFFA3942, 0x8771F681, 0x6D9D6122,
      0xFDE5380C, 0xA4BEEA44, 0x4BDECFA9, 0xF6BB4B60, 0xBEBFBC70, 0x289B7EC6, 0xEAA127FA,
      0xD4EF3085, 0x04881D05, 0xD9D4D039, 0xE6DB99E5, 0x1FA27CF8, 0xC4AC5665, 0xF4292244,
      0x432AFF97, 0xAB9423A7, 0xFC93A039, 0x655B59C3, 0x8F0CCC92, 0xFFEFF47D, 0x85845DD1,
      0x6FA87E4F, 0xFE2CE6E0, 0xA3014314, 0x4E0811A1, 0xF7537E82, 0xBD3AF235, 0x2AD7D2BB,
      0xEB86D391]"

definition md5Shift :: "nat \<Rightarrow> nat" where
  "md5Shift i = [7, 12, 17, 22, 5, 9, 14, 20, 4, 11, 16, 23, 6, 10, 15, 21] ! (4 * (i div 16) + i mod 4)"

type_synonym md5State = "32 word \<times> 32 word \<times> 32 word \<times> 32 word"

definition md5Init :: md5State where
  "md5Init = (0x67452301, 0xEFCDAB89, 0x98BADCFE, 0x10325476)"

text \<open>The round function and the word of the block it takes.\<close>

definition md5Mix :: "nat \<Rightarrow> 32 word \<Rightarrow> 32 word \<Rightarrow> 32 word \<Rightarrow> 32 word \<times> nat" where
  "md5Mix i b c d =
     (if i < 16 then ((b AND c) OR (NOT b AND d), i)
      else if i < 32 then ((d AND b) OR (NOT d AND c), (5 * i + 1) mod 16)
      else if i < 48 then (b XOR c XOR d, (3 * i + 5) mod 16)
      else (c XOR (b OR NOT d), 7 * i mod 16))"

definition md5Round :: "32 word list \<Rightarrow> nat \<Rightarrow> md5State \<Rightarrow> md5State" where
  "md5Round M i st =
     (let (a, b, c, d) = st; (f, g) = md5Mix i b c d
      in (d, b + word_rotl (md5Shift i) (a + f + md5K ! i + M ! g), b, c))"

definition md5Block :: "32 word list \<Rightarrow> md5State \<Rightarrow> md5State" where
  "md5Block M st =
     (let (a, b, c, d) = st; (a', b', c', d') = fold (md5Round M) [0..<64] st
      in (a + a', b + b', c + c', d + d'))"

section \<open>The digest\<close>

fun wordsLE :: "int list \<Rightarrow> 32 word list" where
  "wordsLE (a # b # c # d # r) = word_of_int (a + 256 * (b + 256 * (c + 256 * d))) # wordsLE r"
| "wordsLE _ = []"

fun blocks16 :: "32 word list \<Rightarrow> 32 word list list" where
  "blocks16 [] = []"
| "blocks16 (w # ws) = take 16 (w # ws) # blocks16 (drop 15 ws)"

definition md5Sum :: "string \<Rightarrow> int list" where
  "md5Sum s =
     (let (a, b, c, d) = fold md5Block (blocks16 (wordsLE (md5Pad s))) md5Init
      in concat (map (\<lambda>w. littleEndian 4 (uint w)) [a, b, c, d]))"

definition hexByte :: "int \<Rightarrow> string" where
  "hexByte n = [hexDigit (nat (n div 16)), hexDigit (nat (n mod 16))]"

definition md5hex :: "string \<Rightarrow> string" where
  "md5hex s = concat (map hexByte (md5Sum s))"

section \<open>Lemmas\<close>

lemma length_littleEndian [simp]: "length (littleEndian k n) = k"
  by (simp add: littleEndian_def)

lemma littleEndian_bytes: "x \<in> set (littleEndian k n) \<Longrightarrow> 0 \<le> x \<and> x < 256"
  by (auto simp: littleEndian_def)

text \<open>The padded message is a whole number of blocks.\<close>

lemma md5Pad_length: "length (md5Pad s) mod 64 = 0"
proof -
  let ?m = "length s mod 64"
  have "length (md5Pad s) mod 64 = (?m + (9 + (119 - ?m) mod 64)) mod 64"
    by (simp add: md5Pad_def Let_def mod_add_left_eq)
  moreover have "?m + (9 + (119 - ?m) mod 64) = (if ?m \<le> 55 then 64 else 128)"
  proof (cases "?m \<le> 55")
    case True
    then have "119 - ?m = (55 - ?m) + 64" by simp
    then have "(119 - ?m) mod 64 = 55 - ?m" by (simp only: mod_add_self2) simp
    with True show ?thesis by simp
  next
    case False
    then have "(119 - ?m) mod 64 = 119 - ?m" by (intro mod_less) simp
    moreover have "?m < 64" by simp
    ultimately show ?thesis using False by simp
  qed
  ultimately show ?thesis by simp
qed

text \<open>Lower-case hexadecimal: 32 digits, whatever is hashed.\<close>

lemma hexByte_shape: "0 \<le> n \<and> n < 256 \<Longrightarrow> length (hexByte n) = 2 \<and> list_all isHex (hexByte n)"
proof -
  assume n: "0 \<le> n \<and> n < 256"
  then have "n div 16 < 16" by presburger
  then show ?thesis by (simp add: hexByte_def isHex_hexDigit nat_less_iff)
qed

lemma md5Sum_shape: "length (md5Sum s) = 16 \<and> (\<forall>n \<in> set (md5Sum s). 0 \<le> n \<and> n < 256)"
  using littleEndian_bytes by (auto simp: md5Sum_def Let_def split: prod.split)

lemma length_concat_hex: "\<forall>n \<in> set ns. 0 \<le> n \<and> n < 256 \<Longrightarrow> length (concat (map hexByte ns)) = 2 * length ns"
  by (induction ns) (auto simp: hexByte_shape)

lemma md5hex_shape: "length (md5hex s) = 32 \<and> list_all isHex (md5hex s)"
  using md5Sum_shape [of s] hexByte_shape length_concat_hex [of "md5Sum s"]
  by (auto simp: md5hex_def list_all_iff)

text \<open>Test vectors of RFC 1321.\<close>

lemma md5_empty: "md5hex '''' = ''d41d8cd98f00b204e9800998ecf8427e''"
  by code_simp

lemma md5_abc: "md5hex ''abc'' = ''900150983cd24fb0d6963f7d28e17f72''"
  by code_simp

end
