(* ===== verification/Records.thy ===== *)
theory Records
  imports Writer Md5
begin

text \<open>
  What a consumer reads from the output file. A line that \<open>append\<close> has written is the JSON object
  of its record, every field with its value; the float64 seconds on it determine the duration to
  the nanosecond, and the id is 32 hexadecimal digits.
\<close>

section \<open>The value behind a line\<close>

definition recordValue :: "usageRecord \<Rightarrow> json" where
  "recordValue r =
     JObj [(''id'', JStr (u_ID r)), (''project'', JStr (u_Project r)), (''instance'', JStr (u_Instance r)),
           (''uuid'', JStr (u_UUID r)), (''vcpu_milli'', JNum (formatInt (u_VcpuMilli r))),
           (''memory_bytes'', JNum (formatInt (u_MemoryBytes r))), (''start'', JStr (u_Start r)),
           (''end'', JStr (u_End r)), (''duration_s'', JNum (marshalSeconds (u_Duration r)))]"

definition recordText_ok :: "usageRecord \<Rightarrow> bool" where
  "recordText_ok r \<longleftrightarrow>
     list_all validUTF8 [u_ID r, u_Project r, u_Instance r, u_UUID r, u_Start r, u_End r] \<and>
     0 < u_Duration r \<and> u_Duration r < 2 ^ 22 * second"

section \<open>Numbers\<close>

lemma validNum_natDec: "validNum ((if neg then ''-'' else '''') @ natDec n)"
proof -
  have "natDec n = ''0'' \<or> hd (natDec n) \<noteq> CHR ''0''"
    using natDec_head [of n] by (cases "n = 0") (simp_all add: natDec.simps [of 0] digitChar_def)
  moreover have "natDec n \<noteq> []" by (simp add: natDec.simps [of n])
  ultimately show ?thesis
    using validNum_parts [of "natDec n" "[]" "[]" neg] natDec_isDigit by (simp add: withFrac_def scanExp_def)
qed

lemma validNum_formatInt: "validNum (formatInt i)"
  using validNum_natDec [of True] validNum_natDec [of False] by (simp add: formatInt_def)

text \<open>Below 2^22 seconds, which is 48 days, the float64 is within half a nanosecond.\<close>

lemma secondsMag_nanos:
  assumes "0 < d" "d < 2 ^ 22 * second"
  obtains f where "secondsMag d = Some f" "floatMag f" "\<bar>valMag f * 10 ^ 9 - real_of_int d\<bar> < 1 / 2"
proof -
  have d: "real (nat \<bar>d\<bar>) = real_of_int d" using assms(1) by simp
  have "real_of_int d < 2 ^ 22 * 10 ^ 9" using assms(2) by (simp add: second_def)
  then have "real (nat \<bar>d\<bar>) / 10 ^ 9 < pow2 22" unfolding d by (simp add: pow2_nat)
  then obtain f where f: "secondsMag d = Some f" "\<bar>real (nat \<bar>d\<bar>) / 10 ^ 9 - valMag f\<bar> \<le> pow2 (22 - 53) + pow2 (- 54)"
    using secondsMag_error [of d 22] by auto
  have "pow2 (22 - 53) + pow2 (- 54) < 1 / (2 * 10 ^ 9)" by (simp add: pow2_neg)
  then have e: "\<bar>real_of_int d / 10 ^ 9 - valMag f\<bar> < 1 / (2 * 10 ^ 9)" using f(2) unfolding d by linarith
  have n: "\<bar>valMag f * 10 ^ 9 - real_of_int d\<bar> < 1 / 2"
  proof -
    have "\<bar>valMag f * 10 ^ 9 - real_of_int d\<bar> = \<bar>real_of_int d / 10 ^ 9 - valMag f\<bar> * 10 ^ 9"
      by (simp add: abs_if field_simps)
    also have "\<dots> < 1 / (2 * 10 ^ 9) * 10 ^ 9" using e by (intro mult_strict_right_mono) simp_all
    finally show ?thesis by simp
  qed
  have "1 \<le> real_of_int d" using assms(1) by linarith
  then have "0 < valMag f" using n by (smt (verit) zero_less_mult_pos2 field_sum_of_halves zero_less_power)
  moreover have "canonMag f"
  proof -
    obtain s r n d' where "addMag s r = Some f" "0 < d'" "addMag s r = roundFrac n d'"
      using f(1) addMag_val by (auto simp: secondsMag_def Let_def split: option.splits) metis
    then show ?thesis using roundFrac_canon by metis
  qed
  ultimately have "floatMag f" by (auto simp: floatMag_def posMag_def valMag_def zero_less_mult_iff)
  then show thesis using that f(1) n by blast
qed

section \<open>The line\<close>

lemma recordFields_valid:
  "validUTF8 ''id''" "validUTF8 ''project''" "validUTF8 ''instance''" "validUTF8 ''uuid''" "validUTF8 ''vcpu_milli''"
  "validUTF8 ''memory_bytes''" "validUTF8 ''start''" "validUTF8 ''end''" "validUTF8 ''duration_s''"
  by code_simp+

lemma lexes_atoms:
  "validUTF8 s \<Longrightarrow> lexes (quoteJSON s) [TStr s]" "validNum n \<Longrightarrow> lexes n [TNum n]"
  using lexes_marshal [of "JStr s"] lexes_marshal [of "JNum n"] by simp_all

lemma validNum_seconds:
  assumes "0 < d" "d < 2 ^ 22 * second"
  shows "validNum (marshalSeconds d)"
  using secondsMag_nanos [OF assms] validNum_jsonFloat by (metis marshalSeconds_def option.simps(5))

text \<open>The members of the object, as they are printed and as they are read.\<close>

definition recordMembers :: "usageRecord \<Rightarrow> string list" where
  "recordMembers r =
     [quoteJSON ''id'' @ CHR '':'' # quoteJSON (u_ID r), quoteJSON ''project'' @ CHR '':'' # quoteJSON (u_Project r),
      quoteJSON ''instance'' @ CHR '':'' # quoteJSON (u_Instance r), quoteJSON ''uuid'' @ CHR '':'' # quoteJSON (u_UUID r),
      quoteJSON ''vcpu_milli'' @ CHR '':'' # formatInt (u_VcpuMilli r),
      quoteJSON ''memory_bytes'' @ CHR '':'' # formatInt (u_MemoryBytes r),
      quoteJSON ''start'' @ CHR '':'' # quoteJSON (u_Start r), quoteJSON ''end'' @ CHR '':'' # quoteJSON (u_End r),
      quoteJSON ''duration_s'' @ CHR '':'' # marshalSeconds (u_Duration r)]"

lemma marshalRecord_members: "marshalRecord marshalSeconds r = ''{'' @ joinWith '','' (recordMembers r) @ ''}''"
  by (simp add: marshalRecord_def recordMembers_def)

lemma marshalRecord_lexes:
  assumes "recordText_ok r"
  shows "lexes (marshalRecord marshalSeconds r) (toksJSON (recordValue r))"
proof -
  have "list_all2 lexes (recordMembers r)
      (map (\<lambda>(k, v). TStr k # TColon # toksJSON v) (case recordValue r of JObj kvs \<Rightarrow> kvs | _ \<Rightarrow> []))"
    unfolding recordMembers_def recordValue_def json.case list.map prod.case toksJSON.simps
    using assms recordFields_valid lexes_atoms validNum_formatInt validNum_seconds
    by (intro list_all2_Cons [THEN iffD2] conjI lexes_member list.rel_intros(1)) (simp_all add: recordText_ok_def)
  from lexes_bracket(2) [OF lexes_join [OF this]] show ?thesis
    unfolding marshalRecord_members by (simp add: recordValue_def)
qed

lemma record_parses: "recordText_ok r \<Longrightarrow> parseJSON (marshalRecord marshalSeconds r) = Some (recordValue r)"
  by (rule parse_tokens [OF marshalRecord_lexes]) (simp_all add: recordValue_def maxNestingDepth_def)

lemma record_printable: "recordText_ok r \<Longrightarrow> printable (marshalRecord marshalSeconds r)"
proof -
  assume "recordText_ok r"
  then have "printable (marshalSeconds (u_Duration r))"
    by (intro number_printable validNum_seconds) (simp_all add: recordText_ok_def)
  then have "\<forall>s\<in>set (recordMembers r). printable s"
    using quoteJSON_printable number_printable [OF validNum_formatInt] unfolding recordMembers_def
    by (simp add: ball_Un)
  from join_printable [OF this] show ?thesis unfolding marshalRecord_members by simp
qed

lemma record_text:
  assumes "recordText_ok r"
  shows "CHR 0x0A \<notin> set (marshalRecord marshalSeconds r) \<and>
    parseJSON (marshalRecord marshalSeconds r) = Some (recordValue r) \<and>
    (\<exists>f. litFloat (marshalSeconds (u_Duration r)) = Some (False, f) \<and> round (valMag f * 10 ^ 9) = u_Duration r)"
proof (intro conjI)
  show "CHR 0x0A \<notin> set (marshalRecord marshalSeconds r)" using record_printable [OF assms] by fastforce
  show "parseJSON (marshalRecord marshalSeconds r) = Some (recordValue r)" by (rule record_parses [OF assms])
  have d: "0 < u_Duration r" "u_Duration r < 2 ^ 22 * second" using assms by (simp_all add: recordText_ok_def)
  from secondsMag_nanos [OF d] obtain f where f: "secondsMag (u_Duration r) = Some f" "floatMag f"
    "\<bar>valMag f * 10 ^ 9 - real_of_int (u_Duration r)\<bar> < 1 / 2" .
  have "litFloat (marshalSeconds (u_Duration r)) = Some (False, f)"
    using f d(1) jsonFloat_reads [of f False] by (simp add: marshalSeconds_def)
  then show "\<exists>f. litFloat (marshalSeconds (u_Duration r)) = Some (False, f) \<and> round (valMag f * 10 ^ 9) = u_Duration r"
    using round_unique' [OF f(3)] by blast
qed

section \<open>Properties\<close>

text \<open>
  A billing record survives its line: what \<open>append\<close> writes for a record is one line, which
  decodes to the object of the record's fields, and the float64 of seconds on it, read back and
  scaled, is nearer to the record's duration than to any other number of nanoseconds (for
  durations below 2^22 seconds; a window is flushed long before).
\<close>

theorem record_read_back:
  assumes "recordText_ok r"
  shows "CHR 0x0A \<notin> set (marshalRecord marshalSeconds r) \<and>
    parseJSON (marshalRecord marshalSeconds r) = Some (recordValue r) \<and>
    (\<exists>f. litFloat (marshalSeconds (u_Duration r)) = Some (False, f) \<and> round (valMag f * 10 ^ 9) = u_Duration r)"
  using assms by (rule record_text)

text \<open>
  The id of a record is 32 lower-case hexadecimal digits, so that it needs no escaping.
\<close>

lemma windowID_shape: "length (windowID md5hex uuid start end) = 32 \<and> list_all isHex (windowID md5hex uuid start end)"
  using md5hex_shape by (simp add: windowID_def)

section \<open>Witnesses\<close>

definition demoUsage :: usageRecord where
  "demoUsage =
     \<lparr>u_ID = ''9e107d9d372bb6826bd81d3542a419d6'', u_Project = ''acme'', u_Instance = ''web-0'', u_UUID = ''u1'',
      u_VcpuMilli = 500, u_MemoryBytes = 268435456, u_Start = ''2026-01-01T00:00:00Z'', u_End = ''2026-01-01T00:01:30Z'',
      u_Duration = 90 * second\<rparr>"

theorem record_read_back_witness: "parseJSON (marshalRecord marshalSeconds demoUsage) = Some (recordValue demoUsage)"
proof -
  have "recordText_ok demoUsage"
    unfolding recordText_ok_def by (simp add: demoUsage_def second_def validUTF8.simps runeLen_def)
  from record_read_back [OF this] show ?thesis by blast
qed

end
