(* ===== verification/Billing.thy ===== *)
theory Billing
  imports Service Records
begin

text \<open>
  The state projector from bytes to bytes: lines of the events file in, lines of the output file
  out, with the decoder, the hash and the printing of seconds the program really uses
  (unmarshalStateChange, md5hex, marshalSeconds) in place of the parameters of the other theories.
\<close>

section \<open>The file behind the log of records\<close>

text \<open>
  A record that enters the log of the writer is the next line of the output file, which a rotation
  may rename at once.
\<close>

lemma rotateIfNeeded_content: "\<exists>path. contentOf (snd (rotateIfNeeded (st, w))) path = contentOf w (ow_path w)"
proof (rule rotateIfNeeded_cases [of st w])
  assume "ow_files (snd (rotateIfNeeded (st, w))) = ow_files w"
  then show ?thesis by (auto simp: contentOf_def)
next
  fix c
  assume "map_of (ow_files w) (ow_path w) = Some c"
    and "ow_files (snd (rotateIfNeeded (st, w))) =
      AList.update (rotatedName (ow_path w) (ow_clock w (ow_clockNext w))) c (AList.delete (ow_path w) (ow_files w))"
  then show ?thesis
    by (intro exI [of _ "rotatedName (ow_path w) (ow_clock w (ow_clockNext w))"]) (simp add: contentOf_def strAt_def)
qed

lemma emitWindow_file:
  assumes "dp_out D = loggedRecordWriter" "emitWindow D w end (st, out) = (w', st', out')" "snd out' = snd out @ [r]"
  shows "\<exists>path. contentOf (fst out') path = contentOf (fst out) (ow_path (fst out)) @ recordLine (fst out) r"
proof -
  obtain end1 st1 where e: "(if end < w_reportedUntil w then (w_reportedUntil w, st\<lparr>overbilled := overbilled st + 1\<rparr>) else (end, st)) = (end1, st1)"
    by (metis surj_pair)
  obtain rec w1 st2 where r: "recordFor D w end1 st1 = (rec, w1, st2)" by (metis prod_cases3)
  obtain ok wr where a: "appendRecord rec (fst out) = (ok, wr)" by (metis surj_pair)
  have em: "emitWindow D w end (st, out) =
      (if end1 = w_reportedUntil w then (w, st1, out)
       else if \<not> ok then (w1, st2\<lparr>writeErrors := writeErrors st2 + 1\<rparr>, wr, snd out)
       else (w1\<lparr>w_reportedUntil := end1, w_records := Suc (w_records w1)\<rparr>,
             loggedVia rotateIfNeeded (st2\<lparr>recordsWritten := recordsWritten st2 + 1\<rparr>, wr, snd out @ [rec])))"
    using assms(1) r a unfolding emitWindow_def prod.case Let_def e
    by (simp add: loggedRecordWriter_def loggedAppend_def)
  have ok: "ok" and o: "out' = (snd (rotateIfNeeded (st2\<lparr>recordsWritten := recordsWritten st2 + 1\<rparr>, wr)), snd out @ [rec])"
    using assms(2,3) em by (auto simp: loggedVia_def case_prod_unfold Let_def split: if_splits)
  have c: "contentOf wr (ow_path (fst out)) = contentOf (fst out) (ow_path (fst out)) @ recordLine (fst out) rec"
    using appendRecord_content(2) [OF a ok] .
  have p: "ow_path wr = ow_path (fst out)" using appendRecord_frame [OF a] by simp
  show ?thesis
    using rotateIfNeeded_content [of "st2\<lparr>recordsWritten := recordsWritten st2 + 1\<rparr>" wr] c p o assms(3) by auto
qed

lemma HandleEvent_file:
  assumes "dp_out D = loggedRecordWriter" "snd (pr_out (HandleEvent D now now2 ev p)) = snd (pr_out p) @ [r]"
  shows "\<exists>path. contentOf (fst (pr_out (HandleEvent D now now2 ev p))) path =
    contentOf (fst (pr_out p)) (ow_path (fst (pr_out p))) @ recordLine (fst (pr_out p)) r"
proof -
  obtain u old new where x: "extractTransition ev = (u, old, new)" by (metis prod_cases3)
  have "\<exists>w. pr_out (HandleEvent D now now2 ev p) = snd (snd (emitWindow D w (eventTime now ev) (pr_stats p, pr_out p)))"
    using assms(2) x by (auto simp: HandleEvent_def Let_def case_prod_unfold split: if_splits option.splits)
  then obtain w w' st' where "emitWindow D w (eventTime now ev) (pr_stats p, pr_out p) =
      (w', st', pr_out (HandleEvent D now now2 ev p))" by (metis prod.collapse)
  from emitWindow_file [OF assms(1) this assms(2)] show ?thesis .
qed

section \<open>A line that is an event\<close>

lemma event_raw [simp]:
  "extractTransition (ev\<lparr>ev_Raw := x\<rparr>) = extractTransition ev" "eventTime now (ev\<lparr>ev_Raw := x\<rparr>) = eventTime now ev"
proof -
  have e: "ev_Data (ev\<lparr>ev_Raw := x\<rparr>) = ev_Data ev" "ev_ObjectUUID (ev\<lparr>ev_Raw := x\<rparr>) = ev_ObjectUUID ev"
    "ev_Timestamp (ev\<lparr>ev_Raw := x\<rparr>) = ev_Timestamp ev" by simp_all
  show "extractTransition (ev\<lparr>ev_Raw := x\<rparr>) = extractTransition ev" by (simp only: extractTransition_def e)
  show "eventTime now (ev\<lparr>ev_Raw := x\<rparr>) = eventTime now ev" by (simp only: eventTime_def e)
qed

definition received :: "projector \<Rightarrow> (outputWriter \<times> usageRecord list) processor" where
  "received s = (sv_proc s)\<lparr>pr_stats := (pr_stats (sv_proc s))\<lparr>eventsReceived := eventsReceived (pr_stats (sv_proc s)) + 1\<rparr>\<rparr>"

lemma lineRead_event:
  "eventOk ev \<Longrightarrow>
   lineRead md5 unmarshalStateChange now now2 (marshalStateChange ev) s =
     s\<lparr>sv_proc := HandleEvent (svDeps md5 s) now now2 (ev\<lparr>ev_Raw := marshalStateChange ev\<rparr>) (received s)\<rparr>"
  by (simp add: lineRead_def decodeAndHandle_def unmarshal_marshal procHandler_def received_def)

text \<open>The texts the projector makes itself are ASCII.\<close>

abbreviation ascii :: "string \<Rightarrow> bool" where "ascii s \<equiv> \<forall>c\<in>set s. byte c < 0x80"

lemma ascii_utf8: "ascii s \<Longrightarrow> validUTF8 s"
proof (induction s)
  case (Cons c s)
  then have "runeLen (c # s) = 1" by (simp add: runeLen_def)
  then show ?case using Cons by (simp add: validUTF8.simps [of "c # s"])
qed (simp add: validUTF8.simps)

lemma windowID_ascii: "ascii (windowID md5hex u a b)"
  using windowID_shape [of u a b] by (auto simp: list_all_iff isHex_def Let_def)

lemma appendInt_ascii: "ascii (appendInt n w)"
proof -
  have "byte c < 0x80" if "c \<in> set (natDec k)" for c k
  proof -
    from natDec_isDigit [OF that] have "digitVal c \<noteq> None" by (simp add: isDigit_def)
    then show ?thesis by (auto simp: digitVal_def Let_def split: if_splits)
  qed
  then show ?thesis by (auto simp: appendInt_def Let_def)
qed

lemma formatRFC3339_ascii: "ascii (formatRFC3339 t)"
proof -
  obtain y m d where "civil (t div second div 86400) = (y, m, d)" by (metis prod_cases3)
  then show ?thesis using appendInt_ascii by (simp add: formatRFC3339_def formatSeconds_def Let_def ball_Un)
qed

section \<open>Properties\<close>

text \<open>
  C4. From bytes to bytes: once the Pod is indexed, a line of the events file on which an instance
  starts and a later one on which it stops make the output file grow by exactly one line, whatever
  happens to the Pod and its namespace in between. That line is a JSON object with the project of
  the namespace, the instance label of the Pod, the largest CPU and memory of its containers, both
  times, the MD5 of the span as id, and a number of seconds that is the time between the two
  events to the nanosecond.
\<close>

theorem events_to_billing_line:
  assumes "u \<in> set (containerIDs pod)" "u \<noteq> ''''" "validUTF8 u"
    and "project (sv_namespaces s) (pod_Namespace pod) = Some pid" "pid \<noteq> ''''" "validUTF8 pid"
    and "inst = strAt (pod_Labels pod) upstreamInstanceLabel" "validUTF8 inst"
    and "diskOk (fst (pr_out (sv_proc s)))" "ow_seconds (fst (pr_out (sv_proc s))) = marshalSeconds"
    and "getWindow (pr_windows (sv_proc s)) u = None"
    and "eventOk start" "ev_Type start = ''vm.state_change''" "extractTransition start = (u, old, onState)"
    and "eventOk stop" "ev_Type stop = ''vm.state_change''" "extractTransition stop = (u, old2, new)"
    and "new \<noteq> ''''" "new \<noteq> onState" "a = eventTime now start" "b = eventTime now' stop" "a < b" "b - a < 2 ^ 22 * second"
    and "s1 = podAdded (WPod pod) s"
    and "s2 = lineRead md5hex unmarshalStateChange now now2 (marshalStateChange start) s1"
    and "s3 = namespaceDeleted ns (podDeleted (WPod pod) s2)"
    and "s4 = lineRead md5hex unmarshalStateChange now' now2' (marshalStateChange stop) s3"
  shows "\<exists>path l f n. contentOf (fst (pr_out (sv_proc s4))) path =
      contentOf (fst (pr_out (sv_proc s))) (ow_path (fst (pr_out (sv_proc s)))) @ l @ [newline] \<and>
    newline \<notin> set l \<and>
    parseJSON l = Some (JObj [(''id'', JStr (windowID md5hex u a b)), (''project'', JStr pid), (''instance'', JStr inst),
      (''uuid'', JStr u), (''vcpu_milli'', JNum (formatInt (fold max (map containerVcpu (ps_Containers (pod_Spec pod))) 0))),
      (''memory_bytes'', JNum (formatInt (fold max (map containerMemory (ps_Containers (pod_Spec pod))) 0))),
      (''start'', JStr (formatRFC3339 a)), (''end'', JStr (formatRFC3339 b)), (''duration_s'', JNum n)]) \<and>
    litFloat n = Some (False, f) \<and> round (valMag f * 10 ^ 9) = b - a"
proof -
  let ?i = "fst (podInfo (project (sv_namespaces s)) pod)" and ?out = "pr_out (sv_proc s)"
  let ?start = "start\<lparr>ev_Raw := marshalStateChange start\<rparr>" and ?stop = "stop\<lparr>ev_Raw := marshalStateChange stop\<rparr>"
  have w1: "pr_windows (received s1) = pr_windows (sv_proc s)" "pr_out (received s1) = ?out"
    and pods1: "sv_pods s1 = indexPod (project (sv_namespaces s)) pod (sv_pods s)"
    using assms(24) indexPod_upsert [of "project (sv_namespaces s)" pod "pr_stats (sv_proc s)" "sv_pods s"]
    by (auto simp: podAdded_def toPod_def received_def split: prod.splits)
  have res: "fst (dp_resolve (svDeps md5hex s1) u) = Some ?i"
    using pods1 assms(1) by (simp add: svDeps_def fileDeps_def pix.see_res)
  have p2: "sv_proc s2 = HandleEvent (svDeps md5hex s1) now now2 ?start (received s1)"
    using assms(25) lineRead_event [OF assms(12)] by simp
  have p4: "sv_proc s4 = HandleEvent (svDeps md5hex s3) now' now2' ?stop (received s3)"
    using assms(27) lineRead_event [OF assms(15)] by simp
  have o3: "pr_out (received s3) = ?out" "pr_windows (received s3) = pr_windows (sv_proc s2)"
    using HandleEvent_opens(3) [of ?start u old "received s1" "svDeps md5hex s1" now now2] assms(2,11,13,14,26) w1 p2
    by (simp_all add: received_def namespaceDeleted_def podDeleted_def)
  obtain r where r: "snd (pr_out (sv_proc s4)) = snd ?out @ [r]" "covers md5hex u a b r" "attributedTo (Some ?i) r"
    using start_stop_billed [of "svDeps md5hex s3" u "svDeps md5hex s1" ?i "received s1" ?start old ?stop old2 new now now'
        "received s3" now2 now2'] assms(2,9,11,13,14,16-22) res o3 w1 p2 p4
    by (auto simp: svDeps_def fileDeps_def)
  then obtain path where path: "contentOf (fst (pr_out (sv_proc s4))) path =
      contentOf (fst ?out) (ow_path (fst ?out)) @ recordLine (fst ?out) r"
    using HandleEvent_file [of "svDeps md5hex s3" now' now2' ?stop "received s3" r] o3(1) p4
    by (auto simp: svDeps_def fileDeps_def)
  have d: "u_Duration r = b - a" using r(2) assms(22,23) by (simp add: covers_def timeSub_def second_def)
  have f: "u_Project r = pid" "u_Instance r = inst"
      "u_VcpuMilli r = fold max (map containerVcpu (ps_Containers (pod_Spec pod))) 0"
      "u_MemoryBytes r = fold max (map containerMemory (ps_Containers (pod_Spec pod))) 0"
    using r(3) assms(4,5,7) by (auto simp: attributedTo_def podInfo_def fold_foldContainer_resources)
  have "recordText_ok r"
    using r(2) f d assms(3,6,8,22,23) ascii_utf8 windowID_ascii formatRFC3339_ascii
    by (simp add: recordText_ok_def covers_def)
  note line = record_text [OF this]
  have l: "recordLine (fst ?out) r = marshalRecord marshalSeconds r @ [newline]" using assms(10) by (simp add: recordLine_def)
  from line obtain g where g: "litFloat (marshalSeconds (b - a)) = Some (False, g)" "round (valMag g * 10 ^ 9) = b - a"
    unfolding d by blast
  have v: "recordValue r = JObj [(''id'', JStr (windowID md5hex u a b)), (''project'', JStr pid), (''instance'', JStr inst),
      (''uuid'', JStr u), (''vcpu_milli'', JNum (formatInt (fold max (map containerVcpu (ps_Containers (pod_Spec pod))) 0))),
      (''memory_bytes'', JNum (formatInt (fold max (map containerMemory (ps_Containers (pod_Spec pod))) 0))),
      (''start'', JStr (formatRFC3339 a)), (''end'', JStr (formatRFC3339 b)), (''duration_s'', JNum (marshalSeconds (b - a)))]"
    using r(2) f unfolding recordValue_def d by (simp add: covers_def)
  show ?thesis
    using path line g unfolding l v
    by (intro exI [of _ path] exI [of _ "marshalRecord marshalSeconds r"] exI [of _ g] exI [of _ "marshalSeconds (b - a)"]) blast
qed

section \<open>Witnesses\<close>

definition demoIndexing :: projector where
  "demoIndexing = demoBoot\<lparr>sv_namespaces := [(''ns-1'', ''p/1'')],
     sv_proc := (sv_proc demoBoot)\<lparr>pr_out := (demoWriter\<lparr>ow_seconds := marshalSeconds\<rparr>, [])\<rparr>\<rparr>"

definition demoHalt :: stateChange where
  "demoHalt = demoStop\<lparr>ev_Data := [(''new'', JStr ''stopped''), (''prev'', JStr ''running'')]\<rparr>"

lemma demo_events_ok: "eventOk demoStart" "eventOk demoHalt"
  by (simp_all add: eventOk_def demoHalt_def demoStart_def demoStop_def demoUUID_def maxNestingDepth_def ascii_utf8 less_char_def)

definition demoBilled :: projector where
  "demoBilled = lineRead md5hex unmarshalStateChange 0 0 (marshalStateChange demoHalt)
     (namespaceDeleted WOther (podDeleted (WPod demoPod)
       (lineRead md5hex unmarshalStateChange 0 0 (marshalStateChange demoStart) (podAdded (WPod demoPod) demoIndexing))))"

theorem events_to_billing_line_witness:
  "\<exists>path l kvs. contentOf (fst (pr_out (sv_proc demoBilled))) path =
      contentOf (fst (pr_out (sv_proc demoIndexing))) (ow_path (fst (pr_out (sv_proc demoIndexing)))) @ l @ [newline] \<and>
    parseJSON l = Some (JObj kvs) \<and> map_of kvs ''project'' = Some (JStr ''p/1'') \<and> map_of kvs ''uuid'' = Some (JStr demoUUID)"
proof -
  let ?s = demoIndexing
  have u: "demoUUID \<in> set (containerIDs demoPod)" "demoUUID \<noteq> ''''"
    and x: "extractTransition demoStart = (demoUUID, '''', onState)"
      "extractTransition demoHalt = (demoUUID, ''running'', ''stopped'')"
    and t: "eventTime 0 demoStart < eventTime 0 demoHalt" "eventTime 0 demoHalt - eventTime 0 demoStart < 2 ^ 22 * second"
    and n: "''stopped'' \<noteq> onState"
    and pr: "project (sv_namespaces ?s) (pod_Namespace demoPod) = Some ''p/1''"
    and v: "validUTF8 demoUUID" "validUTF8 ''p/1''" "validUTF8 (strAt (pod_Labels demoPod) upstreamInstanceLabel)"
    by code_simp+
  have i: "diskOk (fst (pr_out (sv_proc ?s)))" "ow_seconds (fst (pr_out (sv_proc ?s))) = marshalSeconds"
    "getWindow (pr_windows (sv_proc ?s)) demoUUID = None"
    by (simp_all add: demoIndexing_def demoBoot_def newService_def newProcessor_def Let_def diskOk_def demoWriter_def)
  have ty: "ev_Type demoStart = ''vm.state_change''" "ev_Type demoHalt = ''vm.state_change''"
    and ne: "''p/1'' \<noteq> ''''" "''stopped'' \<noteq> ''''" by (simp_all add: demoStart_def demoHalt_def demoStop_def)
  from events_to_billing_line [where now2' = 0 and ?now2.0 = 0 and ns = WOther,
      OF u v(1) pr ne(1) v(2) refl v(3) i demo_events_ok(1) ty(1) x(1) demo_events_ok(2) ty(2) x(2) ne(2) n refl refl t refl refl refl refl, folded demoBilled_def]
  show ?thesis by (elim exE conjE) (intro exI conjI, assumption, assumption, simp_all)
qed

end
