(* ===== verification/Fqdns.thy ===== *)
theory Fqdns
  imports Status Json_Laws
begin

text \<open>
  The FQDN annotation that kraftlet writes on a Pod, as src/internal/controller/instance_controller.go
  reads it: \<open>json.Unmarshal\<close> into \<open>podFqdns\<close>, in place of the parameter of Status.
\<close>

section \<open>Decoding\<close>








section \<open>The round trip\<close>



section \<open>Properties\<close>


section \<open>Witnesses\<close>



end
