(* ===== verification/Deep_Copy.thy ===== *)
theory Deep_Copy
  imports Config
begin

text \<open>
  src/internal/config/zz_generated.deepcopy.go: the deep copies of the configuration, on a heap on
  which maps, slices and pointers can be shared. What a copy must not do is share any of them with
  the original.
\<close>

section \<open>The heap\<close>

text \<open>
  Addresses count the cells in the order of their allocation. A slice is a view of an array; nil
  maps, slices and pointers are \<open>None\<close>.
\<close>

type_synonym addr = nat

record slice =
  sl_base :: addr
  sl_off :: nat
  sl_len :: nat

record tolerationRef =
  tr_Key :: string
  tr_Operator :: string
  tr_Value :: string
  tr_Effect :: string
  tr_TolerationSeconds :: "addr option"

record instanceDNSRef =
  dn_Nameservers :: "slice option"
  dn_Searches :: "slice option"

record downstreamRef =
  dm_NodeSelector :: "addr option"
  dm_Tolerations :: "slice option"
  dm_EnableCNI :: bool
  dm_EnableVPCNetworking :: bool
  dm_EnableScaleToZeroStateful :: bool
  dm_ScaleToZeroPolicy :: string
  dm_ScaleToZeroCooldownMS :: "addr option"
  dm_ExecPolicy :: string
  dm_InstanceDNS :: "addr option"

record providerRef =
  pv_TypeMeta :: "string \<times> string"
  pv_MetricsServer :: metricsServerConfig
  pv_WebhookServer :: webhookServerConfig
  pv_Downstream :: downstreamRef
  pv_LocationClassName :: string
  pv_RuntimeClassName :: string

datatype cell =
  CMap "(string, string) gomap" | CStrings "string list" | CTolerations "tolerationRef list" | CInt int
  | CInstanceDNS instanceDNSRef | CDownstream downstreamRef | CMetricsServer metricsServerConfig
  | CWebhookServer webhookServerConfig | CProvider providerRef

type_synonym heap = "cell list"

definition alloc :: "heap \<Rightarrow> cell \<Rightarrow> heap \<times> addr" where
  "alloc h c = (h @ [c], length h)"

text \<open>Reading a cell of the kind a pointer's type says; other kinds do not occur in typed code.\<close>

definition cellAt :: "heap \<Rightarrow> addr \<Rightarrow> cell option" where
  "cellAt h a = (if a < length h then Some (h ! a) else None)"

definition mapAt :: "heap \<Rightarrow> addr \<Rightarrow> (string, string) gomap" where
  "mapAt h a = (case cellAt h a of Some (CMap m) \<Rightarrow> m | _ \<Rightarrow> [])"

definition stringsAt :: "heap \<Rightarrow> slice \<Rightarrow> string list" where
  "stringsAt h s = (case cellAt h (sl_base s) of Some (CStrings xs) \<Rightarrow> take (sl_len s) (drop (sl_off s) xs) | _ \<Rightarrow> [])"

definition tolerationsAt :: "heap \<Rightarrow> slice \<Rightarrow> tolerationRef list" where
  "tolerationsAt h s = (case cellAt h (sl_base s) of Some (CTolerations xs) \<Rightarrow> take (sl_len s) (drop (sl_off s) xs) | _ \<Rightarrow> [])"

definition intAt :: "heap \<Rightarrow> addr \<Rightarrow> int" where
  "intAt h a = (case cellAt h a of Some (CInt n) \<Rightarrow> n | _ \<Rightarrow> 0)"

definition emptyDNSRef :: instanceDNSRef where
  "emptyDNSRef = \<lparr>dn_Nameservers = None, dn_Searches = None\<rparr>"

definition dnsAt :: "heap \<Rightarrow> addr \<Rightarrow> instanceDNSRef" where
  "dnsAt h a = (case cellAt h a of Some (CInstanceDNS d) \<Rightarrow> d | _ \<Rightarrow> emptyDNSRef)"

section \<open>The copies\<close>

text \<open>\<open>make([]string, len)\<close> and \<open>copy\<close>.\<close>

definition copyStrings :: "heap \<Rightarrow> slice \<Rightarrow> heap \<times> slice" where
  "copyStrings h s = (let (h, a) = alloc h (CStrings (stringsAt h s)) in (h, \<lparr>sl_base = a, sl_off = 0, sl_len = sl_len s\<rparr>))"

text \<open>
  A nil check around a copy. \<open>DeepCopyInto\<close> of a struct is the value it leaves in \<open>out\<close>, which nobody
  else holds yet: \<open>*out = *in\<close> and then the fields that are copied again.
\<close>

definition ifNotNil :: "(heap \<Rightarrow> 'a \<Rightarrow> heap \<times> 'a) \<Rightarrow> heap \<Rightarrow> 'a option \<Rightarrow> heap \<times> 'a option" where
  "ifNotNil f h p = (case p of None \<Rightarrow> (h, None) | Some x \<Rightarrow> (let (h, y) = f h x in (h, Some y)))"

text \<open>\<open>DeepCopy\<close> of a non-nil pointer: \<open>new\<close>, then \<open>DeepCopyInto\<close>. \<open>box\<close> puts the struct into a cell.\<close>

definition newCopy :: "('s \<Rightarrow> cell) \<Rightarrow> (heap \<Rightarrow> addr \<Rightarrow> 's) \<Rightarrow> 's \<Rightarrow> (heap \<Rightarrow> 's \<Rightarrow> heap \<times> 's) \<Rightarrow> heap \<Rightarrow> addr \<Rightarrow> heap \<times> addr" where
  "newCopy box at zero into h a =
     (let (h, b) = alloc h (box zero); (h, out) = into h (at h a) in (h[b := box out], b))"

definition DeepCopyInto_InstanceDNSConfig :: "heap \<Rightarrow> instanceDNSRef \<Rightarrow> heap \<times> instanceDNSRef" where
  "DeepCopyInto_InstanceDNSConfig h d =
     (let out = d;
          (h, ns) = ifNotNil copyStrings h (dn_Nameservers d); out = out\<lparr>dn_Nameservers := ns\<rparr>;
          (h, ss) = ifNotNil copyStrings h (dn_Searches d)
      in (h, out\<lparr>dn_Searches := ss\<rparr>))"

definition DeepCopy_InstanceDNSConfig :: "heap \<Rightarrow> addr option \<Rightarrow> heap \<times> addr option" where
  "DeepCopy_InstanceDNSConfig = ifNotNil (newCopy CInstanceDNS dnsAt emptyDNSRef DeepCopyInto_InstanceDNSConfig)"

text \<open>The loop over a map, which inserts one key after the other.\<close>

definition copyMap :: "heap \<Rightarrow> addr \<Rightarrow> heap \<times> addr" where
  "copyMap h a = alloc h (CMap (fold (\<lambda>(k, v). AList.update k v) (mapAt h a) []))"

definition copyInt :: "heap \<Rightarrow> addr \<Rightarrow> heap \<times> addr" where
  "copyInt h a = alloc h (CInt (intAt h a))"

text \<open>
  The loop over the tolerations: \<open>DeepCopyInto\<close> of core/v1 for every element, into the array at \<open>b\<close>.
\<close>

type_synonym tolerationCopier = "heap \<Rightarrow> tolerationRef \<Rightarrow> heap \<times> tolerationRef"

definition zeroToleration :: tolerationRef where
  "zeroToleration = \<lparr>tr_Key = [], tr_Operator = [], tr_Value = [], tr_Effect = [], tr_TolerationSeconds = None\<rparr>"

definition setToleration :: "heap \<Rightarrow> addr \<Rightarrow> nat \<Rightarrow> tolerationRef \<Rightarrow> heap" where
  "setToleration h b i t = (case cellAt h b of Some (CTolerations ts) \<Rightarrow> h[b := CTolerations (ts[i := t])] | _ \<Rightarrow> h)"

fun copyTolerationsFrom :: "tolerationCopier \<Rightarrow> addr \<Rightarrow> nat \<Rightarrow> tolerationRef list \<Rightarrow> heap \<Rightarrow> heap" where
  "copyTolerationsFrom C b i [] h = h"
| "copyTolerationsFrom C b i (t # ts) h =
     (let (h, t') = C h t in copyTolerationsFrom C b (Suc i) ts (setToleration h b i t'))"

definition copyTolerations :: "tolerationCopier \<Rightarrow> heap \<Rightarrow> slice \<Rightarrow> heap \<times> slice" where
  "copyTolerations C h s =
     (let (h, b) = alloc h (CTolerations (replicate (sl_len s) zeroToleration))
      in (copyTolerationsFrom C b 0 (tolerationsAt h s) h, \<lparr>sl_base = b, sl_off = 0, sl_len = sl_len s\<rparr>))"

definition DeepCopyInto_Downstream :: "tolerationCopier \<Rightarrow> heap \<Rightarrow> downstreamRef \<Rightarrow> heap \<times> downstreamRef" where
  "DeepCopyInto_Downstream C h d =
     (let out = d;
          (h, sel) = ifNotNil copyMap h (dm_NodeSelector d); out = out\<lparr>dm_NodeSelector := sel\<rparr>;
          (h, tols) = ifNotNil (copyTolerations C) h (dm_Tolerations d); out = out\<lparr>dm_Tolerations := tols\<rparr>;
          (h, cool) = ifNotNil copyInt h (dm_ScaleToZeroCooldownMS d); out = out\<lparr>dm_ScaleToZeroCooldownMS := cool\<rparr>;
          (h, dns) = DeepCopy_InstanceDNSConfig h (dm_InstanceDNS d)
      in (h, out\<lparr>dm_InstanceDNS := dns\<rparr>))"

definition emptyDownstream :: downstreamRef where
  "emptyDownstream =
     \<lparr>dm_NodeSelector = None, dm_Tolerations = None, dm_EnableCNI = False, dm_EnableVPCNetworking = False,
      dm_EnableScaleToZeroStateful = False, dm_ScaleToZeroPolicy = [], dm_ScaleToZeroCooldownMS = None,
      dm_ExecPolicy = [], dm_InstanceDNS = None\<rparr>"

definition downstreamAt :: "heap \<Rightarrow> addr \<Rightarrow> downstreamRef" where
  "downstreamAt h a = (case cellAt h a of Some (CDownstream d) \<Rightarrow> d | _ \<Rightarrow> emptyDownstream)"

definition DeepCopy_Downstream :: "tolerationCopier \<Rightarrow> heap \<Rightarrow> addr option \<Rightarrow> heap \<times> addr option" where
  "DeepCopy_Downstream C = ifNotNil (newCopy CDownstream downstreamAt emptyDownstream (DeepCopyInto_Downstream C))"

text \<open>The two servers have no pointers.\<close>

definition zeroMetricsServer :: metricsServerConfig where
  "zeroMetricsServer = \<lparr>ms_BindAddress = [], ms_SecureServing = False, ms_CertDir = [], ms_CertName = [], ms_KeyName = []\<rparr>"

definition zeroWebhookServer :: webhookServerConfig where
  "zeroWebhookServer = \<lparr>wh_Host = [], wh_Port = 0, wh_CertDir = [], wh_CertName = [], wh_KeyName = []\<rparr>"

definition metricsAt :: "heap \<Rightarrow> addr \<Rightarrow> metricsServerConfig" where
  "metricsAt h a = (case cellAt h a of Some (CMetricsServer m) \<Rightarrow> m | _ \<Rightarrow> zeroMetricsServer)"

definition webhookAt :: "heap \<Rightarrow> addr \<Rightarrow> webhookServerConfig" where
  "webhookAt h a = (case cellAt h a of Some (CWebhookServer m) \<Rightarrow> m | _ \<Rightarrow> zeroWebhookServer)"

definition DeepCopyInto_MetricsServerConfig :: "heap \<Rightarrow> metricsServerConfig \<Rightarrow> heap \<times> metricsServerConfig" where
  "DeepCopyInto_MetricsServerConfig h m = (h, m)"

definition DeepCopyInto_WebhookServerConfig :: "heap \<Rightarrow> webhookServerConfig \<Rightarrow> heap \<times> webhookServerConfig" where
  "DeepCopyInto_WebhookServerConfig h w = (h, w)"

definition DeepCopy_MetricsServerConfig :: "heap \<Rightarrow> addr option \<Rightarrow> heap \<times> addr option" where
  "DeepCopy_MetricsServerConfig = ifNotNil (newCopy CMetricsServer metricsAt zeroMetricsServer DeepCopyInto_MetricsServerConfig)"

definition DeepCopy_WebhookServerConfig :: "heap \<Rightarrow> addr option \<Rightarrow> heap \<times> addr option" where
  "DeepCopy_WebhookServerConfig = ifNotNil (newCopy CWebhookServer webhookAt zeroWebhookServer DeepCopyInto_WebhookServerConfig)"

definition zeroProvider :: providerRef where
  "zeroProvider =
     \<lparr>pv_TypeMeta = ([], []), pv_MetricsServer = zeroMetricsServer, pv_WebhookServer = zeroWebhookServer,
      pv_Downstream = emptyDownstream, pv_LocationClassName = [], pv_RuntimeClassName = []\<rparr>"

definition providerAt :: "heap \<Rightarrow> addr \<Rightarrow> providerRef" where
  "providerAt h a = (case cellAt h a of Some (CProvider p) \<Rightarrow> p | _ \<Rightarrow> zeroProvider)"

definition DeepCopyInto_UnikraftProvider :: "tolerationCopier \<Rightarrow> heap \<Rightarrow> providerRef \<Rightarrow> heap \<times> providerRef" where
  "DeepCopyInto_UnikraftProvider C h p =
     (let out = p;
          out = out\<lparr>pv_TypeMeta := pv_TypeMeta p\<rparr>;
          out = out\<lparr>pv_MetricsServer := pv_MetricsServer p\<rparr>;
          out = out\<lparr>pv_WebhookServer := pv_WebhookServer p\<rparr>;
          (h, d) = DeepCopyInto_Downstream C h (pv_Downstream p)
      in (h, out\<lparr>pv_Downstream := d\<rparr>))"

definition DeepCopy_UnikraftProvider :: "tolerationCopier \<Rightarrow> heap \<Rightarrow> addr option \<Rightarrow> heap \<times> addr option" where
  "DeepCopy_UnikraftProvider C = ifNotNil (newCopy CProvider providerAt zeroProvider (DeepCopyInto_UnikraftProvider C))"

text \<open>As a \<open>runtime.Object\<close>: a nil pointer becomes a nil interface.\<close>

definition DeepCopyObject :: "tolerationCopier \<Rightarrow> heap \<Rightarrow> addr option \<Rightarrow> heap \<times> addr option" where
  "DeepCopyObject C h p =
     (let (h, c) = DeepCopy_UnikraftProvider C h p in case c of Some a \<Rightarrow> (h, Some a) | None \<Rightarrow> (h, None))"

section \<open>What a deep copy promises\<close>

text \<open>
  For a kind of value: when the pointers in it are good, what is seen through them, and the cells
  they lead to. A copier leaves the cells there were alone, makes a value that looks the same, and
  leads to new cells only; what is seen depends on no other cells.
\<close>

definition agree :: "addr set \<Rightarrow> heap \<Rightarrow> heap \<Rightarrow> bool" where
  "agree A h h' \<longleftrightarrow> (\<forall>a\<in>A. cellAt h' a = cellAt h a)"

lemma agree_append: "A \<subseteq> {..<length h} \<Longrightarrow> agree A h (h @ xs)"
  by (auto simp: agree_def cellAt_def nth_append)

lemma agree_subset: "agree A h h' \<Longrightarrow> B \<subseteq> A \<Longrightarrow> agree B h h'"
  by (auto simp: agree_def)

locale deep_copier =
  fixes ok :: "heap \<Rightarrow> 'a \<Rightarrow> bool" and view :: "heap \<Rightarrow> 'a \<Rightarrow> 'v" and foot :: "heap \<Rightarrow> 'a \<Rightarrow> addr set"
    and copy :: "heap \<Rightarrow> 'a \<Rightarrow> heap \<times> 'a"
  assumes within: "ok h x \<Longrightarrow> foot h x \<subseteq> {..<length h}"
    and frame: "ok h x \<Longrightarrow> agree (foot h x) h h' \<Longrightarrow> ok h' x \<and> view h' x = view h x \<and> foot h' x = foot h x"
    and copies: "ok h x \<Longrightarrow> copy h x = (h', y) \<Longrightarrow>
      (\<exists>xs. h' = h @ xs) \<and> ok h' y \<and> view h' y = view h x \<and> foot h' y \<subseteq> {length h..<length h'}"
begin

text \<open>Allocation changes nothing.\<close>

lemma grown: "ok h x \<Longrightarrow> ok (h @ xs) x \<and> view (h @ xs) x = view h x \<and> foot (h @ xs) x = foot h x"
  using frame agree_append [OF within] by blast

text \<open>Writes to cells behind the copy do not show in the original, and the other way round.\<close>

lemma independent:
  assumes "ok h x" "copy h x = (h', y)"
  shows "view h' y = view h x" "view h' x = view h x"
    and "agree (- foot h' y) h' h2 \<Longrightarrow> view h2 x = view h x"
    and "agree (- foot h x) h' h2 \<Longrightarrow> view h2 y = view h x"
proof -
  note c = copies [OF assms]
  then obtain xs where h': "h' = h @ xs" by blast
  show "view h' y = view h x" using c by blast
  show v: "view h' x = view h x" using grown [OF assms(1)] h' by blast
  have ok': "ok h' x" "foot h' x = foot h x" using grown [OF assms(1)] h' by auto
  have disj: "foot h x \<inter> foot h' y = {}" using within [OF assms(1)] c by fastforce
  show "view h2 x = view h x" if "agree (- foot h' y) h' h2"
    using frame [OF ok'(1), of h2] agree_subset [OF that, of "foot h' x"] disj ok'(2) v by auto
  show "view h2 y = view h x" if "agree (- foot h x) h' h2"
    using frame [of h' y h2] c agree_subset [OF that, of "foot h' y"] disj by auto
qed

end

section \<open>Copiers from copiers\<close>

text \<open>A nil check, two copies one after the other, the fields of a struct, and a pointer to a struct.\<close>

definition copyPair :: "(heap \<Rightarrow> 'a \<Rightarrow> heap \<times> 'a) \<Rightarrow> (heap \<Rightarrow> 'b \<Rightarrow> heap \<times> 'b) \<Rightarrow> heap \<Rightarrow> 'a \<times> 'b \<Rightarrow> heap \<times> 'a \<times> 'b" where
  "copyPair c1 c2 h xy = (let (h, a) = c1 h (fst xy); (h, b) = c2 h (snd xy) in (h, a, b))"

definition optOk :: "(heap \<Rightarrow> 'a \<Rightarrow> bool) \<Rightarrow> heap \<Rightarrow> 'a option \<Rightarrow> bool" where
  "optOk ok h p \<longleftrightarrow> (case p of None \<Rightarrow> True | Some x \<Rightarrow> ok h x)"

definition optFoot :: "(heap \<Rightarrow> 'a \<Rightarrow> addr set) \<Rightarrow> heap \<Rightarrow> 'a option \<Rightarrow> addr set" where
  "optFoot foot h p = (case p of None \<Rightarrow> {} | Some x \<Rightarrow> foot h x)"

lemma copier_option:
  assumes "deep_copier ok view foot copy"
  shows "deep_copier (optOk ok) (\<lambda>h. map_option (view h)) (optFoot foot) (ifNotNil copy)"
proof (rule deep_copier.intro)
  fix h h' p q
  show "optFoot foot h p \<subseteq> {..<length h}" if "optOk ok h p"
    using that deep_copier.within [OF assms] by (cases p) (auto simp: optOk_def optFoot_def)
  show "optOk ok h' p \<and> map_option (view h') p = map_option (view h) p \<and> optFoot foot h' p = optFoot foot h p"
    if "optOk ok h p" "agree (optFoot foot h p) h h'"
    using that deep_copier.frame [OF assms, of h _ h'] by (cases p) (simp_all add: optOk_def optFoot_def)
  show "(\<exists>xs. h' = h @ xs) \<and> optOk ok h' q \<and> map_option (view h') q = map_option (view h) p \<and>
      optFoot foot h' q \<subseteq> {length h..<length h'}" if o: "optOk ok h p" and n: "ifNotNil copy h p = (h', q)"
  proof (cases p)
    case (Some x)
    then obtain y where "copy h x = (h', y)" "q = Some y" using n by (auto simp: ifNotNil_def split: prod.splits)
    then show ?thesis using deep_copier.copies [OF assms, of h x h' y] o Some by (simp add: optOk_def optFoot_def)
  qed (use o n in \<open>auto simp: optOk_def optFoot_def ifNotNil_def\<close>)
qed

lemma copier_pair:
  assumes "deep_copier ok1 view1 foot1 copy1" "deep_copier ok2 view2 foot2 copy2"
  shows "deep_copier (\<lambda>h p. ok1 h (fst p) \<and> ok2 h (snd p)) (\<lambda>h p. (view1 h (fst p), view2 h (snd p)))
    (\<lambda>h p. foot1 h (fst p) \<union> foot2 h (snd p)) (copyPair copy1 copy2)"
proof (rule deep_copier.intro)
  fix h h' p q
  show "foot1 h (fst p) \<union> foot2 h (snd p) \<subseteq> {..<length h}" if "ok1 h (fst p) \<and> ok2 h (snd p)"
    using that deep_copier.within [OF assms(1)] deep_copier.within [OF assms(2)] by simp
  show "(ok1 h' (fst p) \<and> ok2 h' (snd p)) \<and> (view1 h' (fst p), view2 h' (snd p)) = (view1 h (fst p), view2 h (snd p)) \<and>
      foot1 h' (fst p) \<union> foot2 h' (snd p) = foot1 h (fst p) \<union> foot2 h (snd p)"
    if "ok1 h (fst p) \<and> ok2 h (snd p)" "agree (foot1 h (fst p) \<union> foot2 h (snd p)) h h'"
    using that deep_copier.frame [OF assms(1), of h "fst p" h'] deep_copier.frame [OF assms(2), of h "snd p" h'] by (auto simp: agree_def)
  show "(\<exists>xs. h' = h @ xs) \<and> (ok1 h' (fst q) \<and> ok2 h' (snd q)) \<and>
      (view1 h' (fst q), view2 h' (snd q)) = (view1 h (fst p), view2 h (snd p)) \<and>
      foot1 h' (fst q) \<union> foot2 h' (snd q) \<subseteq> {length h..<length h'}"
    if o: "ok1 h (fst p) \<and> ok2 h (snd p)" and k: "copyPair copy1 copy2 h p = (h', q)"
  proof -
    obtain x y where p: "p = (x, y)" by fastforce
    obtain x' y' where q: "q = (x', y')" by fastforce
    obtain h1 where c1: "copy1 h x = (h1, x')" and c2: "copy2 h1 y = (h', y')"
      using k p q by (auto simp: copyPair_def split: prod.splits)
    have o1: "ok1 h x" and o2: "ok2 h y" using o p by simp_all
    note k1 = deep_copier.copies [OF assms(1) o1 c1]
    then obtain xs where xs: "h1 = h @ xs" by blast
    have y: "ok2 h1 y" "view2 h1 y = view2 h y" using deep_copier.grown [OF assms(2) o2] xs by auto
    note k2 = deep_copier.copies [OF assms(2) y(1) c2]
    then obtain ys where ys: "h' = h1 @ ys" by blast
    have "ok1 h' x'" "view1 h' x' = view1 h1 x'" "foot1 h' x' = foot1 h1 x'"
      using deep_copier.grown [OF assms(1), of h1 x'] k1 ys by auto
    then show ?thesis using k1 k2 y xs ys p q by auto
  qed
qed

text \<open>\<open>get\<close> and \<open>put\<close> are the copied fields of a struct, \<open>rest\<close> the others.\<close>

lemma copier_struct:
  assumes "deep_copier ok view foot copy" "\<And>a r. get (put a r) = a" "\<And>a r. rest (put a r) = rest r"
  shows "deep_copier (\<lambda>h r. ok h (get r)) (\<lambda>h r. (view h (get r), rest r)) (\<lambda>h r. foot h (get r))
    (\<lambda>h r. case copy h (get r) of (h', a) \<Rightarrow> (h', put a r))"
proof (rule deep_copier.intro)
  fix h h' r q
  show "foot h (get r) \<subseteq> {..<length h}" if "ok h (get r)" using that by (rule deep_copier.within [OF assms(1)])
  show "ok h' (get r) \<and> (view h' (get r), rest r) = (view h (get r), rest r) \<and> foot h' (get r) = foot h (get r)"
    if "ok h (get r)" "agree (foot h (get r)) h h'" using deep_copier.frame [OF assms(1) that] by simp
  show "(\<exists>xs. h' = h @ xs) \<and> ok h' (get q) \<and> (view h' (get q), rest q) = (view h (get r), rest r) \<and>
      foot h' (get q) \<subseteq> {length h..<length h'}"
    if "ok h (get r)" "(case copy h (get r) of (h', a) \<Rightarrow> (h', put a r)) = (h', q)"
    using that deep_copier.copies [OF assms(1) that(1)] assms(2,3) by (auto split: prod.splits)
qed

lemma copier_pointer:
  assumes "deep_copier ok view foot copy"
    and "\<And>h a s. cellAt h a = Some (box s) \<Longrightarrow> at h a = s"
  shows "deep_copier (\<lambda>h a. cellAt h a = Some (box (at h a)) \<and> ok h (at h a)) (\<lambda>h a. view h (at h a))
    (\<lambda>h a. insert a (foot h (at h a))) (newCopy box at zero copy)"
proof (rule deep_copier.intro)
  fix h h' a b
  show "insert a (foot h (at h a)) \<subseteq> {..<length h}" if "cellAt h a = Some (box (at h a)) \<and> ok h (at h a)"
    using that deep_copier.within [OF assms(1)] by (auto simp: cellAt_def split: if_splits)
  show "(cellAt h' a = Some (box (at h' a)) \<and> ok h' (at h' a)) \<and> view h' (at h' a) = view h (at h a) \<and>
      insert a (foot h' (at h' a)) = insert a (foot h (at h a))"
    if o: "cellAt h a = Some (box (at h a)) \<and> ok h (at h a)" and g: "agree (insert a (foot h (at h a))) h h'"
  proof -
    have c: "cellAt h' a = Some (box (at h a))" using o g by (simp add: agree_def)
    then have "at h' a = at h a" by (rule assms(2))
    then show ?thesis using c o deep_copier.frame [OF assms(1), of h "at h a" h'] agree_subset [OF g] by auto
  qed
  show "(\<exists>xs. h' = h @ xs) \<and> (cellAt h' b = Some (box (at h' b)) \<and> ok h' (at h' b)) \<and>
      view h' (at h' b) = view h (at h a) \<and> insert b (foot h' (at h' b)) \<subseteq> {length h..<length h'}"
    if o: "cellAt h a = Some (box (at h a)) \<and> ok h (at h a)" and n: "newCopy box at zero copy h a = (h', b)"
  proof -
    let ?h1 = "h @ [box zero]"
    obtain h2 out where c: "copy ?h1 (at ?h1 a) = (h2, out)" by (metis surj_pair)
    have h': "h' = h2[length h := box out]" "b = length h" using n c by (auto simp: newCopy_def alloc_def)
    have "cellAt ?h1 a = Some (box (at h a))" using o by (auto simp: cellAt_def nth_append split: if_splits)
    then have at1: "at ?h1 a = at h a" by (rule assms(2))
    have k0: "ok ?h1 (at h a)" "view ?h1 (at h a) = view h (at h a)" using deep_copier.grown [OF assms(1)] o by auto
    note k = deep_copier.copies [OF assms(1) k0(1) c [unfolded at1]]
    then obtain xs where xs: "h2 = ?h1 @ xs" by blast
    have hx: "h' = h @ box out # xs" using h' xs by simp
    have cb: "cellAt h' b = Some (box out)" using hx h'(2) by (simp add: cellAt_def)
    then have ab: "at h' b = out" by (rule assms(2))
    have "agree (foot h2 out) h2 h'" using k xs hx by (auto simp: agree_def cellAt_def nth_append nth_Cons')
    then have "ok h' out" "view h' out = view h2 out" "foot h' out = foot h2 out"
      using deep_copier.frame [OF assms(1), of h2 out h'] k by auto
    then show ?thesis using k k0 cb ab hx h'(2) xs by auto
  qed
qed

section \<open>Slices, maps and integers\<close>

definition stringsOk :: "heap \<Rightarrow> slice \<Rightarrow> bool" where
  "stringsOk h s \<longleftrightarrow> (case cellAt h (sl_base s) of Some (CStrings xs) \<Rightarrow> sl_off s + sl_len s \<le> length xs | _ \<Rightarrow> False)"

definition mapOk :: "heap \<Rightarrow> addr \<Rightarrow> bool" where
  "mapOk h a \<longleftrightarrow> (case cellAt h a of Some (CMap m) \<Rightarrow> distinct (map fst m) | _ \<Rightarrow> False)"

definition intOk :: "heap \<Rightarrow> addr \<Rightarrow> bool" where
  "intOk h a \<longleftrightarrow> (case cellAt h a of Some (CInt n) \<Rightarrow> True | _ \<Rightarrow> False)"

lemma cellAt_last [simp]: "cellAt (h @ [c]) (length h) = Some c" "cellAt (h @ c # xs) (length h) = Some c"
  by (simp_all add: cellAt_def)

lemma cellAt_in: "cellAt h a = Some c \<Longrightarrow> a < length h"
  by (simp add: cellAt_def split: if_splits)

lemma copier_strings: "deep_copier stringsOk stringsAt (\<lambda>h s. {sl_base s}) copyStrings"
proof (rule deep_copier.intro)
  fix h h' :: heap and s q :: slice
  show "{sl_base s} \<subseteq> {..<length h}" if "stringsOk h s"
    using that cellAt_in by (auto simp: stringsOk_def split: option.splits)
  show "stringsOk h' s \<and> stringsAt h' s = stringsAt h s \<and> {sl_base s} = {sl_base s}"
    if "stringsOk h s" "agree {sl_base s} h h'"
    using that by (simp add: agree_def stringsOk_def stringsAt_def)
  show "(\<exists>xs. h' = h @ xs) \<and> stringsOk h' q \<and> stringsAt h' q = stringsAt h s \<and> {sl_base q} \<subseteq> {length h..<length h'}"
    if "stringsOk h s" "copyStrings h s = (h', q)"
    using that by (auto simp: copyStrings_def alloc_def stringsOk_def stringsAt_def split: option.splits cell.splits)
qed

lemma copier_map: "deep_copier mapOk mapAt (\<lambda>h a. {a}) copyMap"
proof (rule deep_copier.intro)
  fix h h' :: heap and a b :: addr
  show "{a} \<subseteq> {..<length h}" if "mapOk h a" using that cellAt_in by (auto simp: mapOk_def split: option.splits)
  show "mapOk h' a \<and> mapAt h' a = mapAt h a \<and> {a} = {a}" if "mapOk h a" "agree {a} h h'"
    using that by (simp add: agree_def mapOk_def mapAt_def)
  show "(\<exists>xs. h' = h @ xs) \<and> mapOk h' b \<and> mapAt h' b = mapAt h a \<and> {b} \<subseteq> {length h..<length h'}"
    if "mapOk h a" "copyMap h a = (h', b)"
    using that fold_update_distinct [of "[]" "mapAt h a"]
    by (auto simp: copyMap_def alloc_def mapOk_def mapAt_def split: option.splits cell.splits)
qed

lemma copier_int: "deep_copier intOk intAt (\<lambda>h a. {a}) copyInt"
proof (rule deep_copier.intro)
  fix h h' :: heap and a b :: addr
  show "{a} \<subseteq> {..<length h}" if "intOk h a" using that cellAt_in by (auto simp: intOk_def split: option.splits)
  show "intOk h' a \<and> intAt h' a = intAt h a \<and> {a} = {a}" if "intOk h a" "agree {a} h h'"
    using that by (simp add: agree_def intOk_def intAt_def)
  show "(\<exists>xs. h' = h @ xs) \<and> intOk h' b \<and> intAt h' b = intAt h a \<and> {b} \<subseteq> {length h..<length h'}"
    if "intOk h a" "copyInt h a = (h', b)"
    using that by (auto simp: copyInt_def alloc_def intOk_def intAt_def)
qed

section \<open>Tolerations\<close>

text \<open>What \<open>DeepCopyInto\<close> of a core/v1 toleration is relied on for: it is a deep copier.\<close>

definition tolerationOk :: "heap \<Rightarrow> tolerationRef \<Rightarrow> bool" where
  "tolerationOk h t = optOk intOk h (tr_TolerationSeconds t)"

definition tolerationView :: "heap \<Rightarrow> tolerationRef \<Rightarrow> int option \<times> tolerationRef" where
  "tolerationView h t = (map_option (intAt h) (tr_TolerationSeconds t), t\<lparr>tr_TolerationSeconds := None\<rparr>)"

definition tolerationFoot :: "heap \<Rightarrow> tolerationRef \<Rightarrow> addr set" where
  "tolerationFoot h t = optFoot (\<lambda>h a. {a}) h (tr_TolerationSeconds t)"

abbreviation copiesTolerations :: "tolerationCopier \<Rightarrow> bool" where
  "copiesTolerations C \<equiv> deep_copier tolerationOk tolerationView tolerationFoot C"

definition tolerationsOk :: "heap \<Rightarrow> slice \<Rightarrow> bool" where
  "tolerationsOk h s \<longleftrightarrow>
     (case cellAt h (sl_base s) of Some (CTolerations xs) \<Rightarrow> sl_off s + sl_len s \<le> length xs | _ \<Rightarrow> False) \<and>
     (\<forall>t\<in>set (tolerationsAt h s). tolerationOk h t)"

definition tolerationsFoot :: "heap \<Rightarrow> slice \<Rightarrow> addr set" where
  "tolerationsFoot h s = insert (sl_base s) (\<Union>t\<in>set (tolerationsAt h s). tolerationFoot h t)"

text \<open>An element that has been copied into the array at \<open>b\<close>.\<close>

definition copied :: "heap \<Rightarrow> addr \<Rightarrow> heap \<Rightarrow> tolerationRef \<Rightarrow> tolerationRef \<Rightarrow> bool" where
  "copied h0 b h t' t \<longleftrightarrow> tolerationOk h t' \<and> tolerationView h t' = tolerationView h0 t \<and> tolerationFoot h t' \<subseteq> {Suc b..<length h}"

lemma copied_later:
  assumes "copiesTolerations C" "copied h0 b h t' t" "agree {Suc b..<length h} h h'" "length h \<le> length h'"
  shows "copied h0 b h' t' t"
proof -
  have "tolerationOk h' t' \<and> tolerationView h' t' = tolerationView h t' \<and> tolerationFoot h' t' = tolerationFoot h t'"
    using assms(2) by (intro deep_copier.frame [OF assms(1)] agree_subset [OF assms(3)]) (simp_all add: copied_def)
  then show ?thesis using assms(2,4) by (auto simp: copied_def)
qed

lemma copyTolerationsFrom_copies:
  assumes C: "copiesTolerations C"
  shows "h = h0 @ CTolerations us # ys \<Longrightarrow> i = length old \<Longrightarrow> length us = i + length ts \<Longrightarrow>
    \<forall>t\<in>set ts. tolerationOk h0 t \<Longrightarrow> list_all2 (copied h0 (length h0) h) (take i us) old \<Longrightarrow>
    \<exists>us' ys'. copyTolerationsFrom C (length h0) i ts h = h0 @ CTolerations us' # ys' \<and>
      list_all2 (copied h0 (length h0) (h0 @ CTolerations us' # ys')) us' (old @ ts)"
proof (induction ts arbitrary: h us ys i old)
  case Nil
  then show ?case by auto
next
  case (Cons t ts)
  obtain h1 t' where c: "C h t = (h1, t')" by (metis surj_pair)
  have t: "tolerationOk h t" "tolerationView h t = tolerationView h0 t"
    using deep_copier.grown [OF C, of h0 t "CTolerations us # ys"] Cons.prems(1,4) by auto
  note k = deep_copier.copies [OF C t(1) c]
  then obtain zs where zs: "h1 = h @ zs" by blast
  let ?h2 = "h0 @ CTolerations (us[i := t']) # ys @ zs"
  have set: "setToleration h1 (length h0) i t' = ?h2" using zs Cons.prems(1) by (simp add: setToleration_def)
  have ag: "agree {Suc (length h0)..<length h1} h1 ?h2"
    using zs Cons.prems(1) by (auto simp: agree_def cellAt_def nth_append nth_Cons')
  have ag0: "agree {Suc (length h0)..<length h} h ?h2"
    using Cons.prems(1) by (auto simp: agree_def cellAt_def nth_append nth_Cons')
  have "copied h0 (length h0) h1 t' t" using k t zs Cons.prems(1) by (auto simp: copied_def)
  from copied_later [OF C this ag] have new: "copied h0 (length h0) ?h2 t' t" using zs Cons.prems(1) by simp
  have "list_all2 (copied h0 (length h0) ?h2) (take i us) old"
    using Cons.prems(1,5) copied_later [OF C _ ag0] by (auto elim!: list_all2_mono)
  then have "list_all2 (copied h0 (length h0) ?h2) (take (Suc i) (us[i := t'])) (old @ [t])"
    using new Cons.prems(2,3) by (simp add: take_Suc_conv_app_nth list_all2_append)
  then show ?case
    using Cons.IH [of ?h2 "us[i := t']" "ys @ zs" "Suc i" "old @ [t]"] Cons.prems(2-4) c set by simp
qed

lemma copier_tolerations:
  assumes C: "copiesTolerations C"
  shows "deep_copier tolerationsOk (\<lambda>h s. map (tolerationView h) (tolerationsAt h s)) tolerationsFoot (copyTolerations C)"
proof (rule deep_copier.intro)
  fix h h' :: heap and s q :: slice
  show "tolerationsFoot h s \<subseteq> {..<length h}" if "tolerationsOk h s"
    using that cellAt_in deep_copier.within [OF C]
    by (fastforce simp: tolerationsOk_def tolerationsFoot_def split: option.splits)
  show "tolerationsOk h' s \<and> map (tolerationView h') (tolerationsAt h' s) = map (tolerationView h) (tolerationsAt h s) \<and>
      tolerationsFoot h' s = tolerationsFoot h s"
    if o: "tolerationsOk h s" and a: "agree (tolerationsFoot h s) h h'"
  proof -
    have at: "tolerationsAt h' s = tolerationsAt h s" "cellAt h' (sl_base s) = cellAt h (sl_base s)"
      using a by (simp_all add: agree_def tolerationsFoot_def tolerationsAt_def)
    have "tolerationOk h' t \<and> tolerationView h' t = tolerationView h t \<and> tolerationFoot h' t = tolerationFoot h t"
      if "t \<in> set (tolerationsAt h s)" for t
      using o that by (intro deep_copier.frame [OF C] agree_subset [OF a]) (auto simp: tolerationsOk_def tolerationsFoot_def)
    then show ?thesis using o at by (simp add: tolerationsOk_def tolerationsFoot_def)
  qed
  show "(\<exists>xs. h' = h @ xs) \<and> tolerationsOk h' q \<and>
      map (tolerationView h') (tolerationsAt h' q) = map (tolerationView h) (tolerationsAt h s) \<and>
      tolerationsFoot h' q \<subseteq> {length h..<length h'}"
    if o: "tolerationsOk h s" and c: "copyTolerations C h s = (h', q)"
  proof -
    let ?ts = "tolerationsAt h s" and ?us = "replicate (sl_len s) zeroToleration"
    obtain xs where xs: "cellAt h (sl_base s) = Some (CTolerations xs)" "sl_off s + sl_len s \<le> length xs"
      using o by (auto simp: tolerationsOk_def split: option.splits cell.splits)
    have at: "tolerationsAt (h @ [CTolerations ?us]) s = ?ts"
      using cellAt_in [OF xs(1)] by (simp add: tolerationsAt_def cellAt_def nth_append)
    have len: "length ?ts = sl_len s" using xs by (simp add: tolerationsAt_def)
    have "\<forall>t\<in>set ?ts. tolerationOk h t" using o by (simp add: tolerationsOk_def)
    from copyTolerationsFrom_copies [OF C refl _ _ this, of 0 "[]" ?us "[]"] len obtain us ys where
      r: "copyTolerationsFrom C (length h) 0 ?ts (h @ [CTolerations ?us]) = h @ CTolerations us # ys"
        "list_all2 (copied h (length h) (h @ CTolerations us # ys)) us ?ts" by auto
    have q: "h' = h @ CTolerations us # ys" "q = \<lparr>sl_base = length h, sl_off = 0, sl_len = sl_len s\<rparr>"
      using c r(1) at by (auto simp: copyTolerations_def alloc_def)
    have us: "length us = sl_len s" using r(2) len by (simp add: list_all2_lengthD)
    then have atq: "tolerationsAt h' q = us" using q by (simp add: tolerationsAt_def)
    have all: "\<forall>t\<in>set us. tolerationOk h' t \<and> tolerationFoot h' t \<subseteq> {Suc (length h)..<length h'}"
      using r(2) q(1) by (clarsimp simp: list_all2_conv_all_nth in_set_conv_nth copied_def)
    have "map (tolerationView h') us = map (tolerationView h) ?ts"
      using r(2) q(1) by (auto simp: list_all2_conv_all_nth copied_def intro!: nth_equalityI)
    moreover have "tolerationsOk h' q" using all atq us q by (simp add: tolerationsOk_def)
    moreover have "(\<Union>t\<in>set us. tolerationFoot h' t) \<subseteq> {length h..<length h'}" using all by fastforce
    then have "tolerationsFoot h' q \<subseteq> {length h..<length h'}" unfolding tolerationsFoot_def atq using q by simp
    ultimately show ?thesis using q(1) atq by auto
  qed
qed

section \<open>The structs\<close>

text \<open>What is seen of a struct: the values behind its pointers, and its other fields.\<close>

definition dnsOk :: "heap \<Rightarrow> instanceDNSRef \<Rightarrow> bool" where
  "dnsOk h d \<longleftrightarrow> optOk stringsOk h (dn_Nameservers d) \<and> optOk stringsOk h (dn_Searches d)"

definition dnsView :: "heap \<Rightarrow> instanceDNSRef \<Rightarrow> string list option \<times> string list option" where
  "dnsView h d = (map_option (stringsAt h) (dn_Nameservers d), map_option (stringsAt h) (dn_Searches d))"

definition dnsFoot :: "heap \<Rightarrow> instanceDNSRef \<Rightarrow> addr set" where
  "dnsFoot h d = optFoot (\<lambda>h s. {sl_base s}) h (dn_Nameservers d) \<union> optFoot (\<lambda>h s. {sl_base s}) h (dn_Searches d)"

lemma copier_view:
  assumes "deep_copier ok view foot copy" "ok = ok'" "\<And>h x. view' h x = g (view h x)" "foot = foot'" "copy = copy'"
  shows "deep_copier ok' view' foot' copy'"
proof (rule deep_copier.intro)
  fix h h' x y
  show "foot' h x \<subseteq> {..<length h}" if "ok' h x" using that deep_copier.within [OF assms(1)] assms(2,4) by blast
  show "ok' h' x \<and> view' h' x = view' h x \<and> foot' h' x = foot' h x" if "ok' h x" "agree (foot' h x) h h'"
    using that deep_copier.frame [OF assms(1)] assms(2-4) by metis
  show "(\<exists>xs. h' = h @ xs) \<and> ok' h' y \<and> view' h' y = view' h x \<and> foot' h' y \<subseteq> {length h..<length h'}"
    if "ok' h x" "copy' h x = (h', y)"
    using that deep_copier.copies [OF assms(1)] assms(2-5) by metis
qed

lemma copier_dns: "deep_copier dnsOk dnsView dnsFoot DeepCopyInto_InstanceDNSConfig"
  by (rule copier_view [OF copier_struct [OF copier_pair [OF copier_option [OF copier_strings] copier_option [OF copier_strings]],
        where get = "\<lambda>d. (dn_Nameservers d, dn_Searches d)" and put = "\<lambda>(a, b) d. d\<lparr>dn_Nameservers := a, dn_Searches := b\<rparr>"
          and rest = "\<lambda>d. ()"], where g = fst])
    (auto simp: fun_eq_iff dnsOk_def dnsView_def dnsFoot_def DeepCopyInto_InstanceDNSConfig_def copyPair_def Let_def
      split: prod.splits)

abbreviation dnsPtrOk :: "heap \<Rightarrow> addr \<Rightarrow> bool" where
  "dnsPtrOk h a \<equiv> cellAt h a = Some (CInstanceDNS (dnsAt h a)) \<and> dnsOk h (dnsAt h a)"

lemma copier_dnsPtr:
  "deep_copier (optOk dnsPtrOk) (\<lambda>h. map_option (\<lambda>a. dnsView h (dnsAt h a)))
     (optFoot (\<lambda>h a. insert a (dnsFoot h (dnsAt h a)))) DeepCopy_InstanceDNSConfig"
  unfolding DeepCopy_InstanceDNSConfig_def
  by (rule copier_option [OF copier_pointer [OF copier_dns]]) (simp add: dnsAt_def)

type_synonym downstreamView =
  "(string, string) gomap option \<times> (int option \<times> tolerationRef) list option \<times> int option \<times>
   (string list option \<times> string list option) option \<times> downstreamRef"

definition downstreamOk :: "heap \<Rightarrow> downstreamRef \<Rightarrow> bool" where
  "downstreamOk h d \<longleftrightarrow> optOk mapOk h (dm_NodeSelector d) \<and> optOk tolerationsOk h (dm_Tolerations d) \<and>
     optOk intOk h (dm_ScaleToZeroCooldownMS d) \<and> optOk dnsPtrOk h (dm_InstanceDNS d)"

definition downstreamView :: "heap \<Rightarrow> downstreamRef \<Rightarrow> downstreamView" where
  "downstreamView h d =
     (map_option (mapAt h) (dm_NodeSelector d),
      map_option (\<lambda>s. map (tolerationView h) (tolerationsAt h s)) (dm_Tolerations d),
      map_option (intAt h) (dm_ScaleToZeroCooldownMS d),
      map_option (\<lambda>a. dnsView h (dnsAt h a)) (dm_InstanceDNS d),
      d\<lparr>dm_NodeSelector := None, dm_Tolerations := None, dm_ScaleToZeroCooldownMS := None, dm_InstanceDNS := None\<rparr>)"

definition downstreamFoot :: "heap \<Rightarrow> downstreamRef \<Rightarrow> addr set" where
  "downstreamFoot h d =
     optFoot (\<lambda>h a. {a}) h (dm_NodeSelector d) \<union> (optFoot tolerationsFoot h (dm_Tolerations d) \<union>
     (optFoot (\<lambda>h a. {a}) h (dm_ScaleToZeroCooldownMS d) \<union>
      optFoot (\<lambda>h a. insert a (dnsFoot h (dnsAt h a))) h (dm_InstanceDNS d)))"

lemma copier_downstream:
  assumes "copiesTolerations C"
  shows "deep_copier downstreamOk downstreamView downstreamFoot (DeepCopyInto_Downstream C)"
  by (rule copier_view [OF copier_struct [OF copier_pair [OF copier_option [OF copier_map]
        copier_pair [OF copier_option [OF copier_tolerations [OF assms]] copier_pair [OF copier_option [OF copier_int] copier_dnsPtr]]],
        where get = "\<lambda>d. (dm_NodeSelector d, dm_Tolerations d, dm_ScaleToZeroCooldownMS d, dm_InstanceDNS d)"
          and put = "\<lambda>(a, b, c, e) d. d\<lparr>dm_NodeSelector := a, dm_Tolerations := b, dm_ScaleToZeroCooldownMS := c, dm_InstanceDNS := e\<rparr>"
          and rest = "\<lambda>d. d\<lparr>dm_NodeSelector := None, dm_Tolerations := None, dm_ScaleToZeroCooldownMS := None, dm_InstanceDNS := None\<rparr>"],
        where g = "\<lambda>((a, b, c, e), r). (a, b, c, e, r)"])
    (auto simp: fun_eq_iff downstreamOk_def downstreamView_def downstreamFoot_def DeepCopyInto_Downstream_def copyPair_def Let_def
      split: prod.splits)

definition providerOk :: "heap \<Rightarrow> addr \<Rightarrow> bool" where
  "providerOk h a \<longleftrightarrow> cellAt h a = Some (CProvider (providerAt h a)) \<and> downstreamOk h (pv_Downstream (providerAt h a))"

definition providerView :: "heap \<Rightarrow> addr \<Rightarrow> downstreamView \<times> providerRef" where
  "providerView h a =
     (downstreamView h (pv_Downstream (providerAt h a)), (providerAt h a)\<lparr>pv_Downstream := emptyDownstream\<rparr>)"

definition providerFoot :: "heap \<Rightarrow> addr \<Rightarrow> addr set" where
  "providerFoot h a = insert a (downstreamFoot h (pv_Downstream (providerAt h a)))"

lemma copier_provider:
  assumes "copiesTolerations C"
  shows "deep_copier (optOk providerOk) (\<lambda>h. map_option (providerView h)) (optFoot providerFoot) (DeepCopy_UnikraftProvider C)"
proof -
  have "deep_copier (\<lambda>h p. downstreamOk h (pv_Downstream p))
      (\<lambda>h p. (downstreamView h (pv_Downstream p), p\<lparr>pv_Downstream := emptyDownstream\<rparr>))
      (\<lambda>h p. downstreamFoot h (pv_Downstream p)) (DeepCopyInto_UnikraftProvider C)"
    by (rule copier_view [OF copier_struct [OF copier_downstream [OF assms], where get = pv_Downstream
          and put = "\<lambda>d p. p\<lparr>pv_Downstream := d\<rparr>" and rest = "\<lambda>p. p\<lparr>pv_Downstream := emptyDownstream\<rparr>"], where g = "\<lambda>x. x"])
      (auto simp: fun_eq_iff DeepCopyInto_UnikraftProvider_def Let_def split: prod.splits)
  from copier_option [OF copier_pointer [OF this, of CProvider providerAt zeroProvider]] show ?thesis
    unfolding DeepCopy_UnikraftProvider_def providerOk_def [abs_def] providerView_def [abs_def] providerFoot_def [abs_def]
    by (simp add: providerAt_def)
qed

text \<open>The two servers, and the DNS settings on their own.\<close>

interpretation dns: deep_copier dnsOk dnsView dnsFoot DeepCopyInto_InstanceDNSConfig
  by (rule copier_dns)

interpretation metrics: deep_copier "\<lambda>h m. True" "\<lambda>h m. m" "\<lambda>h m. {}" DeepCopyInto_MetricsServerConfig
  by unfold_locales (simp_all add: DeepCopyInto_MetricsServerConfig_def)

interpretation webhook: deep_copier "\<lambda>h w. True" "\<lambda>h w. w" "\<lambda>h w. {}" DeepCopyInto_WebhookServerConfig
  by unfold_locales (simp_all add: DeepCopyInto_WebhookServerConfig_def)

text \<open>A toleration copier, as an instance of what core/v1 promises.\<close>

definition copyToleration :: tolerationCopier where
  "copyToleration h t = (case ifNotNil copyInt h (tr_TolerationSeconds t) of (h, s) \<Rightarrow> (h, t\<lparr>tr_TolerationSeconds := s\<rparr>))"

lemma copyToleration_copies: "copiesTolerations copyToleration"
  by (rule copier_view [OF copier_struct [OF copier_option [OF copier_int], where get = tr_TolerationSeconds
        and put = "\<lambda>s t. t\<lparr>tr_TolerationSeconds := s\<rparr>" and rest = "\<lambda>t. t\<lparr>tr_TolerationSeconds := None\<rparr>"], where g = "\<lambda>x. x"])
    (auto simp: fun_eq_iff tolerationOk_def tolerationView_def tolerationFoot_def copyToleration_def)

interpretation provider: deep_copier "optOk providerOk" "\<lambda>h. map_option (providerView h)" "optFoot providerFoot"
  "DeepCopy_UnikraftProvider copyToleration"
  by (rule copier_provider [OF copyToleration_copies])

section \<open>Properties\<close>

text \<open>
  C29. A copy of the configuration is equal and independent: \<open>DeepCopyObject\<close> leaves every cell of the
  heap as it was, the copy shows the same values (nil and empty kept apart), and whatever is later
  written behind the copy does not show in the original, nor the other way round. A nil
  configuration is copied to nil.
\<close>

theorem deep_copy_independent:
  assumes "copiesTolerations C" "providerOk h a"
  shows "DeepCopyObject C h None = (h, None) \<and>
    (\<exists>h' b. DeepCopyObject C h (Some a) = (h', Some b) \<and> take (length h) h' = h \<and>
       providerView h' b = providerView h a \<and>
       (\<forall>h2. agree (- providerFoot h' b) h' h2 \<longrightarrow> providerView h2 a = providerView h a) \<and>
       (\<forall>h2. agree (- providerFoot h a) h' h2 \<longrightarrow> providerView h2 b = providerView h a))"
proof -
  obtain h' q where c: "DeepCopy_UnikraftProvider C h (Some a) = (h', q)" by (metis surj_pair)
  then obtain b where q: "q = Some b" by (auto simp: DeepCopy_UnikraftProvider_def ifNotNil_def split: prod.splits)
  have ok: "optOk providerOk h (Some a)" using assms(2) by (simp add: optOk_def)
  note p = copier_provider [OF assms(1)]
  obtain xs where "h' = h @ xs" using deep_copier.copies [OF p ok c] by blast
  moreover have "DeepCopyObject C h (Some a) = (h', Some b)" using c q by (simp add: DeepCopyObject_def)
  moreover have "DeepCopyObject C h None = (h, None)" by (simp add: DeepCopyObject_def DeepCopy_UnikraftProvider_def ifNotNil_def)
  ultimately show ?thesis
    using deep_copier.independent [OF p ok c] q by (intro conjI exI [of _ h'] exI [of _ b] allI impI) (simp_all add: optFoot_def)
qed

section \<open>Witnesses\<close>

text \<open>A configuration with a node selector, a toleration and DNS settings.\<close>

definition demoHeap :: heap where
  "demoHeap =
     [CMap [(''pool'', ''kraftlet'')], CInt 30, CTolerations [zeroToleration\<lparr>tr_Key := ''ukc'', tr_TolerationSeconds := Some 1\<rparr>],
      CStrings [''10.0.0.10'', ''10.0.0.11''],
      CInstanceDNS (emptyDNSRef\<lparr>dn_Nameservers := Some \<lparr>sl_base = 3, sl_off = 0, sl_len = 2\<rparr>\<rparr>),
      CProvider (zeroProvider\<lparr>pv_Downstream := emptyDownstream\<lparr>dm_NodeSelector := Some 0,
        dm_Tolerations := Some \<lparr>sl_base = 2, sl_off = 0, sl_len = 1\<rparr>, dm_InstanceDNS := Some 4\<rparr>\<rparr>)]"

theorem deep_copy_independent_witness:
  "\<exists>h' b. DeepCopyObject copyToleration demoHeap (Some 5) = (h', Some b) \<and> b \<noteq> 5 \<and>
     providerView (h'[0 := CMap []]) b = providerView demoHeap 5"
proof -
  have ok: "providerOk demoHeap 5" by code_simp
  from deep_copy_independent [OF copyToleration_copies ok] obtain h' b where
    d: "DeepCopyObject copyToleration demoHeap (Some 5) = (h', Some b)"
    and v: "\<forall>h2. agree (- providerFoot demoHeap 5) h' h2 \<longrightarrow> providerView h2 b = providerView demoHeap 5" by blast
  have "0 \<in> providerFoot demoHeap 5" by code_simp
  then have "agree (- providerFoot demoHeap 5) h' (h'[0 := CMap []])"
    by (auto simp: agree_def cellAt_def) (metis nth_list_update_neq)
  moreover have "b \<noteq> 5"
  proof -
    have "snd (DeepCopyObject copyToleration demoHeap (Some 5)) \<noteq> Some 5" by code_simp
    then show ?thesis using d by simp
  qed
  ultimately show ?thesis using d v by blast
qed

end
