(* ===== verification/Spec2Isabelle.thy ===== *)
theory Spec2Isabelle
  imports Programs Cluster Billing Fqdns Deep_Copy
begin

text \<open>
  A verification of the Unikraft infrastructure provider: the operator that turns Instances of
  the compute API into Pods and Services for kraftlet (src/cmd/main.go, src/internal/controller,
  src/internal/config, src/internal/locationutil), and the state projector, the per-node sidecar
  that turns the runtime's state changes into usage records (src/cmd/state-projector,
  src/internal/stateprojector).

  \<^bold>\<open>How the parts interact.\<close> The operator reconciles one Instance at a time against the API server:
  it guards the Instance with a finalizer, creates or patches its Pod and Service, recovers a Pod
  that its host lost, and writes the status. On every node the projector watches the Pods and
  Namespaces the operator works with, tails the events file of the runtime, keeps a window per
  running instance and appends records that the billing pipeline collects. The contract between
  the two is the Pod: its labels name the Instance, its limits are the billed size.

  \<^bold>\<open>Theories.\<close>
  \<^item> Go_Base, Go_Time: what the sources use of Go and its library (maps as association lists,
    int64 with wrap-around, strings as bytes, decimal numbers, times as nanoseconds, RFC 3339).
  \<^item> Md5, Float64, Json: crypto/md5 on 32-bit words; float64 with round to even, its shortest decimal
    text and the reading of literals; the scanner and the automaton of encoding/json, its printing,
    and decoding into structs, maps and any. Float64_Laws and Json_Laws show that what is printed is
    read back, Json_Torn that no proper part of a text decodes into a struct.
  \<^item> Kube: the API objects as records of the fields the sources read or write.
  \<^item> Event, Window, Namespace_Index, Pod_Index, Writer, Processor, File_Source, Service: the
    projector, one theory per Go file (window.go and stats.go share Window, watch.go and
    service.go share Service). A struct is a record, a method a function on it. The goroutines
    of service.go are the step relation of Service: one step is a handled line, an informer
    callback, the flush of one window, or a restart. Records and Billing put the program's own
    decoder, hash and printing in place of the parameters and follow the bytes of the two files.
  \<^item> Config: config.go, the generated defaults, runtimeclass.go and vpc_networking.go, with the
    parser of netip.ParseAddr. Deep_Copy: the generated deep copies, on a heap of maps, slices and
    pointers that may be shared.
  \<^item> Client: the calls of the operator. A reconcile is a tree of calls (type prog) with one
    continuation per answer; a run is the list of calls with their answers. The functions of
    controller-runtime, apimachinery and compute are the record kubeLib; what is relied on of them
    is the locale kube_lib, and its laws for CreateOrPatch say that the object is read, handed to
    the callback and then created or patched. stdLib is an instance that satisfies the laws.
  \<^item> Instance_Mapper: instancetype_catalog.go and instance_mapper.go. Pod_Builder, Recovery, Status
    and Reconciler: instance_controller.go and instance_recovery.go. Fqdns: the decoding of the FQDN
    annotation. Programs: the two main functions, SetupWithManager and location.go.
  \<^item> Cluster: reconciles against an API server whose objects other actors change between any two
    calls, with calls that fail, answers that get lost and crashes anywhere. Reads are current, as
    from the server itself; a stale cache is outside this model.

  \<^bold>\<open>What is shown of the projector.\<close> In every reachable state, under every interleaving, disk failure
  and restart, the records of an open window tile the span from the start of running to its
  watermark, add up to exactly that time and are never empty (Service). An event that closes a
  window bills the rest with the attribution of the Pod (Processor); a flush catches up and equals
  its per-window steps; every complete line of the events file is handled once and in order,
  across reads, polls and restarts between lines, and printed events come out as the same events
  (File_Source); a start and a stop in the events file become one JSON line of the output file with
  the right project, instance, sizes, id and, to the nanosecond, duration (Billing); appends never change written
  bytes, the cleanup deletes only aged rotations, record ids are injective before hashing
  (Writer); timestamps, offsets and project names round-trip. The failures the code has are
  theorems too: a write error on close, a restart with open windows, and a restart inside a line,
  which costs that event and nothing else.

  \<^bold>\<open>What is shown of the operator.\<close> For every run, whatever the server answers: the finalizer is
  released last and only once Pod and Service were seen gone; nothing is created without it or
  for an Instance that is deleting, suspended, gated or no sandbox; the spec of an existing Pod is
  never changed; a reconcile returns within ten calls and one per container; a deletion is retried
  until it gets through (Reconciler); and in every reachable state of a cluster a Pod exists only
  while its Instance holds the finalizer (Cluster). A new Pod has the sizes the catalog resolves, zero requests,
  no credential, platform annotations from the configuration only, and a Service that selects it
  alone (Pod_Builder, Instance_Mapper). A Pod is recovered only on evidence, and a stuck or
  rebooted one is (Recovery). The conditions are true of the Pod, the status sync owns its fields
  only and settles after one write (Status), and the names of the FQDN annotation are reported once
  each (Fqdns). A copy of the configuration shares nothing with the original (Deep_Copy). Validation accepts exactly the usable DNS settings
  (Config), and a started operator builds well-formed Pods (Programs). In this theory the two
  programs meet: a Pod the operator builds is billed at the size it was built with.

  \<^bold>\<open>Interfaces.\<close> The locales are the contracts between components: record_writer and reliable_writer
  (Writer, relied on by Processor), window_store (Window), project_resolver (Namespace_Index),
  pod_resolver (Pod_Index), event_handler (File_Source, provided by Processor), kube_lib
  (Client) and its extension identity_labels (Pod_Builder), api_server (Cluster) and deep_copier
  (Deep_Copy). Each is interpreted on the model's own definitions, kube_lib and identity_labels on
  stdLib, api_server on a store of objects.

  \<^bold>\<open>Bounds and fuel.\<close> No definition uses fuel. The loops of the sources are structural recursion:
  over the bytes or lines read, over scripted rounds of system calls, over the containers of a Pod.
  A program of the operator is a finite tree, so every server behaviour has a run, and the number
  of calls is bounded by a theorem. The endless loops of the projector are the step relation, whose
  reachable states have any number of steps.

  \<^bold>\<open>Parameters.\<close> The answers of the API server, of the disk and of the informers, the clock, the
  configuration codec and the manager of controller-runtime, the copy of a core/v1 toleration, and
  the constants of go.datum.net/compute. The MD5 function, the two JSON decoders and the printing of
  seconds are arguments of the component theories as well, since nothing there depends on them;
  their instances are md5hex, unmarshalStateChange, unmarshalFqdns and marshalSeconds.

  \<^bold>\<open>Not modelled.\<close> Log output (the heartbeat and the boot line among it); the scheme registration,
  which only declares names to a library; flag parsing and process signals; the caches of
  controller-runtime; the Kubernetes manifests, build files and tests of the repository.
\<close>

section \<open>The operator and the projector\<close>

context kube_lib
begin

lemma built_contribution:
  "containerVcpu (buildContainer L sc sz) = max 0 (fst sz)"
  "max 0 (containerMemory (buildContainer L sc sz)) = max 0 (wrap64 (wrap64 (snd sz * 1024) * 1024))"
  by (auto simp: containerVcpu_def containerMemory_def listMilliCPU_def listMemory_def milliCPU_def
      map_of_containerLimits map_of_zeroSchedulerRequests quantity_value quantity_milli quantity_zero)

end

lemma fold_max_nonneg: "fold max (map f xs) (0::int) = fold max (map (\<lambda>x. max 0 (f x)) xs) 0"
proof -
  have "0 \<le> a \<Longrightarrow> fold max (map f xs) a = fold max (map (\<lambda>x. max 0 (f x)) xs) a" for a :: int
  proof (induction xs arbitrary: a)
    case (Cons x xs)
    have "max (f x) a = max (max 0 (f x)) a" using Cons.prems by auto
    then show ?case using Cons by simp
  qed simp
  then show ?thesis by simp
qed

text \<open>
  C11. The projector bills what the operator built: a Pod created for an Instance, once its containers
  have ids, is indexed under each of them as that Instance, with the largest CPU and memory its
  containers were sized to. The zero requests set for the scheduler never lower the bill.
\<close>

theorem pod_billed_at_its_size:
  assumes "identity_labels L" "in_Sandbox inst = Some sb"
    and "runs (mutateInstancePod L cfg inst (blankPod (in_Namespace inst) (in_Name inst))) tr (Inr p)"
    and "p' = p\<lparr>pod_ContainerStatuses := css\<rparr>" "uuid \<in> set (containerIDs p')"
    and "upsertPod resolveProject (Some p') (st, pods) = (st', pods')"
  shows "\<exists>szs rec. list_all2 (sizesTo inst) (sb_Containers sb) szs \<and> resolvePod pods' uuid = (Some rec, reasonOK) \<and>
    i_instance rec = in_Name inst \<and> i_project rec = (case resolveProject (in_Namespace inst) of Some x \<Rightarrow> x | None \<Rightarrow> '''') \<and>
    i_vcpuMilli rec = fold max (map (\<lambda>sz. max 0 (fst sz)) szs) 0 \<and>
    i_memoryBytes rec = fold max (map (\<lambda>sz. max 0 (wrap64 (wrap64 (snd sz * 1024) * 1024))) szs) 0"
proof -
  have K: "kube_lib L" using assms(1) by (simp add: identity_labels_def)
  have z: "isZeroTime (m_CreationTimestamp (pod_Meta (blankPod (in_Namespace inst) (in_Name inst))))"
    by (simp add: blankPod_def blankMeta_def isZeroTime_def)
  obtain cs where cs: "list_all2 (\<lambda>sc c. \<exists>sz. sizesTo inst sc sz \<and> c = buildContainer L sc sz) (sb_Containers sb) cs"
    and p: "pod_Spec p = podSpecOf cfg inst cs" "pod_Labels p = podLabels L cfg inst []" "pod_Namespace p = in_Namespace inst"
    by (rule kube_lib.mutate_new [OF K assms(3) z assms(2)]) (simp add: blankPod_def blankMeta_def)
  from cs obtain szs where szs: "list_all2 (sizesTo inst) (sb_Containers sb) szs"
      "map containerVcpu cs = map (\<lambda>sz. max 0 (fst sz)) szs"
      "map (\<lambda>c. max 0 (containerMemory c)) cs = map (\<lambda>sz. max 0 (wrap64 (wrap64 (snd sz * 1024) * 1024))) szs"
  proof (induction arbitrary: thesis rule: list_all2_induct)
    case Nil
    then show ?case by simp
  next
    case (Cons sc scs c cs)
    from Cons.hyps(1) obtain sz where "sizesTo inst sc sz" "c = buildContainer L sc sz" by blast
    moreover obtain szs where "list_all2 (sizesTo inst) scs szs"
      "map containerVcpu cs = map (\<lambda>sz. max 0 (fst sz)) szs"
      "map (\<lambda>c. max 0 (containerMemory c)) cs = map (\<lambda>sz. max 0 (wrap64 (wrap64 (snd sz * 1024) * 1024))) szs"
      by (rule Cons.IH)
    ultimately show ?case
      using Cons.prems [of "sz # szs"] by (simp add: kube_lib.built_contribution [OF K])
  qed
  let ?rec = "fst (podInfo resolveProject p')"
  have "resolvePod pods' uuid = (Some ?rec, reasonOK)"
    using upsertPod_lookup [OF assms(6), of uuid] assms(5) by (simp add: resolvePod_Some)
  moreover have "i_instance ?rec = in_Name inst"
    using p(2) identity_labels.label_mirror(2) [OF assms(1)] assms(4)
    by (simp add: podInfo_def Let_def strAt_def upstreamInstanceLabel_def)
  moreover have "i_project ?rec = (case resolveProject (in_Namespace inst) of Some x \<Rightarrow> x | None \<Rightarrow> '''')"
    using p(3) assms(4) by (simp add: podInfo_def Let_def split: option.split)
  moreover have "i_vcpuMilli ?rec = fold max (map (\<lambda>sz. max 0 (fst sz)) szs) 0"
    using p(1) assms(4) szs(2) by (simp add: podInfo_def Let_def fold_foldContainer_resources)
  moreover have "i_memoryBytes ?rec = fold max (map (\<lambda>c. max 0 (containerMemory c)) cs) 0"
    using p(1) assms(4) by (simp add: podInfo_def Let_def fold_foldContainer_resources fold_max_nonneg [of containerMemory])
  ultimately show ?thesis using szs(1,3) by (intro exI [of _ szs] exI [of _ ?rec]) simp
qed

definition demoStatuses :: "containerStatus list" where
  "demoStatuses = [\<lparr>cs_Name = ''app'', cs_Image = ''img'', cs_ContainerID = ''ukc://u-1'', cs_Waiting = None,
     cs_Terminated = None, cs_LastTerminated = None\<rparr>]"

theorem pod_billed_at_its_size_witness:
  "\<exists>p st' pods' rec. runs (mutateInstancePod stdLib (Some demoConfig) demoInst (blankPod ''ns'' ''vm'')) [] (Inr p) \<and>
     upsertPod (\<lambda>n. Some ''proj'') (Some (p\<lparr>pod_ContainerStatuses := demoStatuses\<rparr>)) (zeroStats, []) = (st', pods') \<and>
     resolvePod pods' ''u-1'' = (Some rec, reasonOK) \<and> i_instance rec = ''vm'' \<and> i_project rec = ''proj''"
proof -
  obtain p where p: "runs (mutateInstancePod stdLib (Some demoConfig) demoInst (blankPod ''ns'' ''vm'')) [] (Inr p)"
    using demo_mutate by blast
  let ?p' = "p\<lparr>pod_ContainerStatuses := demoStatuses\<rparr>"
  obtain st' pods' where u: "upsertPod (\<lambda>n. Some ''proj'') (Some ?p') (zeroStats, []) = (st', pods')"
    by (cases "upsertPod (\<lambda>n. Some ''proj'') (Some ?p') (zeroStats, [])")
  have sb: "in_Sandbox demoInst = Some \<lparr>sb_Containers = [demoSandboxContainer], sb_ImagePullSecrets = []\<rparr>"
    and n: "in_Namespace demoInst = ''ns''" "in_Name demoInst = ''vm''"
    by (simp_all add: demoInst_def blankMeta_def)
  have i: "''u-1'' \<in> set (containerIDs ?p')" by (simp add: containerIDs_def demoStatuses_def hasPrefix_def)
  from pod_billed_at_its_size [OF std.identity_labels_axioms sb _ refl i u, of "Some demoConfig" "[]"] p u n
  show ?thesis by (auto simp del: upsertPod_def)
qed


end
